(* ===== verification/Prelude.thy ===== *)
theory Prelude
  imports Complex_Main "HOL-Library.Word" "HOL-Library.Monad_Syntax" "HOL-Library.Sublist"
begin

text \<open>
  What every component shares: the byte and byte-string types, the Python operations on
  sequences that the code uses (indexing that may raise IndexError, slicing, \<open>find\<close>), the
  little-endian readers, check sums, hexadecimal text, and the lemmas about them.
  \<open>codec_simps\<close> collects the unfoldings of the byte-level helpers, \<open>slice_simps\<close> the
  length and splitting facts about slices.
\<close>

unbundle bit_operations_syntax

named_theorems codec_simps
named_theorems slice_simps

section \<open>Bytes and Python sequences\<close>

text \<open>
  A Python \<open>bytes\<close> value is a list of 8-bit words; an \<open>int\<close> read off a byte is its
  \<open>unat\<close>, a natural number, since no value derived from bytes here is negative.
\<close>

type_synonym byte = "8 word"
type_synonym bytes = "byte list"

text \<open>\<open>xs[i]\<close>: \<open>None\<close> stands for the IndexError.\<close>

definition py_at :: "'a list \<Rightarrow> nat \<Rightarrow> 'a option" where
  "py_at xs i = (if i < length xs then Some (xs ! i) else None)"

text \<open>\<open>xs[i:j]\<close> for non-negative bounds: never raises, stops at the end.\<close>

definition py_slice :: "'a list \<Rightarrow> nat \<Rightarrow> nat \<Rightarrow> 'a list" where
  "py_slice xs i j = take (j - i) (drop i xs)"

text \<open>\<open>buf.find(b, start)\<close>: the least index from \<open>start\<close> on that holds \<open>b\<close>.\<close>

fun find_from :: "'a \<Rightarrow> nat \<Rightarrow> 'a list \<Rightarrow> nat option" where
  "find_from b i [] = None"
| "find_from b i (x # xs) = (if x = b then Some i else find_from b (Suc i) xs)"

definition py_find :: "'a list \<Rightarrow> 'a \<Rightarrow> nat \<Rightarrow> nat option" where
  "py_find xs b start = find_from b start (drop start xs)"

lemma py_at_Some_iff [simp]: "py_at xs i = Some x \<longleftrightarrow> i < length xs \<and> x = xs ! i"
  by (auto simp: py_at_def)

lemma py_at_None_iff [simp]: "py_at xs i = None \<longleftrightarrow> length xs \<le> i"
  by (auto simp: py_at_def)

lemma length_py_slice [slice_simps]: "length (py_slice xs i j) = min (j - i) (length xs - i)"
  by (simp add: py_slice_def min.commute)

lemma py_slice_prefix [slice_simps]: "py_slice xs 0 j = take j xs"
  by (simp add: py_slice_def)

lemma py_slice_append [slice_simps]:
  "i = length xs \<Longrightarrow> j = length xs + length ys \<Longrightarrow> py_slice (xs @ ys @ zs) i j = ys"
  by (simp add: py_slice_def)

lemma find_from_Some:
  "find_from b i xs = Some k \<Longrightarrow> i \<le> k \<and> k < i + length xs \<and> xs ! (k - i) = b"
proof (induction xs arbitrary: i)
  case Nil
  then show ?case by simp
next
  case (Cons x xs)
  show ?case
  proof (cases "x = b")
    case True
    with Cons.prems show ?thesis by simp
  next
    case False
    with Cons.prems have "find_from b (Suc i) xs = Some k" by simp
    from Cons.IH [OF this] have "Suc i \<le> k" "k < Suc i + length xs" "xs ! (k - Suc i) = b"
      by auto
    moreover from this have "k - i = Suc (k - Suc i)" by simp
    ultimately show ?thesis by simp
  qed
qed

lemma find_from_None: "find_from b i xs = None \<longleftrightarrow> b \<notin> set xs"
  by (induction xs arbitrary: i) auto

lemma py_find_Some:
  "py_find xs b s = Some k \<Longrightarrow> s \<le> k \<and> k < length xs \<and> xs ! k = b"
  by (cases "s \<le> length xs") (auto simp: py_find_def dest!: find_from_Some)

lemma py_find_None: "py_find xs b s = None \<longleftrightarrow> b \<notin> set (drop s xs)"
  by (simp add: py_find_def find_from_None)

section \<open>Integers read off bytes\<close>

text \<open>
  \<open>lo | (hi << 8)\<close> and its wider forms, on the natural numbers Python computes with. The
  lemmas turn the bitwise forms into sums, quotients and remainders.
\<close>

definition pair16 :: "byte \<Rightarrow> byte \<Rightarrow> nat" where
  "pair16 lo hi = unat lo OR push_bit 8 (unat hi)"

definition le16 :: "bytes \<Rightarrow> nat \<Rightarrow> nat option" where
  "le16 b off = do { x \<leftarrow> py_at b off; y \<leftarrow> py_at b (off + 1);
     Some (unat x OR push_bit 8 (unat y)) }"

lemma or_push_bit_add:
  assumes "(a::nat) < 2 ^ n"
  shows "a OR push_bit n b = a + 2 ^ n * b"
proof -
  have low: "\<not> bit a m" if "n \<le> m" for m
  proof -
    have "take_bit n a = a" using assms by (simp add: take_bit_nat_eq_self)
    then have "bit a m \<longleftrightarrow> m < n \<and> bit a m" by (metis bit_take_bit_iff)
    with that show ?thesis by simp
  qed
  have "a AND push_bit n b = 0"
    by (rule bit_eqI) (use low in \<open>auto simp: bit_simps\<close>)
  then have "a OR push_bit n b = a + push_bit n b"
    by (simp add: disjunctive_add_eq_or)
  then show ?thesis by (simp add: push_bit_eq_mult ac_simps)
qed

lemma nat_and_mask: "(x::nat) AND (2 ^ n - 1) = x mod 2 ^ n"
  using take_bit_eq_mask [of n x] by (simp add: take_bit_eq_mod mask_eq_exp_minus_1)

lemma nat_and_numeral_mask:
  "m = 2 ^ n - 1 \<Longrightarrow> k = 2 ^ n \<Longrightarrow> (x::nat) AND m = x mod k"
  by (simp only: nat_and_mask)

lemma nat_and_masks [codec_simps]:
  "(x::nat) AND 1 = x mod 2" "(x::nat) AND 3 = x mod 4" "(x::nat) AND 7 = x mod 8"
  "(x::nat) AND 15 = x mod 16" "(x::nat) AND 31 = x mod 32" "(x::nat) AND 63 = x mod 64"
  "(x::nat) AND 127 = x mod 128" "(x::nat) AND 255 = x mod 256"
  "(x::nat) AND 32767 = x mod 32768" "(x::nat) AND 65535 = x mod 65536"
           apply (rule nat_and_numeral_mask [where n = 1]; simp)
          apply (rule nat_and_numeral_mask [where n = 2]; simp)
         apply (rule nat_and_numeral_mask [where n = 3]; simp)
        apply (rule nat_and_numeral_mask [where n = 4]; simp)
       apply (rule nat_and_numeral_mask [where n = 5]; simp)
      apply (rule nat_and_numeral_mask [where n = 6]; simp)
     apply (rule nat_and_numeral_mask [where n = 7]; simp)
    apply (rule nat_and_numeral_mask [where n = 8]; simp)
   apply (rule nat_and_numeral_mask [where n = 15]; simp)
  apply (rule nat_and_numeral_mask [where n = 16]; simp)
  done

text \<open>The same masks on Python's unbounded integers, negative ones included.\<close>

lemma int_and_mask: "(x::int) AND (2 ^ n - 1) = x mod 2 ^ n"
  using take_bit_eq_mask [of n x] by (simp add: take_bit_eq_mod mask_eq_exp_minus_1)

lemma int_and_numeral_mask:
  "m = 2 ^ n - 1 \<Longrightarrow> k = 2 ^ n \<Longrightarrow> (x::int) AND m = x mod k"
  by (simp only: int_and_mask)

lemma int_and_masks [codec_simps]:
  "(x::int) AND 1 = x mod 2" "(x::int) AND 3 = x mod 4" "(x::int) AND 7 = x mod 8"
  "(x::int) AND 15 = x mod 16" "(x::int) AND 63 = x mod 64" "(x::int) AND 127 = x mod 128"
  "(x::int) AND 255 = x mod 256" "(x::int) AND 32767 = x mod 32768"
         apply (rule int_and_numeral_mask [where n = 1]; simp)
        apply (rule int_and_numeral_mask [where n = 2]; simp)
       apply (rule int_and_numeral_mask [where n = 3]; simp)
      apply (rule int_and_numeral_mask [where n = 4]; simp)
     apply (rule int_and_numeral_mask [where n = 6]; simp)
    apply (rule int_and_numeral_mask [where n = 7]; simp)
   apply (rule int_and_numeral_mask [where n = 8]; simp)
  apply (rule int_and_numeral_mask [where n = 15]; simp)
  done

lemma int_drop_bits [codec_simps]: "drop_bit n (x::int) = x div 2 ^ n"
  by (simp add: drop_bit_eq_div)

lemma int_push_bit_or:
  assumes "0 \<le> a" "a < 2 ^ n"
  shows "push_bit n b OR (a::int) = 2 ^ n * b + a"
proof -
  have low: "\<not> bit a m" if "n \<le> m" for m
  proof -
    have "take_bit n a = a" using assms by (simp add: take_bit_int_eq_self)
    then have "bit a m \<longleftrightarrow> m < n \<and> bit a m" by (metis bit_take_bit_iff)
    with that show ?thesis by simp
  qed
  have "push_bit n b AND a = 0"
    by (rule bit_eqI) (use low in \<open>auto simp: bit_simps\<close>)
  then have "push_bit n b OR a = push_bit n b + a"
    by (simp add: disjunctive_add_eq_or)
  then show ?thesis by (simp add: push_bit_eq_mult ac_simps)
qed

lemma nat_drop_bits [codec_simps]: "drop_bit n (x::nat) = x div 2 ^ n"
  by (simp add: drop_bit_eq_div)

lemma unat_byte_less [simp]: "unat (b::byte) < 256"
  using unsigned_less [of b] by simp

lemma unat_byte_mod [simp]: "unat (b::byte) mod 256 = unat b"
  by simp

lemma byte_nibbles [simp]: "unat (b::byte) div 16 < 16" "unat (b::byte) mod 16 < 16"
  using unat_byte_less [of b] by linarith+

lemma unat_of_nat_byte [codec_simps]: "unat (of_nat n :: byte) = n mod 256"
  by (simp add: unat_of_nat)

lemma uint_of_int_byte [codec_simps]: "uint (of_int x :: byte) = x mod 256"
  by (simp add: uint_word_of_int)

lemma uint_byte_range [simp]: "0 \<le> uint (b::byte)" "uint (b::byte) < 256"
  using unsigned_less [of b, where ?'a = int] by simp_all

text \<open>A statement about every byte is one about 256 numbers.\<close>

lemma all_bytes: "(\<forall>b::byte. P b) \<longleftrightarrow> list_all (\<lambda>n. P (of_nat n)) [0..<256]"
proof
  assume h: "list_all (\<lambda>n. P (of_nat n)) [0..<256]"
  show "\<forall>b. P b"
  proof
    fix b :: byte
    from h have "\<forall>n < 256. P (of_nat n)" by (simp add: list_all_iff)
    then have "P (of_nat (unat b))" using unat_byte_less [of b] by blast
    then show "P b" by simp
  qed
qed (simp add: list_all_iff)

lemma pair16_eq [codec_simps]: "pair16 lo hi = unat lo + 256 * unat hi"
  using or_push_bit_add [of "unat lo" 8 "unat hi"] by (simp add: pair16_def)

lemma le16_pair16: "le16 b off = (if off + 1 < length b then Some (pair16 (b ! off) (b ! (off + 1))) else None)"
  by (auto simp: le16_def pair16_def py_at_def)

lemma pair16_less: "pair16 lo hi < 65536"
  unfolding pair16_eq using unat_byte_less [of lo] unat_byte_less [of hi] by linarith

text \<open>The two bytes of a 16-bit number, low byte first, and back.\<close>

lemma pair16_of_nat:
  "n < 65536 \<Longrightarrow> pair16 (of_nat (n mod 256)) (of_nat (n div 256 mod 256)) = n"
  by (simp add: codec_simps)

section \<open>Check sums\<close>

text \<open>\<open>sum(bs)\<close> over the integers; every use reduces it modulo 256.\<close>

definition byte_sum :: "bytes \<Rightarrow> nat" where
  "byte_sum bs = sum_list (map unat bs)"

lemma byte_sum_append [simp]: "byte_sum (xs @ ys) = byte_sum xs + byte_sum ys"
  by (simp add: byte_sum_def)

lemma byte_sum_simps [simp]: "byte_sum [] = 0" "byte_sum (b # bs) = unat b + byte_sum bs"
  by (simp_all add: byte_sum_def)

lemma byte_sum_word: "(of_nat (byte_sum bs) :: byte) = sum_list bs"
  by (induction bs) simp_all

section \<open>Exceptions and text\<close>

text \<open>
  The Python exceptions the modelled code raises or catches. A function that may raise several
  of them returns \<open>py_exc + 'a\<close>; one whose only exception is the IndexError of an
  out-of-range read returns \<open>'a option\<close>. \<open>UnsupportedFn\<close> is the ValueError subclass of the
  frame builder; other subclasses count as their parent.
\<close>

datatype py_exc =
    IndexError | ValueError | KeyError | TypeError | RuntimeError | AttributeError | OverflowError | ZeroDivisionError
  | UnsupportedFn

text \<open>\<open>f"{b:02X}"\<close> for the bytes of a string, joined; \<open>bytes.fromhex\<close> is its inverse.\<close>

definition hex_digit :: "nat \<Rightarrow> char" where
  "hex_digit n = ''0123456789ABCDEF'' ! n"

definition hex_upper :: "bytes \<Rightarrow> string" where
  "hex_upper bs = concat (map (\<lambda>b. [hex_digit (unat b div 16), hex_digit (unat b mod 16)]) bs)"

lemma hex_upper_simps [simp]:
  "hex_upper [] = []"
  "hex_upper (b # bs) = hex_digit (unat b div 16) # hex_digit (unat b mod 16) # hex_upper bs"
  by (simp_all add: hex_upper_def)

lemma hex_digit_inj: "m < 16 \<Longrightarrow> n < 16 \<Longrightarrow> hex_digit m = hex_digit n \<Longrightarrow> m = n"
proof -
  have "distinct ''0123456789ABCDEF''" by simp
  then show "m < 16 \<Longrightarrow> n < 16 \<Longrightarrow> hex_digit m = hex_digit n \<Longrightarrow> m = n"
    unfolding hex_digit_def using nth_eq_iff_index_eq [of "''0123456789ABCDEF''" m n] by simp
qed

lemma hex_upper_inj: "hex_upper xs = hex_upper ys \<Longrightarrow> xs = ys"
proof (induction xs arbitrary: ys)
  case Nil
  then show ?case by (cases ys) auto
next
  case (Cons x xs)
  then obtain y ys' where ys: "ys = y # ys'" by (cases ys) auto
  from Cons.prems ys have
    "unat x div 16 = unat y div 16" "unat x mod 16 = unat y mod 16" "hex_upper xs = hex_upper ys'"
    by (auto intro!: hex_digit_inj)
  then have "unat x = unat y" by (metis div_mult_mod_eq)
  then have "x = y" by (simp add: word_unat_eq_iff)
  with Cons.IH [of ys'] \<open>hex_upper xs = hex_upper ys'\<close> ys show ?case by simp
qed

section \<open>Python text\<close>

text \<open>
  Strings are lists of characters of the range 0 to 255, which the protocol texts stay in.
  \<open>strip()\<close>, \<open>replace(c, "")\<close>, \<open>int(c, 16)\<close> of one character,
  \<open>bytes.fromhex\<close> and \<open>str(n)\<close>.
\<close>

definition is_space :: "char \<Rightarrow> bool" where
  "is_space c = ((of_char c :: nat) \<in> {9, 10, 11, 12, 13, 28, 29, 30, 31, 32, 133, 160})"

definition py_strip :: "string \<Rightarrow> string" where
  "py_strip s = rev (dropWhile is_space (rev (dropWhile is_space s)))"

definition remove_char :: "char \<Rightarrow> string \<Rightarrow> string" where
  "remove_char c s = filter (\<lambda>x. x \<noteq> c) s"

definition is_digit :: "char \<Rightarrow> bool" where
  "is_digit c = (48 \<le> (of_char c :: nat) \<and> (of_char c :: nat) \<le> 57)"

definition hex_val :: "char \<Rightarrow> nat option" where
  "hex_val c =
     (let n = (of_char c :: nat) in
      if 48 \<le> n \<and> n \<le> 57 then Some (n - 48)
      else if 65 \<le> n \<and> n \<le> 70 then Some (n - 55)
      else if 97 \<le> n \<and> n \<le> 102 then Some (n - 87)
      else None)"

fun from_hex :: "string \<Rightarrow> bytes option" where
  "from_hex [] = Some []"
| "from_hex [c] = (if (of_char c :: nat) \<in> {9, 10, 11, 12, 13, 32} then Some [] else None)"
| "from_hex (c # d # cs) =
     (if (of_char c :: nat) \<in> {9, 10, 11, 12, 13, 32} then from_hex (d # cs)
      else do { h \<leftarrow> hex_val c; l \<leftarrow> hex_val d; r \<leftarrow> from_hex cs;
                Some (of_nat (16 * h + l) # r) })"

text \<open>The digits of \<open>int(s)\<close>: single underscores may stand between them.\<close>

fun int_digits :: "nat \<Rightarrow> string \<Rightarrow> nat option" where
  "int_digits acc [] = Some acc"
| "int_digits acc (c # cs) =
     (if is_digit c then int_digits (acc * 10 + ((of_char c :: nat) - 48)) cs
      else if c = CHR ''_''
      then (case cs of d # _ \<Rightarrow> if is_digit d then int_digits acc cs else None | [] \<Rightarrow> None)
      else None)"

definition py_int :: "string \<Rightarrow> int option" where
  "py_int s =
     (case py_strip s of
        [] \<Rightarrow> None
      | c # cs \<Rightarrow>
          let (sign, body) = (if c = CHR ''-'' then (-1, cs) else if c = CHR ''+'' then (1, cs) else (1, c # cs))
          in (case body of
                d # _ \<Rightarrow> if is_digit d then map_option (\<lambda>n. sign * int n) (int_digits 0 body) else None
              | [] \<Rightarrow> None))"

fun show_nat :: "nat \<Rightarrow> string" where
  "show_nat n = (if n < 10 then [hex_digit n] else show_nat (n div 10) @ [hex_digit (n mod 10)])"

declare show_nat.simps [simp del]

lemma hex_digit_facts:
  "n < 16 \<Longrightarrow> hex_val (hex_digit n) = Some n \<and> \<not> is_space (hex_digit n)
     \<and> hex_digit n \<noteq> CHR ''-'' \<and> (n < 10 \<longrightarrow> is_digit (hex_digit n))"
proof -
  have "list_all (\<lambda>n. hex_val (hex_digit n) = Some n \<and> \<not> is_space (hex_digit n)
     \<and> hex_digit n \<noteq> CHR ''-'' \<and> (n < 10 \<longrightarrow> is_digit (hex_digit n))) [0..<16]"
    by code_simp
  then show "n < 16 \<Longrightarrow> hex_val (hex_digit n) = Some n \<and> \<not> is_space (hex_digit n)
     \<and> hex_digit n \<noteq> CHR ''-'' \<and> (n < 10 \<longrightarrow> is_digit (hex_digit n))"
    by (simp add: list_all_iff)
qed

lemma hex_val_digit [simp]: "n < 16 \<Longrightarrow> hex_val (hex_digit n) = Some n"
  by (simp add: hex_digit_facts)

lemma from_hex_upper: "from_hex (hex_upper bs) = Some bs"
proof (induction bs)
  case Nil
  then show ?case by simp
next
  case (Cons b bs)
  have "\<not> is_space (hex_digit (unat b div 16))" by (simp add: hex_digit_facts)
  then have "(of_char (hex_digit (unat b div 16)) :: nat) \<notin> {9, 10, 11, 12, 13, 32}"
    by (auto simp: is_space_def)
  moreover have "of_nat (16 * (unat b div 16) + unat b mod 16) = b"
    by (simp del: of_nat_add of_nat_mult)
  ultimately show ?case using Cons by (simp del: of_nat_add of_nat_mult)
qed

lemma py_strip_id: "\<forall>c \<in> set s. \<not> is_space c \<Longrightarrow> py_strip s = s"
proof -
  have d: "dropWhile is_space t = t" if "\<forall>c \<in> set t. \<not> is_space c" for t
    using that by (cases t) auto
  assume "\<forall>c \<in> set s. \<not> is_space c"
  with d [of s] d [of "rev s"] show ?thesis by (simp add: py_strip_def)
qed

lemma remove_char_id: "c \<notin> set s \<Longrightarrow> remove_char c s = s"
  by (simp add: remove_char_def filter_id_conv) blast

end
