(* ===== verification/Frame_Splitter.thy ===== *)
theory Frame_Splitter
  imports Prelude "HOL-Library.AList"
begin

text \<open>
  The protocol-independent core of the parser library (\<open>libs/parser_lib/core\<close>): the adapter
  interface (\<open>adapter.py\<close>), the stream splitter that cuts frames out of a byte stream
  (\<open>splitter.py\<close>), the sniffing router (\<open>router.py\<close>) and the result pager (\<open>envelope.py\<close>).

  The splitter calls its adapters only through \<open>try_extract\<close>. What it needs of them is the
  locale \<open>frame_extractor\<close>; the adapters of the library are shown to meet it in their own
  theories. \<open>feed\<close> is a partial function: an adapter that reported zero consumed bytes would
  keep the loop of the source running for ever, and that is the value \<open>None\<close> here.
\<close>

section \<open>The adapter interface\<close>

record extract_result =
  ex_raw :: bytes
  ex_consumed :: nat

text \<open>
  An adapter object: its protocol key and its methods. \<open>confidence\<close> is \<open>None\<close> where the
  Python method raises; scores are the exact decimal fractions of the source.
\<close>

record 'p adapter =
  protocol :: 'p
  try_extract :: "bytes \<Rightarrow> extract_result option"
  confidence :: "bytes \<Rightarrow> rat option"

text \<open>
  What the splitter relies on: an extracted frame is a non-empty prefix of the buffer.
\<close>

locale frame_extractor =
  fixes extr :: "bytes \<Rightarrow> extract_result option"
  assumes extract_pos: "extr buf = Some r \<Longrightarrow> 0 < ex_consumed r"
    and extract_le: "extr buf = Some r \<Longrightarrow> ex_consumed r \<le> length buf"
    and extract_raw: "extr buf = Some r \<Longrightarrow> ex_raw r = take (ex_consumed r) buf"
begin

lemma extract_drop_shorter:
  "extr buf = Some r \<Longrightarrow> length (drop (ex_consumed r) buf) < length buf"
  using extract_pos extract_le by fastforce

lemma extract_split: "extr buf = Some r \<Longrightarrow> buf = ex_raw r @ drop (ex_consumed r) buf"
  by (simp add: extract_raw)

lemma extract_nonempty: "extr buf = Some r \<Longrightarrow> ex_raw r \<noteq> []"
  using extract_pos extract_le extract_raw by fastforce

end

section \<open>FrameSplitter\<close>

definition MAX_FRAME :: nat where
  "MAX_FRAME = 4096"

definition FRAME_START_BYTES :: bytes where
  "FRAME_START_BYTES = [0x68, 0x11, 0x12, 0x1A]"

text \<open>\<open>[p for p in (buf.find(b, start) for b in FRAME_START_BYTES) if p >= 0]\<close>\<close>

definition start_positions :: "bytes \<Rightarrow> nat \<Rightarrow> nat list" where
  "start_positions buf start = List.map_filter (\<lambda>b. py_find buf b start) FRAME_START_BYTES"

text \<open>\<open>del buf[:min(positions)]\<close> where there is a position to cut at.\<close>

definition cut_at_start :: "bytes \<Rightarrow> nat \<Rightarrow> bytes option" where
  "cut_at_start buf start =
     (let ps = start_positions buf start
      in if ps = [] then None else Some (drop (min_list ps) buf))"

text \<open>
  \<open>_resync\<close>, one definition per block of the source. \<open>Some buf'\<close> is \<open>True\<close> with the
  buffer changed in place to \<open>buf'\<close>; \<open>None\<close> falls through to the next block, and at the
  end stands for \<open>False\<close>.
\<close>

definition resync_noise :: "bytes \<Rightarrow> bytes option" where
  "resync_noise buf =
     (case buf of [] \<Rightarrow> None
      | b # _ \<Rightarrow>
        if b \<notin> set FRAME_START_BYTES
        then (case cut_at_start buf 0 of None \<Rightarrow> Some [] | Some b' \<Rightarrow> Some b')
        else None)"

definition resync_port :: "bytes \<Rightarrow> bytes option" where
  "resync_port buf =
     (if buf ! 0 \<in> {0x11, 0x12, 0x1A} \<and> 4 \<le> length buf
      then cut_at_start buf 1
      else None)"

definition resync_envelope :: "bytes \<Rightarrow> bytes option" where
  "resync_envelope buf =
     (if buf ! 0 = 0x68 \<and> 3 \<le> length buf
      then
        let total = pair16 (buf ! 1) (buf ! 2);
            standard_total = total + 2
        in if 12 \<le> total \<and> total \<le> MAX_FRAME \<and> total \<le> length buf \<and> buf ! (total - 1) = 0x16
           then Some (drop total buf)
           else if 12 \<le> total \<and> total \<le> 2000 \<and> standard_total \<le> length buf
                   \<and> buf ! (standard_total - 1) \<noteq> 0x16
           then cut_at_start buf 1
           else None
      else None)"

definition resync_overlong :: "bytes \<Rightarrow> bytes option" where
  "resync_overlong buf =
     (if MAX_FRAME < length buf
      then (case cut_at_start buf 1 of None \<Rightarrow> Some [] | Some b \<Rightarrow> Some b)
      else None)"

definition resync :: "bytes \<Rightarrow> bytes option" where
  "resync buf =
     (if buf = [] then None
      else case resync_noise buf of Some b \<Rightarrow> Some b | None \<Rightarrow>
      (case resync_port buf of Some b \<Rightarrow> Some b | None \<Rightarrow>
      (case resync_envelope buf of Some b \<Rightarrow> Some b | None \<Rightarrow>
       resync_overlong buf)))"

text \<open>The inner loop of \<open>feed\<close>: the first registered adapter that extracts a frame.\<close>

fun first_hit :: "'p adapter list \<Rightarrow> bytes \<Rightarrow> ('p \<times> extract_result) option" where
  "first_hit [] buf = None"
| "first_hit (a # ads) buf =
     (case try_extract a buf of
        Some r \<Rightarrow> Some (protocol a, r)
      | None \<Rightarrow> first_hit ads buf)"

partial_function (option) feed_loop ::
  "'p adapter list \<Rightarrow> bytes \<Rightarrow> ('p \<times> bytes) list \<Rightarrow> (('p \<times> bytes) list \<times> bytes) option"
where
  "feed_loop ads buf out =
     (case first_hit ads buf of
        Some hit \<Rightarrow>
          feed_loop ads (drop (ex_consumed (snd hit)) buf) (out @ [(fst hit, ex_raw (snd hit))])
      | None \<Rightarrow>
          (case resync buf of
             Some buf' \<Rightarrow> feed_loop ads buf' out
           | None \<Rightarrow> Some (out, buf)))"

record 'p splitter =
  sp_adapters :: "'p adapter list"
  sp_buf :: bytes

definition new_splitter :: "'p adapter list \<Rightarrow> 'p splitter" where
  "new_splitter ads = \<lparr>sp_adapters = ads, sp_buf = []\<rparr>"

definition feed :: "'p splitter \<Rightarrow> bytes \<Rightarrow> (('p \<times> bytes) list \<times> 'p splitter) option" where
  "feed s chunk =
     map_option (\<lambda>(out, buf). (out, s\<lparr>sp_buf := buf\<rparr>))
       (feed_loop (sp_adapters s) (sp_buf s @ chunk) [])"

definition pending :: "'p splitter \<Rightarrow> bytes" where
  "pending s = sp_buf s"

definition reset :: "'p splitter \<Rightarrow> 'p splitter" where
  "reset s = s\<lparr>sp_buf := []\<rparr>"

subsection \<open>Realignment always makes progress\<close>

lemma start_positions_bounds:
  assumes "p \<in> set (start_positions buf s)"
  shows "s \<le> p \<and> p < length buf \<and> buf ! p \<in> set FRAME_START_BYTES"
proof -
  from assms obtain b where b: "b \<in> set FRAME_START_BYTES" and f: "py_find buf b s = Some p"
    by (auto simp: start_positions_def List.map_filter_def)
  from py_find_Some [OF f] b show ?thesis by auto
qed

lemma cut_at_start_Some:
  assumes "cut_at_start buf s = Some b"
  shows "\<exists>m. b = drop m buf \<and> s \<le> m \<and> m < length buf \<and> buf ! m \<in> set FRAME_START_BYTES"
proof -
  let ?ps = "start_positions buf s"
  from assms have ne: "?ps \<noteq> []" and b: "b = drop (min_list ?ps) buf"
    by (auto simp: cut_at_start_def Let_def split: if_splits)
  have "min_list ?ps \<in> set ?ps"
    using ne by (simp only: min_list_Min Min_in set_empty finite_set not_False_eq_True)
  with b start_positions_bounds show ?thesis by blast
qed

lemma cut_at_1_Some:
  "cut_at_start buf (Suc 0) = Some b \<Longrightarrow> length b < length buf \<and> suffix b buf"
  by (auto simp: suffix_drop dest!: cut_at_start_Some)

lemma resync_noise_Some:
  assumes "resync_noise buf = Some b"
  shows "length b < length buf \<and> suffix b buf"
proof -
  from assms obtain x xs where buf: "buf = x # xs" and x: "x \<notin> set FRAME_START_BYTES"
    by (auto simp: resync_noise_def split: list.splits if_splits)
  show ?thesis
  proof (cases "cut_at_start buf 0")
    case None
    with assms buf x show ?thesis by (auto simp: resync_noise_def)
  next
    case (Some b')
    with assms buf x have "b' = b" by (auto simp: resync_noise_def)
    with cut_at_start_Some [OF Some] obtain m where
      m: "b = drop m buf" "m < length buf" "buf ! m \<in> set FRAME_START_BYTES" by blast
    with buf x have "m \<noteq> 0" by (metis nth_Cons_0)
    with m show ?thesis by (auto simp: suffix_drop)
  qed
qed

lemma resync_port_Some: "resync_port buf = Some b \<Longrightarrow> length b < length buf \<and> suffix b buf"
  by (auto simp: resync_port_def dest: cut_at_1_Some split: if_splits)

lemma resync_envelope_Some:
  "resync_envelope buf = Some b \<Longrightarrow> length b < length buf \<and> suffix b buf"
  by (auto simp: resync_envelope_def Let_def suffix_drop dest: cut_at_1_Some split: if_splits)

lemma resync_overlong_Some:
  "resync_overlong buf = Some b \<Longrightarrow> length b < length buf \<and> suffix b buf"
  by (auto simp: resync_overlong_def dest: cut_at_1_Some split: if_splits option.splits)

lemma resync_progress:
  "resync buf = Some b \<Longrightarrow> length b < length buf \<and> suffix b buf"
  unfolding resync_def
  by (auto split: option.splits if_splits
      dest: resync_noise_Some resync_port_Some resync_envelope_Some resync_overlong_Some)

text \<open>Where realignment gives up, the buffer is short and starts like a frame.\<close>

lemma resync_None:
  assumes "resync buf = None"
  shows "length buf \<le> MAX_FRAME" and "buf = [] \<or> hd buf \<in> set FRAME_START_BYTES"
proof -
  show "buf = [] \<or> hd buf \<in> set FRAME_START_BYTES"
    using assms by (cases buf) (auto simp: resync_def resync_noise_def split: option.splits if_splits list.splits)
  show "length buf \<le> MAX_FRAME"
    using assms
    by (cases "buf = []")
      (auto simp: resync_def resync_overlong_def split: option.splits if_splits list.splits)
qed

subsection \<open>What \<open>feed\<close> delivers\<close>

text \<open>
  The contract of the splitter towards its callers: \<open>cuts stream frames rest\<close> says that
  \<open>frames\<close> are disjoint segments of \<open>stream\<close>, in order, and \<open>rest\<close> is what is left
  of it behind the last of them, possibly after dropping more noise.
\<close>

inductive cuts :: "bytes \<Rightarrow> bytes list \<Rightarrow> bytes \<Rightarrow> bool" where
  cuts_done: "cuts buf [] buf"
| cuts_frame: "cuts t fs rest \<Longrightarrow> cuts (f @ t) (f # fs) rest"
| cuts_skip: "cuts t fs rest \<Longrightarrow> cuts (g @ t) fs rest"

inductive_cases cuts_NilE: "cuts buf [] rest"

lemma cuts_suffix: "suffix t buf \<Longrightarrow> cuts t fs rest \<Longrightarrow> cuts buf fs rest"
  by (auto simp: suffix_def intro: cuts_skip)

lemma cuts_append:
  "cuts a fs rest \<Longrightarrow> cuts (rest @ b) fs' rest' \<Longrightarrow> cuts (a @ b) (fs @ fs') rest'"
proof (induction rule: cuts.induct)
  case (cuts_done buf)
  then show ?case by simp
next
  case (cuts_frame t fs rest f)
  from cuts_frame.IH [OF cuts_frame.prems] have "cuts (f @ (t @ b)) (f # (fs @ fs')) rest'"
    by (rule cuts.cuts_frame)
  then show ?case by simp
next
  case (cuts_skip t fs rest g)
  from cuts_skip.IH [OF cuts_skip.prems] have "cuts (g @ (t @ b)) (fs @ fs') rest'"
    by (rule cuts.cuts_skip)
  then show ?case by simp
qed

lemma cuts_length: "cuts buf fs rest \<Longrightarrow> length (concat fs) + length rest \<le> length buf"
  by (induction rule: cuts.induct) auto

lemma cuts_subseq: "cuts buf fs rest \<Longrightarrow> subseq (concat fs @ rest) buf"
proof (induction rule: cuts.induct)
  case (cuts_frame t fs rest f)
  then show ?case by (simp add: list_emb_append_mono)
next
  case (cuts_skip t fs rest g)
  then show ?case by (simp add: list_emb_append2)
qed simp

text \<open>A run of \<open>feed\<close> over successive chunks, as a reader loop makes it.\<close>

fun feed_all :: "'p splitter \<Rightarrow> bytes list \<Rightarrow> (('p \<times> bytes) list \<times> 'p splitter) option" where
  "feed_all s [] = Some ([], s)"
| "feed_all s (c # cs) =
     do { (fs, s') \<leftarrow> feed s c; (fs', s'') \<leftarrow> feed_all s' cs; Some (fs @ fs', s'') }"

definition settled :: "bytes \<Rightarrow> bool" where
  "settled buf \<longleftrightarrow> length buf \<le> MAX_FRAME \<and> (buf = [] \<or> hd buf \<in> set FRAME_START_BYTES)"

lemma feed_loop_hit:
  "first_hit ads buf = Some (p, r) \<Longrightarrow>
     feed_loop ads buf out = feed_loop ads (drop (ex_consumed r) buf) (out @ [(p, ex_raw r)])"
  by (simp add: feed_loop.simps [of ads buf])

lemma feed_loop_resync:
  "first_hit ads buf = None \<Longrightarrow> resync buf = Some b \<Longrightarrow>
     feed_loop ads buf out = feed_loop ads b out"
  by (simp add: feed_loop.simps [of ads buf])

lemma feed_loop_stop:
  "first_hit ads buf = None \<Longrightarrow> resync buf = None \<Longrightarrow> feed_loop ads buf out = Some (out, buf)"
  by (simp add: feed_loop.simps [of ads buf])

lemma first_hit_Some:
  "first_hit ads buf = Some (p, r) \<Longrightarrow>
     \<exists>a \<in> set ads. protocol a = p \<and> try_extract a buf = Some r"
  by (induction ads) (auto split: option.splits)

text \<open>The client side of the adapter interface: a splitter over lawful adapters.\<close>

locale lawful_adapters =
  fixes ads :: "'p adapter list"
  assumes lawful: "a \<in> set ads \<Longrightarrow> frame_extractor (try_extract a)"
begin

text \<open>\<open>(p, f)\<close> is a frame that the adapter of protocol \<open>p\<close> extracted from some buffer.\<close>

definition genuine :: "'p \<times> bytes \<Rightarrow> bool" where
  "genuine h \<longleftrightarrow> (\<exists>a \<in> set ads. \<exists>buf r. protocol a = fst h \<and> try_extract a buf = Some r
     \<and> ex_raw r = snd h)"

lemma feed_loop_total:
  "\<exists>out' buf'. feed_loop ads buf out = Some (out @ out', buf')
     \<and> settled buf' \<and> first_hit ads buf' = None
     \<and> cuts buf (map snd out') buf' \<and> (\<forall>h \<in> set out'. genuine h)"
proof (induction "length buf" arbitrary: buf out rule: less_induct)
  case less
  show ?case
  proof (cases "first_hit ads buf")
    case (Some hit)
    obtain p r where hit: "hit = (p, r)" by fastforce
    with Some have fh: "first_hit ads buf = Some (p, r)" by simp
    from first_hit_Some [OF fh]
    obtain a where a: "a \<in> set ads" "protocol a = p" "try_extract a buf = Some r" by auto
    note fe = lawful [OF a(1)]
    let ?t = "drop (ex_consumed r) buf"
    from less [OF frame_extractor.extract_drop_shorter [OF fe a(3)], of "out @ [(p, ex_raw r)]"]
    obtain out' buf' where ih: "feed_loop ads ?t (out @ [(p, ex_raw r)]) =
        Some ((out @ [(p, ex_raw r)]) @ out', buf')"
      "settled buf'" "first_hit ads buf' = None" "cuts ?t (map snd out') buf'"
      "\<forall>h \<in> set out'. genuine h" by (elim exE conjE) (rule that; assumption)
    have "cuts buf (map snd ((p, ex_raw r) # out')) buf'"
      using cuts_frame [OF ih(4), of "ex_raw r"] frame_extractor.extract_split [OF fe a(3)] by simp
    moreover have "genuine (p, ex_raw r)" using a by (auto simp: genuine_def)
    ultimately show ?thesis
      using ih fh by (intro exI [of _ "(p, ex_raw r) # out'"] exI [of _ buf'])
        (simp add: feed_loop_hit)
  next
    case None
    show ?thesis
    proof (cases "resync buf")
      case (Some b)
      from resync_progress [OF Some] have b: "length b < length buf" "suffix b buf" by auto
      from less [OF b(1), of out] b(2) None Some show ?thesis
        by (auto simp: feed_loop_resync intro: cuts_suffix)
    next
      case no: None
      then show ?thesis
        using None resync_None [OF no]
        by (auto simp: feed_loop_stop settled_def intro!: exI [of _ "[]"] cuts_done)
    qed
  qed
qed

lemma feed_total:
  assumes "sp_adapters s = ads"
  shows "\<exists>out buf'. feed s chunk = Some (out, s\<lparr>sp_buf := buf'\<rparr>) \<and> settled buf'
     \<and> cuts (sp_buf s @ chunk) (map snd out) buf' \<and> (\<forall>h \<in> set out. genuine h)"
  using feed_loop_total [of "sp_buf s @ chunk" "[]"] assms by (auto simp: feed_def)

lemma feed_all_total:
  "sp_adapters s = ads \<Longrightarrow> settled (sp_buf s) \<Longrightarrow>
     \<exists>out buf'. feed_all s cs = Some (out, s\<lparr>sp_buf := buf'\<rparr>) \<and> settled buf'
       \<and> cuts (sp_buf s @ concat cs) (map snd out) buf' \<and> (\<forall>h \<in> set out. genuine h)"
proof (induction cs arbitrary: s)
  case Nil
  show ?case
    using Nil by (intro exI [of _ "[]"] exI [of _ "sp_buf s"]) (auto intro: cuts_done)
next
  case (Cons c cs)
  from feed_total [OF Cons.prems(1), of c] obtain out b where
    f: "feed s c = Some (out, s\<lparr>sp_buf := b\<rparr>)" "settled b"
       "cuts (sp_buf s @ c) (map snd out) b" "\<forall>h \<in> set out. genuine h" by blast
  from Cons.IH [of "s\<lparr>sp_buf := b\<rparr>"] Cons.prems f(2) obtain out' b' where
    g: "feed_all (s\<lparr>sp_buf := b\<rparr>) cs = Some (out', s\<lparr>sp_buf := b'\<rparr>)" "settled b'"
       "cuts (b @ concat cs) (map snd out') b'" "\<forall>h \<in> set out'. genuine h" by auto
  from cuts_append [OF f(3) g(3)] f g show ?case
    by (intro exI [of _ "out @ out'"] exI [of _ b']) auto
qed

end

section \<open>ProtocolRouter\<close>

text \<open>
  The registry is an insertion-ordered dict keyed by protocol: a later adapter with the same
  key replaces the earlier one in its place, as \<open>AList.update\<close> does.
\<close>

type_synonym 'p router = "('p \<times> 'p adapter) list"

definition new_router :: "'p adapter list \<Rightarrow> 'p router" where
  "new_router ads = fold (\<lambda>a m. AList.update (protocol a) a m) ads []"

text \<open>A raising \<open>confidence\<close> counts as 0.0.\<close>

definition score :: "bytes \<Rightarrow> 'p adapter \<Rightarrow> rat" where
  "score raw a = (case confidence a raw of None \<Rightarrow> 0 | Some s \<Rightarrow> s)"

fun best_of :: "bytes \<Rightarrow> 'p adapter option \<Rightarrow> rat \<Rightarrow> 'p adapter list \<Rightarrow> 'p adapter option" where
  "best_of raw best best_s [] = best"
| "best_of raw best best_s (a # ads) =
     (if best_s < score raw a then best_of raw (Some a) (score raw a) ads
      else best_of raw best best_s ads)"

definition select :: "'p router \<Rightarrow> bytes \<Rightarrow> 'p option \<Rightarrow> 'p adapter option" where
  "select rt raw preferred =
     (case preferred of
        Some p \<Rightarrow>
          (case map_of rt p of
             Some a \<Rightarrow> Some a
           | None \<Rightarrow> best_of raw None (-1) (map snd rt))
      | None \<Rightarrow> best_of raw None (-1) (map snd rt))"

text \<open>
  The loop keeps the first adapter with the greatest score, or what it started from when
  nothing scores above \<open>best_s\<close>.
\<close>

lemma best_of_cases:
  "(best_of raw b s ads = b \<and> (\<forall>x \<in> set ads. score raw x \<le> s))
   \<or> (\<exists>pre a post. best_of raw b s ads = Some a \<and> ads = pre @ a # post \<and> s < score raw a
        \<and> (\<forall>x \<in> set pre. score raw x < score raw a) \<and> (\<forall>x \<in> set post. score raw x \<le> score raw a))"
proof (induction ads arbitrary: b s)
  case Nil
  then show ?case by simp
next
  case (Cons x ads)
  show ?case
  proof (cases "s < score raw x")
    case True
    from Cons.IH [of "Some x" "score raw x"] show ?thesis
    proof (elim disjE exE conjE)
      assume "best_of raw (Some x) (score raw x) ads = Some x"
        and "\<forall>y \<in> set ads. score raw y \<le> score raw x"
      with True show ?thesis
        by (intro disjI2 exI [of _ "[]"] exI [of _ x] exI [of _ ads]) simp
    next
      fix pre a post
      assume "best_of raw (Some x) (score raw x) ads = Some a" "ads = pre @ a # post"
        "score raw x < score raw a" "\<forall>x \<in> set pre. score raw x < score raw a"
        "\<forall>x \<in> set post. score raw x \<le> score raw a"
      with True show ?thesis
        by (intro disjI2 exI [of _ "x # pre"] exI [of _ a] exI [of _ post]) auto
    qed
  next
    case False
    from Cons.IH [of b s] show ?thesis
    proof (elim disjE exE conjE)
      assume "best_of raw b s ads = b" and "\<forall>x \<in> set ads. score raw x \<le> s"
      with False show ?thesis by (intro disjI1) auto
    next
      fix pre a post
      assume "best_of raw b s ads = Some a" "ads = pre @ a # post" "s < score raw a"
        "\<forall>x \<in> set pre. score raw x < score raw a" "\<forall>x \<in> set post. score raw x \<le> score raw a"
      with False show ?thesis
        by (intro disjI2 exI [of _ "x # pre"] exI [of _ a] exI [of _ post]) auto
    qed
  qed
qed

lemma select_auto:
  assumes "rt \<noteq> []" "\<forall>a \<in> set (map snd rt). 0 \<le> score raw a"
  shows "\<exists>pre a post. select rt raw None = Some a \<and> map snd rt = pre @ a # post
        \<and> (\<forall>x \<in> set pre. score raw x < score raw a) \<and> (\<forall>x \<in> set post. score raw x \<le> score raw a)"
proof -
  from assms(1) obtain a where "a \<in> set (map snd rt)" by (cases rt) auto
  moreover from this have "\<not> score raw a \<le> -1" using assms(2) by fastforce
  ultimately have "\<not> (\<forall>x \<in> set (map snd rt). score raw x \<le> -1)" by blast
  with best_of_cases [of raw None "-1" "map snd rt"] show ?thesis
    unfolding select_def by (simp only: option.case) blast
qed

section \<open>Result pages\<close>

text \<open>
  \<open>build_envelope\<close>; the page size is a non-negative count in every caller.
\<close>

record ('p, 'f) envelope =
  env_protocol :: 'p
  env_total :: nat
  env_page :: nat
  env_page_size :: nat
  env_frames :: "'f list"

definition build_envelope :: "'p \<Rightarrow> 'f list \<Rightarrow> int \<Rightarrow> nat \<Rightarrow> ('p, 'f) envelope" where
  "build_envelope p frames pg page_size =
     (let page = nat (max 1 pg);
          start = (page - 1) * page_size;
          stop = start + page_size
      in \<lparr>env_protocol = p, env_total = length frames, env_page = page,
          env_page_size = page_size, env_frames = py_slice frames start stop\<rparr>)"

lemma env_frames_page:
  "0 < k \<Longrightarrow> env_frames (build_envelope p frames (int k) n) = take n (drop ((k - 1) * n) frames)"
  by (simp add: build_envelope_def Let_def py_slice_def max_def)

lemma pages_prefix:
  "concat (map (\<lambda>k. env_frames (build_envelope p frames (int k) n)) [1..<Suc m]) = take (m * n) frames"
proof (induction m)
  case 0
  then show ?case by simp
next
  case (Suc m)
  have "env_frames (build_envelope p frames (int (Suc m)) n) = take n (drop (m * n) frames)"
    using env_frames_page [of "Suc m" p frames n] by simp
  moreover have "take (Suc m * n) frames = take (m * n) frames @ take n (drop (m * n) frames)"
    using take_add [of "m * n" n frames] by (simp add: add.commute)
  moreover have "[1..<Suc (Suc m)] = [1..<Suc m] @ [Suc m]" by simp
  ultimately show ?case using Suc by (simp only: map_append concat_append list.map concat.simps append_Nil2)
qed

text \<open>
  The pages of a result list, numbered from 1, put together are the list, none of
  its entries twice; every page carries the full count.
\<close>

theorem pages_cover:
  assumes "length frames \<le> m * n"
  shows "concat (map (\<lambda>k. env_frames (build_envelope p frames (int k) n)) [1..<Suc m]) = frames
    \<and> env_total (build_envelope p frames pg n) = length frames"
  using pages_prefix [of p frames n m] assms by (simp add: build_envelope_def Let_def)

theorem pages_cover_witness:
  "concat (map (\<lambda>k. env_frames (build_envelope ''645'' [10, 20, 30 :: nat] (int k) 2)) [1..<Suc 2])
     = [10, 20, 30] \<and> env_total (build_envelope ''645'' [10, 20, 30 :: nat] (-7) 2) = length [10, 20, 30 :: nat]"
  by (rule pages_cover) simp

end
