(* ===== verification/Adapter_10376.thy ===== *)
theory Adapter_10376
  imports Frame_Splitter
begin

text \<open>
  The adapter of the concentrator's local module interface (Q/GDW 10376.2),
  \<open>libs/parser_lib/adapters/adapter_10376/__init__.py\<close>: the link layer with its control,
  information and address fields, frame construction, extraction, the sniffing score and the
  decoding of everything outside the application data, and the search for nested frames.

  The dicts of the source are maps; the field names are constructors. The fields of the
  information dict are Python integers of any size, which the packer masks. A ValueError of the
  address packer is \<open>None\<close>; an IndexError of the decoder likewise.
\<close>

section \<open>Data unit identifiers\<close>

text \<open>\<open>fn = int(fn) & 0xFF\<close>, and 0 counts as 1.\<close>

definition fn_to_dt :: "int \<Rightarrow> nat \<times> nat" where
  "fn_to_dt fn0 =
     (let fn1 = nat (fn0 AND 255);
          fn = (if fn1 < 1 then 1 else fn1);
          dt2 = drop_bit 3 (fn - 1);
          rem = fn AND 7;
          dt1 = (if rem \<noteq> 0 then push_bit (rem - 1) 1 else 128)
      in (dt1, dt2))"

definition DT1_TO_BASE :: "nat \<Rightarrow> nat option" where
  "DT1_TO_BASE = map_of [(1, 1), (2, 2), (4, 3), (8, 4), (16, 5), (32, 6), (64, 7), (128, 8)]"

definition dt_to_fn :: "nat \<Rightarrow> nat \<Rightarrow> nat" where
  "dt_to_fn dt1 dt2 = (case DT1_TO_BASE dt1 of None \<Rightarrow> 0 | Some base \<Rightarrow> dt2 * 8 + base)"

section \<open>BCD text\<close>

definition bcd_to_str :: "bytes \<Rightarrow> string" where
  "bcd_to_str data =
     concat (map (\<lambda>b. show_nat (drop_bit 4 (unat b) AND 15) @ show_nat (unat b AND 15)) data)"

fun pack_digits :: "string \<Rightarrow> bytes option" where
  "pack_digits (c # d # cs) =
     do { h \<leftarrow> hex_val c; l \<leftarrow> hex_val d; r \<leftarrow> pack_digits cs;
          Some (of_nat (push_bit 4 h OR l) # r) }"
| "pack_digits _ = Some []"

definition str_to_bcd :: "string \<Rightarrow> nat \<Rightarrow> bytes option" where
  "str_to_bcd s0 nbytes =
     (let s1 = remove_char CHR ''-'' (py_strip s0);
          s2 = (if length s1 < nbytes * 2
                then replicate (nbytes * 2 - length s1) CHR ''0'' @ s1 else s1)
      in pack_digits (take (nbytes * 2) s2))"

section \<open>Control, information and address fields\<close>

datatype direction = Up | Down

definition pack_control :: "direction \<Rightarrow> int option \<Rightarrow> int \<Rightarrow> int" where
  "pack_control dir prm comm_mode =
     (let dir_bit = (if dir = Up then 1 else 0);
          prm1 = (case prm of None \<Rightarrow> (if dir = Up then 0 else 1) | Some p \<Rightarrow> p)
      in push_bit 7 dir_bit OR push_bit 6 (prm1 AND 1) OR (comm_mode AND 63))"

record control =
  ctl_dir :: nat
  ctl_prm :: nat
  ctl_comm_mode :: nat
  ctl_direction :: direction

definition parse_control :: "nat \<Rightarrow> control" where
  "parse_control c =
     \<lparr>ctl_dir = drop_bit 7 c AND 1, ctl_prm = drop_bit 6 c AND 1, ctl_comm_mode = c AND 63,
      ctl_direction = (if drop_bit 7 c AND 1 \<noteq> 0 then Up else Down)\<rparr>"

datatype info_key =
    Relay_Level | Module_Id | Route_Flag | Channel | Meter_Channel | Phase | Sig_Quality
  | Event_Flag | Seq | Conflict_Detect | Sub_Node | Ecc | Expect_Reply_Len | Rate_Unit | Rate

type_synonym info = "info_key \<Rightarrow> int option"

text \<open>\<open>info.get(key, 0)\<close>\<close>

definition info_get :: "info \<Rightarrow> info_key \<Rightarrow> int" where
  "info_get i k = (case i k of None \<Rightarrow> 0 | Some v \<Rightarrow> v)"

definition pack_info :: "direction \<Rightarrow> info \<Rightarrow> bytes" where
  "pack_info dir i =
     (if dir = Up then
        let b0 = push_bit 4 (info_get i Relay_Level AND 15)
                 OR push_bit 2 (info_get i Module_Id AND 3)
                 OR (info_get i Route_Flag AND 1);
            b1 = info_get i Channel AND 15;
            b2 = push_bit 4 (info_get i Meter_Channel AND 15) OR (info_get i Phase AND 15);
            b3 = push_bit 4 (info_get i Sig_Quality AND 15) OR (info_get i Sig_Quality AND 15);
            b4 = info_get i Event_Flag AND 1;
            b5 = info_get i Seq AND 255
        in map of_int [b0, b1, b2, b3, b4, b5]
      else
        let b0 = push_bit 4 (info_get i Relay_Level AND 15)
                 OR push_bit 3 (info_get i Conflict_Detect AND 1)
                 OR push_bit 1 (info_get i Module_Id AND 3)
                 OR (info_get i Sub_Node AND 1);
            b1 = push_bit 4 (info_get i Ecc AND 15) OR (info_get i Channel AND 15);
            b2 = info_get i Expect_Reply_Len AND 255;
            rate = info_get i Rate AND 32767;
            rate_unit = info_get i Rate_Unit AND 1;
            b3 = push_bit 7 (rate_unit AND 1) OR (drop_bit 8 rate AND 127);
            b4 = rate AND 255;
            b5 = info_get i Seq AND 255
        in map of_int [b0, b1, b2, b3, b4, b5])"

definition parse_info :: "direction \<Rightarrow> bytes \<Rightarrow> info" where
  "parse_info dir info0 =
     (let info6 = (if length info0 < 6 then info0 @ replicate (6 - length info0) 0 else info0);
          b0 = uint (info6 ! 0); b1 = uint (info6 ! 1); b2 = uint (info6 ! 2);
          b3 = uint (info6 ! 3); b4 = uint (info6 ! 4); b5 = uint (info6 ! 5)
      in if dir = Up then
           [Relay_Level \<mapsto> drop_bit 4 b0 AND 15,
            Module_Id \<mapsto> drop_bit 2 b0 AND 3,
            Route_Flag \<mapsto> b0 AND 1,
            Channel \<mapsto> b1 AND 15,
            Meter_Channel \<mapsto> drop_bit 4 b2 AND 15,
            Phase \<mapsto> b2 AND 15,
            Sig_Quality \<mapsto> drop_bit 4 b3 AND 15,
            Event_Flag \<mapsto> b4 AND 1,
            Seq \<mapsto> b5]
         else
           [Relay_Level \<mapsto> drop_bit 4 b0 AND 15,
            Conflict_Detect \<mapsto> drop_bit 3 b0 AND 1,
            Module_Id \<mapsto> drop_bit 1 b0 AND 3,
            Sub_Node \<mapsto> b0 AND 1,
            Ecc \<mapsto> drop_bit 4 b1 AND 15,
            Channel \<mapsto> b1 AND 15,
            Expect_Reply_Len \<mapsto> b2,
            Rate_Unit \<mapsto> drop_bit 7 b3 AND 1,
            Rate \<mapsto> push_bit 8 (b3 AND 127) OR b4,
            Seq \<mapsto> b5])"

text \<open>The address dict; \<open>addr.get(k) or ""\<close> makes a missing entry an empty one.\<close>

record address =
  ad_src :: string
  ad_relay :: "string list"
  ad_dst :: string

definition no_address :: address where
  "no_address = \<lparr>ad_src = [], ad_relay = [], ad_dst = []\<rparr>"

fun bcd_all :: "string list \<Rightarrow> bytes option" where
  "bcd_all [] = Some []"
| "bcd_all (r # rs) = do { b \<leftarrow> str_to_bcd r 6; bs \<leftarrow> bcd_all rs; Some (b @ bs) }"

definition pack_address :: "address \<Rightarrow> bytes option" where
  "pack_address addr =
     do { s \<leftarrow> (if ad_src addr \<noteq> [] then str_to_bcd (ad_src addr) 6 else Some []);
          r \<leftarrow> bcd_all (ad_relay addr);
          d \<leftarrow> (if ad_dst addr \<noteq> [] then str_to_bcd (ad_dst addr) 6 else Some []);
          Some (s @ r @ d) }"

text \<open>The relay loop of \<open>_parse_address\<close>, from \<open>data[i:]\<close>: the relays and what is left.\<close>

fun relays :: "bytes \<Rightarrow> string list \<times> bytes" where
  "relays rest =
     (if 6 < length rest
      then let (rs, rest') = relays (drop 6 rest) in (bcd_to_str (take 6 rest) # rs, rest')
      else ([], rest))"

declare relays.simps [simp del]

definition parse_address :: "bytes \<Rightarrow> address" where
  "parse_address data =
     (if data = [] then no_address
      else let (rs, rest) = relays (drop 6 data)
           in \<lparr>ad_src = bcd_to_str (take 6 data), ad_relay = rs,
               ad_dst = (if rest \<noteq> [] then bcd_to_str (take 6 rest) else [])\<rparr>)"

section \<open>Building a frame\<close>

definition build_frame_10376 ::
  "direction \<Rightarrow> int \<Rightarrow> int option \<Rightarrow> info \<Rightarrow> address \<Rightarrow> int \<Rightarrow> int \<Rightarrow> bytes \<Rightarrow> int \<Rightarrow> bytes option" where
  "build_frame_10376 dir comm_mode prm info0 addr afn fn appdata fin =
     do { let c = pack_control dir prm comm_mode;
          addr_bytes \<leftarrow> pack_address addr;
          let info1 = (if addr_bytes \<noteq> [] \<and> info0 Module_Id = None
                       then info0(Module_Id \<mapsto> 1) else info0);
          let info_bytes = pack_info dir info1;
          let (dt1, dt2) = fn_to_dt fn;
          let userdata = info_bytes @ addr_bytes @ [of_int (afn AND 255), of_nat dt1, of_nat dt2]
                         @ appdata;
          let L = length userdata + 6;
          let frame = [0x68, of_nat (L AND 255), of_nat (drop_bit 8 L AND 255), of_int c] @ userdata;
          let cs = byte_sum (drop 3 frame) mod 256;
          Some (frame @ [of_nat cs, of_int (fin AND 255)]) }"

definition build_13762_frame ::
  "int \<Rightarrow> int \<Rightarrow> bytes \<Rightarrow> direction \<Rightarrow> int \<Rightarrow> info \<Rightarrow> address \<Rightarrow> bytes option" where
  "build_13762_frame afn fn appdata dir comm_mode info0 addr =
     build_frame_10376 dir comm_mode None info0 addr afn fn appdata 0x16"

section \<open>Extraction and sniffing\<close>

definition try_extract_10376 :: "bytes \<Rightarrow> extract_result option" where
  "try_extract_10376 buf =
     (let n = length buf in
      if n < 12 \<or> buf ! 0 \<noteq> 0x68 \<or> last buf \<noteq> 0x16 then None
      else if buf ! 3 = 0x68 then None
      else let L = pair16 (buf ! 1) (buf ! 2) in
      if L \<noteq> n then None
      else if L < 10 then None
      else Some \<lparr>ex_raw = buf, ex_consumed = n\<rparr>)"

definition AFN_NAMES :: "nat set" where
  "AFN_NAMES = set [0x00, 0x01, 0x02, 0x03, 0x04, 0x05, 0x06, 0x10, 0x11, 0x12, 0x13, 0x14, 0x15,
                    0xF0, 0xF1]"

definition COMM_MODE_NAMES :: "nat set" where
  "COMM_MODE_NAMES = set [0, 1, 2, 3, 10, 20]"

text \<open>Length of the address field that an information field announces.\<close>

definition addr_len :: "info \<Rightarrow> nat" where
  "addr_len i = (if info_get i Module_Id = 1 then 6 + 6 * nat (info_get i Relay_Level) + 6 else 0)"

definition afn_pos :: "bytes \<Rightarrow> nat" where
  "afn_pos raw =
     (let c = unat (raw ! 3);
          dir = (if drop_bit 7 c AND 1 \<noteq> 0 then Up else Down);
          info = parse_info dir (py_slice raw 4 10);
          al = addr_len info
      in if 10 + al < length raw then unat (raw ! (10 + al)) else 0)"

definition confidence_10376 :: "bytes \<Rightarrow> rat" where
  "confidence_10376 raw =
     (let n = length raw in
      if n < 12 \<or> raw ! 0 \<noteq> 0x68 \<or> last raw \<noteq> 0x16 \<or> raw ! 3 = 0x68 then 0
      else let L = pair16 (raw ! 1) (raw ! 2) in
      if L \<noteq> n \<or> L < 10 then 0
      else
        let comm = unat (raw ! 3) AND 63;
            afn_known = (if 14 \<le> n then afn_pos raw \<in> AFN_NAMES else False);
            cs = byte_sum (py_slice raw 3 (n - 2)) mod 256
        in if cs = unat (raw ! (n - 2))
           then (if comm \<in> COMM_MODE_NAMES \<or> afn_known then 1 else 9/10)
           else 5/10)"

section \<open>Decoding\<close>

text \<open>
  What \<open>decode\<close> reads of a frame outside its application data. \<open>None\<close> in
  \<open>dl_unit\<close> is the early return with the warning that AFN and DT are missing; otherwise it
  holds AFN, the two DT bytes, Fn and the application data that goes to \<open>_app_items\<close> and,
  for the forwarding functions, to the nested-frame scan.
\<close>

record app_unit =
  au_afn :: nat
  au_dt1 :: nat
  au_dt2 :: nat
  au_fn :: nat
  au_data :: bytes
  au_cs_ok :: bool
  au_scan :: bool

record decoded_link =
  dl_length :: nat
  dl_control :: control
  dl_info :: info
  dl_address :: address
  dl_unit :: "app_unit option"

definition decode_10376 :: "bytes \<Rightarrow> decoded_link option" where
  "decode_10376 raw =
     (if length raw < 4 then None
      else
        let L = pair16 (raw ! 1) (raw ! 2);
            ctl = parse_control (unat (raw ! 3));
            userdata = py_slice raw 4 (length raw - 2);
            dir = ctl_direction ctl;
            info = parse_info dir (py_slice userdata 0 6);
            al = addr_len info;
            addr = (if info_get info Module_Id = 1
                    then parse_address (py_slice userdata 6 (6 + al)) else no_address);
            pos = 6 + al
        in if length userdata < pos + 3
           then Some \<lparr>dl_length = L, dl_control = ctl, dl_info = info, dl_address = addr,
                      dl_unit = None\<rparr>
           else
             let afn = unat (userdata ! pos);
                 dt1 = unat (userdata ! (pos + 1));
                 dt2 = unat (userdata ! (pos + 2));
                 appdata = drop (pos + 3) userdata;
                 cs = byte_sum (py_slice raw 3 (length raw - 2)) mod 256
             in Some \<lparr>dl_length = L, dl_control = ctl, dl_info = info, dl_address = addr,
                      dl_unit = Some \<lparr>au_afn = afn, au_dt1 = dt1, au_dt2 = dt2,
                        au_fn = dt_to_fn dt1 dt2, au_data = appdata,
                        au_cs_ok = (cs = unat (raw ! (length raw - 2))),
                        au_scan = (appdata \<noteq> [] \<and> afn \<in> {0x02, 0x06, 0x13, 0xF1})\<rparr>\<rparr>)"

text \<open>
  \<open>_scan_nested\<close>: at each position the candidate with the best score among those that
  extract a frame there; the payload is skipped by a byte where none does. The two candidate
  adapters are an argument.
\<close>

fun best_candidate :: "'p adapter list \<Rightarrow> bytes \<Rightarrow> ('p \<times> extract_result) option \<Rightarrow> rat
    \<Rightarrow> ('p \<times> extract_result) option option" where
  "best_candidate [] buf best best_s = Some best"
| "best_candidate (a # ads) buf best best_s =
     (case try_extract a buf of
        None \<Rightarrow> best_candidate ads buf best best_s
      | Some r \<Rightarrow> do { s \<leftarrow> confidence a (ex_raw r);
          if best_s < s then best_candidate ads buf (Some (protocol a, r)) s
          else best_candidate ads buf best best_s })"

partial_function (option) scan_nested ::
  "'p adapter list \<Rightarrow> bytes \<Rightarrow> ('p \<times> bytes) list \<Rightarrow> ('p \<times> bytes) list option" where
  "scan_nested candidates payload out =
     (if payload = [] then Some out
      else do {
        best \<leftarrow> best_candidate candidates payload None (-1);
        (case best of
           None \<Rightarrow> scan_nested candidates (drop 1 payload) out
         | Some (p, r) \<Rightarrow>
             scan_nested candidates (drop (ex_consumed r) payload) (out @ [(p, ex_raw r)])) })"

section \<open>The extractor meets the splitter's interface\<close>

lemma try_extract_10376_Some:
  "try_extract_10376 buf = Some r \<Longrightarrow>
     r = \<lparr>ex_raw = buf, ex_consumed = length buf\<rparr> \<and> 12 \<le> length buf
     \<and> pair16 (buf ! 1) (buf ! 2) = length buf"
  by (simp add: try_extract_10376_def Let_def split: if_splits)

interpretation qgdw10376: frame_extractor try_extract_10376
  by unfold_locales (auto dest!: try_extract_10376_Some)

section \<open>Round trips of the fields\<close>

text \<open>Fn 8q + k + 1 has bit k of DT1 set in group q.\<close>

lemma fn_to_dt_eq:
  assumes "max 1 (nat (fn mod 256)) = 8 * q + k + 1" "k < 8"
  shows "fn_to_dt fn = (2 ^ k, q)"
proof -
  have f: "(if nat (fn AND 255) < 1 then 1 else nat (fn AND 255)) = 8 * q + k + 1"
  proof -
    have "nat (fn AND 255) = nat (fn mod 256)" by (simp only: int_and_masks)
    moreover have "(if m < 1 then 1 else m) = max 1 m" for m :: nat by simp
    ultimately show ?thesis using assms(1) by (simp only:)
  qed
  have "drop_bit 3 (8 * q + k + 1 - 1) = q"
    using assms(2) by (simp add: nat_drop_bits)
  moreover have "(8 * q + k + 1) AND 7 = (if k = 7 then 0 else k + 1)"
  proof -
    have e: "(8 * q + k + 1) mod 8 = (k + 1) mod 8"
      by (simp only: add.assoc mod_mult_self4)
    show ?thesis
    proof (cases "k = 7")
      case False
      with assms(2) show ?thesis unfolding nat_and_masks e by simp
    qed (simp add: nat_and_masks)
  qed
  ultimately show ?thesis
    using assms(2) unfolding fn_to_dt_def Let_def f by (auto simp: push_bit_eq_mult)
qed

lemma dt1_base:
  assumes "k < 8"
  shows "DT1_TO_BASE (2 ^ k) = Some (k + 1)" "2 ^ k \<in> set [1, 2, 4, 8, 16, 32, 64, 128 :: nat]"
proof -
  from assms have "k \<in> {0, 1, 2, 3, 4, 5, 6, 7}" by auto
  then show "DT1_TO_BASE (2 ^ k) = Some (k + 1)" "2 ^ k \<in> set [1, 2, 4, 8, 16, 32, 64, 128 :: nat]"
    by (auto simp: DT1_TO_BASE_def)
qed

lemma fn_split: "1 \<le> (n::nat) \<Longrightarrow> \<exists>q k. n = 8 * q + k + 1 \<and> k < 8"
  by (rule exI [of _ "(n - 1) div 8"], rule exI [of _ "(n - 1) mod 8"]) simp

lemma dt_fn_inverse:
  assumes "1 \<le> n" "n \<le> 255"
  shows "\<exists>q k. fn_to_dt (int n) = (2 ^ k, q) \<and> k < 8 \<and> q < 32 \<and> dt_to_fn (2 ^ k) q = n"
proof -
  obtain q k where n: "n = 8 * q + k + 1" and k: "k < 8" using fn_split [OF assms(1)] by blast
  have "max 1 (nat (int n mod 256)) = 8 * q + k + 1" using assms n by simp
  from fn_to_dt_eq [OF this k] have "fn_to_dt (int n) = (2 ^ k, q)" .
  moreover have "dt_to_fn (2 ^ k) q = n" using dt1_base(1) [OF k] n by (simp add: dt_to_fn_def)
  ultimately show ?thesis using n k assms(2) by auto
qed

text \<open>
  Every Fn from 1 to 255 is recovered from its data unit identifier, and the
  identifier is a pair of bytes whose first has exactly one bit set.
\<close>

theorem dt_fn_roundtrip:
  assumes "1 \<le> n" "n \<le> 255"
  shows "let (dt1, dt2) = fn_to_dt (int n) in
     dt_to_fn dt1 dt2 = n \<and> dt1 < 256 \<and> dt2 < 32 \<and> dt1 \<in> set [1, 2, 4, 8, 16, 32, 64, 128]"
proof -
  obtain q k where e: "fn_to_dt (int n) = (2 ^ k, q)" "k < 8" "q < 32" "dt_to_fn (2 ^ k) q = n"
    using dt_fn_inverse [OF assms] by blast
  moreover have "(2::nat) ^ k < 256" using dt1_base(2) [OF e(2)] by auto
  ultimately show ?thesis using dt1_base(2) [OF e(2)] by simp
qed

theorem dt_fn_roundtrip_witness:
  "let (dt1, dt2) = fn_to_dt (int 232) in
     dt_to_fn dt1 dt2 = 232 \<and> dt1 < 256 \<and> dt2 < 32 \<and> dt1 \<in> set [1, 2, 4, 8, 16, 32, 64, 128]"
  by (rule dt_fn_roundtrip) simp_all

lemma fn_to_dt_bytes: "fst (fn_to_dt fn) < 256" "snd (fn_to_dt fn) < 256"
proof -
  obtain q k where n: "max 1 (nat (fn mod 256)) = 8 * q + k + 1" and k: "k < 8"
    using fn_split [of "max 1 (nat (fn mod 256))"] by auto
  have "max 1 (nat (fn mod 256)) < 256" by simp
  with n dt1_base(2) [OF k] show "fst (fn_to_dt fn) < 256" "snd (fn_to_dt fn) < 256"
    by (auto simp: fn_to_dt_eq [OF n k])
qed

text \<open>
  The packed fields as sums: masks are remainders, and a shifted field is added to the lower one.
\<close>

lemmas field_simps = info_get_def Let_def int_and_masks int_drop_bits nat_and_masks nat_drop_bits

lemma pack_control_eq:
  "pack_control dir prm cm = 128 * (if dir = Up then 1 else 0)
     + 64 * ((case prm of None \<Rightarrow> (if dir = Up then 0 else 1) | Some p \<Rightarrow> p) mod 2) + cm mod 64"
proof -
  have lo: "push_bit 6 (p mod 2) OR (cm mod 64) = 64 * (p mod 2) + cm mod 64" for p
    using int_push_bit_or [of "cm mod 64" 6 "p mod 2"] by simp
  have hi: "push_bit 7 d OR (64 * (p mod 2) + cm mod 64) = 128 * d + 64 * (p mod 2) + cm mod 64" for d p
  proof -
    have "64 * (p mod 2) + cm mod 64 < 128" by (smt (verit) pos_mod_bound)
    then show ?thesis using int_push_bit_or [of "64 * (p mod 2) + cm mod 64" 7 d] by simp
  qed
  show ?thesis
    unfolding pack_control_def Let_def int_and_masks or.assoc lo hi by simp
qed

lemma pack_control_range: "0 \<le> pack_control dir prm cm" "pack_control dir prm cm < 256"
proof -
  have "0 \<le> x mod 2 \<and> x mod 2 \<le> 1" "0 \<le> cm mod 64 \<and> cm mod 64 \<le> 63" for x :: int by presburger+
  then show "0 \<le> pack_control dir prm cm" "pack_control dir prm cm < 256"
    unfolding pack_control_eq by (smt (verit))+
qed

lemma parse_control_parts:
  assumes "D \<le> 1" "P \<le> 1" "M < 64"
  shows "parse_control (128 * D + 64 * P + M) =
    \<lparr>ctl_dir = D, ctl_prm = P, ctl_comm_mode = M, ctl_direction = (if D = 0 then Down else Up)\<rparr>"
proof -
  let ?c = "128 * D + 64 * P + M"
  have "?c div 64 = 2 * D + P" using assms(3) by simp
  moreover have "?c div 128 = D"
  proof -
    have "?c div 128 = ?c div 64 div 2" by (simp add: div_mult2_eq [symmetric])
    then show ?thesis using \<open>?c div 64 = 2 * D + P\<close> assms(2) by simp
  qed
  moreover have "?c mod 64 = M" using assms(3) by (simp add: mod_add_left_eq [symmetric] mod_mult_left_eq)
  ultimately show ?thesis
    using assms by (simp add: parse_control_def nat_and_masks nat_drop_bits)
qed

lemma control_parsed:
  "parse_control (nat (pack_control dir prm cm)) =
     \<lparr>ctl_dir = (if dir = Up then 1 else 0),
      ctl_prm = nat ((case prm of None \<Rightarrow> (if dir = Up then 0 else 1) | Some p \<Rightarrow> p) mod 2),
      ctl_comm_mode = nat (cm mod 64), ctl_direction = dir\<rparr>"
proof -
  define q where "q = (case prm of None \<Rightarrow> (if dir = Up then 0 else 1) | Some p \<Rightarrow> p)"
  define D P M where "D = (if dir = Up then 1 else 0 :: nat)" and "P = nat (q mod 2)" and "M = nat (cm mod 64)"
  have "0 \<le> q mod 2" "q mod 2 \<le> 1" "0 \<le> cm mod 64" "cm mod 64 < 64" by presburger+
  then have r: "P \<le> 1" "M < 64" "D \<le> 1" "int P = q mod 2" "int M = cm mod 64"
    by (auto simp: P_def M_def D_def)
  have "pack_control dir prm cm = int (128 * D + 64 * P + M)"
    unfolding pack_control_eq q_def [symmetric] r(4,5) [symmetric] by (simp add: D_def)
  then have "nat (pack_control dir prm cm) = 128 * D + 64 * P + M" by simp
  from parse_control_parts [OF r(3,1,2), folded this] show ?thesis
    unfolding q_def [symmetric] P_def M_def by (simp add: D_def) (cases dir; simp)
qed

text \<open>
  The control byte gives back the direction, the start flag (1 for a
  downward and 0 for an upward frame unless it is set) and the low six bits of the mode.
\<close>

theorem control_roundtrip:
  "parse_control (nat (pack_control dir prm cm)) =
     \<lparr>ctl_dir = (if dir = Up then 1 else 0),
      ctl_prm = nat ((case prm of None \<Rightarrow> (if dir = Up then 0 else 1) | Some p \<Rightarrow> p) mod 2),
      ctl_comm_mode = nat (cm mod 64), ctl_direction = dir\<rparr>"
  by (rule control_parsed)

lemma six_bytes:
  assumes "length (b :: 'a list) = 6"
  shows "\<exists>b0 b1 b2 b3 b4 b5. b = [b0, b1, b2, b3, b4, b5]"
proof -
  from assms have "length b = Suc (Suc (Suc (Suc (Suc (Suc 0)))))" by simp
  then show ?thesis by (simp only: length_Suc_conv length_0_conv) blast
qed

lemma or_fields:
  "push_bit 4 (a mod 16) OR push_bit 3 (b mod 2) OR push_bit 1 (c mod 4) OR (d mod 2)
     = 16 * (a mod 16) + 8 * (b mod 2) + 2 * (c mod 4) + d mod (2::int)"
  "push_bit 4 (a mod 16) OR push_bit 2 (c mod 4) OR (d mod 2)
     = 16 * (a mod 16) + 4 * (c mod 4) + d mod (2::int)"
  "push_bit 4 (a mod 16) OR (e mod 16) = 16 * (a mod 16) + e mod (16::int)"
  "push_bit 7 (a mod 2) OR (f mod 128) = 128 * (a mod 2) + f mod (128::int)"
  "push_bit 8 (a mod 128) OR uint (x::byte) = 256 * (a mod 128) + uint x"
proof -
  have r: "0 \<le> y mod 2" "y mod 2 \<le> 1" "0 \<le> y mod 4" "y mod 4 \<le> 3" for y :: int by presburger+
  have 1: "push_bit 1 (c mod 4) OR (d mod 2) = 2 * (c mod 4) + d mod 2"
    using int_push_bit_or [of "d mod 2" 1] by simp
  have 2: "push_bit 3 (b mod 2) OR (2 * (c mod 4) + d mod 2) = 8 * (b mod 2) + (2 * (c mod 4) + d mod 2)"
    using int_push_bit_or [of "2 * (c mod 4) + d mod 2" 3 "b mod 2"] r [of d] r [of c] by simp
  have 3: "push_bit 4 (a mod 16) OR (8 * (b mod 2) + (2 * (c mod 4) + d mod 2))
      = 16 * (a mod 16) + (8 * (b mod 2) + (2 * (c mod 4) + d mod 2))"
    using int_push_bit_or [of "8 * (b mod 2) + (2 * (c mod 4) + d mod 2)" 4 "a mod 16"]
      r [of d] r [of c] r [of b] by simp
  show "push_bit 4 (a mod 16) OR push_bit 3 (b mod 2) OR push_bit 1 (c mod 4) OR (d mod 2)
     = 16 * (a mod 16) + 8 * (b mod 2) + 2 * (c mod 4) + d mod (2::int)"
    unfolding 1 2 3 by simp
  have 4: "push_bit 2 (c mod 4) OR (d mod 2) = 4 * (c mod 4) + d mod 2"
    using int_push_bit_or [of "d mod 2" 2 "c mod 4"] r [of d] by simp
  show "push_bit 4 (a mod 16) OR push_bit 2 (c mod 4) OR (d mod 2)
     = 16 * (a mod 16) + 4 * (c mod 4) + d mod (2::int)"
    unfolding 4
    using int_push_bit_or [of "4 * (c mod 4) + d mod 2" 4 "a mod 16"] r [of d] r [of c] by simp
  show "push_bit 4 (a mod 16) OR (e mod 16) = 16 * (a mod 16) + e mod (16::int)"
    using int_push_bit_or [of "e mod 16" 4 "a mod 16"] by simp
  show "push_bit 7 (a mod 2) OR (f mod 128) = 128 * (a mod 2) + f mod (128::int)"
    using int_push_bit_or [of "f mod 128" 7 "a mod 2"] by simp
  show "push_bit 8 (a mod 128) OR uint (x::byte) = 256 * (a mod 128) + uint x"
    using int_push_bit_or [of "uint x" 8 "a mod 128"] by simp
qed

lemma of_int_uintI: "n = uint (b::byte) \<Longrightarrow> of_int n = b"
  by simp

text \<open>The six bytes of a packed field as sums.\<close>

lemma pack_info_up_eq: "pack_info Up i = map of_int
   [16 * (info_get i Relay_Level mod 16) + 4 * (info_get i Module_Id mod 4) + info_get i Route_Flag mod 2,
    info_get i Channel mod 16,
    16 * (info_get i Meter_Channel mod 16) + info_get i Phase mod 16,
    16 * (info_get i Sig_Quality mod 16) + info_get i Sig_Quality mod 16,
    info_get i Event_Flag mod 2, info_get i Seq mod 256]"
  by (simp only: pack_info_def Let_def int_and_masks or_fields simp_thms if_True)

lemma pack_info_down_eq: "pack_info Down i = map of_int
   [16 * (info_get i Relay_Level mod 16) + 8 * (info_get i Conflict_Detect mod 2)
      + 2 * (info_get i Module_Id mod 4) + info_get i Sub_Node mod 2,
    16 * (info_get i Ecc mod 16) + info_get i Channel mod 16,
    info_get i Expect_Reply_Len mod 256,
    128 * (info_get i Rate_Unit mod 2) + info_get i Rate mod 32768 div 256,
    info_get i Rate mod 256, info_get i Seq mod 256]"
proof -
  have "x mod 32768 div 256 mod 128 = x mod 32768 div 256"
    "x mod 32768 mod 256 = x mod 256" "x mod 2 mod 2 = x mod 2" for x :: int
  proof -
    show "x mod 32768 div 256 mod 128 = x mod 32768 div 256"
      by (simp add: div_pos_pos_trivial zmod_trivial_iff)
    show "x mod 32768 mod 256 = x mod 256"
      using mod_mod_cancel [of 256 32768 x] by simp
  qed simp
  then show ?thesis
    by (simp only: pack_info_def Let_def int_and_masks int_drop_bits or_fields direction.distinct
        if_False power_numeral simp_thms) simp
qed

lemma parse_info_up_bytes:
  "parse_info Up [b0, b1, b2, b3, b4, b5] =
     [Relay_Level \<mapsto> uint b0 div 16 mod 16, Module_Id \<mapsto> uint b0 div 4 mod 4,
      Route_Flag \<mapsto> uint b0 mod 2, Channel \<mapsto> uint b1 mod 16,
      Meter_Channel \<mapsto> uint b2 div 16 mod 16, Phase \<mapsto> uint b2 mod 16,
      Sig_Quality \<mapsto> uint b3 div 16 mod 16, Event_Flag \<mapsto> uint b4 mod 2, Seq \<mapsto> uint b5]"
  unfolding parse_info_def Let_def int_and_masks int_drop_bits by simp

lemma parse_info_down_bytes:
  "parse_info Down [b0, b1, b2, b3, b4, b5] =
     [Relay_Level \<mapsto> uint b0 div 16 mod 16, Conflict_Detect \<mapsto> uint b0 div 8 mod 2,
      Module_Id \<mapsto> uint b0 div 2 mod 4, Sub_Node \<mapsto> uint b0 mod 2, Ecc \<mapsto> uint b1 div 16 mod 16,
      Channel \<mapsto> uint b1 mod 16, Expect_Reply_Len \<mapsto> uint b2, Rate_Unit \<mapsto> uint b3 div 128 mod 2,
      Rate \<mapsto> 256 * (uint b3 mod 128) + uint b4, Seq \<mapsto> uint b5]"
  unfolding parse_info_def Let_def int_and_masks int_drop_bits or_fields by simp

text \<open>The fields of a byte add up to it.\<close>

lemma byte_parts:
  fixes u v :: int
  assumes "0 \<le> u" "u < 256" "0 \<le> v" "v < 256"
  shows "16 * (u div 16 mod 16 mod 16) + 8 * (u div 8 mod 2 mod 2) + 2 * (u div 2 mod 4 mod 4) + u mod 2 mod 2 = u"
    and "16 * (u div 16 mod 16 mod 16) + u mod 16 mod 16 = u"
    and "128 * (u div 128 mod 2 mod 2) + (256 * (u mod 128) + v) mod 32768 div 256 = u"
    and "(256 * (u mod 128) + v) mod 256 = v" and "u mod 256 = u"
proof -
  have "u div 2 div 4 = u div 8" "u div 8 div 2 = u div 16" by (simp_all add: zdiv_zmult2_eq [symmetric])
  moreover have "u = 2 * (u div 2) + u mod 2" "u div 2 = 4 * (u div 2 div 4) + u div 2 mod 4"
    "u div 8 = 2 * (u div 8 div 2) + u div 8 mod 2" "u = 16 * (u div 16) + u mod 16" by simp_all
  moreover have "u div 16 mod 16 = u div 16" using assms by (simp add: zmod_trivial_iff)
  ultimately show
    "16 * (u div 16 mod 16 mod 16) + 8 * (u div 8 mod 2 mod 2) + 2 * (u div 2 mod 4 mod 4) + u mod 2 mod 2 = u"
    "16 * (u div 16 mod 16 mod 16) + u mod 16 mod 16 = u"
    unfolding mod_mod_trivial by linarith+
  have "(256 * (u mod 128) + v) mod 32768 = 256 * (u mod 128) + v"
    using assms by (simp add: zmod_trivial_iff)
  moreover have "(256 * (u mod 128) + v) div 256 = u mod 128" using assms by simp
  moreover have "u div 128 mod 2 = u div 128" using assms by (simp add: zmod_trivial_iff)
  ultimately show "128 * (u div 128 mod 2 mod 2) + (256 * (u mod 128) + v) mod 32768 div 256 = u"
    by simp
  show "(256 * (u mod 128) + v) mod 256 = v" "u mod 256 = u" using assms by simp_all
qed

text \<open>
  Every bit of the six bytes of a downward information field is in exactly
  one field: packing what was parsed gives the bytes back.
\<close>

theorem info_down_exact:
  assumes "length b = 6"
  shows "pack_info Down (parse_info Down b) = b"
proof -
  obtain b0 b1 b2 b3 b4 b5 where b: "b = [b0, b1, b2, b3, b4, b5]" using six_bytes [OF assms] by blast
  have r: "0 \<le> uint x" "uint x < 256" for x :: byte by simp_all
  show ?thesis
    unfolding b parse_info_down_bytes pack_info_down_eq info_get_def
    by (simp only: fun_upd_apply info_key.distinct simp_thms if_True if_False option.case list.map
        byte_parts [OF r r] of_int_uintI)
qed

theorem info_down_exact_witness: "pack_info Down (parse_info Down [0x12, 0x53, 3, 0x81, 0xFF, 9]) = [0x12, 0x53, 3, 0x81, 0xFF, 9]"
  by (rule info_down_exact) simp

lemma down_parts:
  fixes A B C D :: int
  assumes "0 \<le> A" "A < 16" "0 \<le> B" "B < 2" "0 \<le> C" "C < 4" "0 \<le> D" "D < 2"
  defines "x \<equiv> 16 * A + 8 * B + 2 * C + D"
  shows "x mod 256 = x" "x div 16 mod 16 = A" "x div 8 mod 2 = B" "x div 2 mod 4 = C" "x mod 2 = D"
proof -
  show "x mod 256 = x" using assms(1-8) by (simp add: x_def zmod_trivial_iff)
  have d2: "x div 2 = 8 * A + 4 * B + C" using assms(7,8) by (simp add: x_def)
  have "x div 2 div 4 = 2 * A + B" unfolding d2 using assms(5,6) by simp
  then have d8: "x div 8 = 2 * A + B" by (simp add: zdiv_zmult2_eq [symmetric])
  have "x div 8 div 2 = A" unfolding d8 using assms(3,4) by simp
  then have d16: "x div 16 = A" by (simp add: zdiv_zmult2_eq [symmetric])
  show "x div 16 mod 16 = A" unfolding d16 using assms(1,2) by simp
  show "x div 8 mod 2 = B" unfolding d8 using assms(3,4) by simp
  have "8 * A + 4 * B + C = C + 4 * (2 * A + B)" by simp
  then show "x div 2 mod 4 = C" unfolding d2 using assms(5,6) by (simp only: mod_mult_self2) simp
  have "x = D + 2 * (8 * A + 4 * B + C)" by (simp add: x_def)
  then show "x mod 2 = D" using assms(7,8) by (simp only: mod_mult_self2) simp
qed

lemma up_parts:
  fixes A C D :: int
  assumes "0 \<le> A" "A < 16" "0 \<le> C" "C < 4" "0 \<le> D" "D < 2"
  defines "x \<equiv> 16 * A + 4 * C + D"
  shows "x mod 256 = x" "x div 16 mod 16 = A" "x div 4 mod 4 = C" "x mod 2 = D"
proof -
  show "x mod 256 = x" using assms(1-6) by (simp add: x_def zmod_trivial_iff)
  have d4: "x div 4 = 4 * A + C" using assms(5,6) by (simp add: x_def)
  have "x div 4 div 4 = A" unfolding d4 using assms(3,4) by simp
  then have d16: "x div 16 = A" by (simp add: zdiv_zmult2_eq [symmetric])
  show "x div 16 mod 16 = A" unfolding d16 using assms(1,2) by simp
  show "x div 4 mod 4 = C" unfolding d4 using assms(3,4) by simp
  have "x = D + 2 * (8 * A + 2 * C)" by (simp add: x_def)
  then show "x mod 2 = D" using assms(5,6) by (simp only: mod_mult_self2) simp
qed

lemma nibble_parts:
  fixes A B :: int
  assumes "0 \<le> A" "A < 16" "0 \<le> B" "B < 16"
  shows "(16 * A + B) mod 256 = 16 * A + B" "(16 * A + B) div 16 mod 16 = A" "(16 * A + B) mod 16 = B"
  using assms by (simp_all add: zmod_trivial_iff)

lemma rate_parts:
  fixes u r :: int
  assumes "0 \<le> u" "u < 2"
  shows "(128 * u + r mod 32768 div 256) mod 256 = 128 * u + r mod 32768 div 256"
    and "(128 * u + r mod 32768 div 256) div 128 mod 2 = u"
    and "256 * ((128 * u + r mod 32768 div 256) mod 128) + r mod 256 = r mod 32768"
proof -
  define h where "h = r mod 32768 div 256"
  have h: "0 \<le> h" "h < 128" by (simp_all add: h_def pos_imp_zdiv_nonneg_iff) 
  show "(128 * u + r mod 32768 div 256) mod 256 = 128 * u + r mod 32768 div 256"
    "(128 * u + r mod 32768 div 256) div 128 mod 2 = u"
    unfolding h_def [symmetric] using assms h by (simp_all add: zmod_trivial_iff)
  have "r mod 256 = r mod 32768 mod 256" using mod_mod_cancel [of 256 32768 r] by simp
  moreover have "(128 * u + h) mod 128 = h" using h by simp
  ultimately show "256 * ((128 * u + r mod 32768 div 256) mod 128) + r mod 256 = r mod 32768"
    unfolding h_def [symmetric] by (simp add: h_def)
qed

lemma mod_small:
  fixes x :: int
  shows "x mod 16 mod 256 = x mod 16" "x mod 2 mod 256 = x mod 2"
    "x mod 16 mod 16 = x mod 16" "x mod 2 mod 2 = x mod 2" "x mod 256 mod 256 = x mod 256"
  by (simp_all add: zmod_trivial_iff)

text \<open>What is packed comes back reduced to the width of its field.\<close>

lemma info_roundtrip_up:
  "parse_info Up (pack_info Up i) =
     [Relay_Level \<mapsto> info_get i Relay_Level mod 16, Module_Id \<mapsto> info_get i Module_Id mod 4,
      Route_Flag \<mapsto> info_get i Route_Flag mod 2, Channel \<mapsto> info_get i Channel mod 16,
      Meter_Channel \<mapsto> info_get i Meter_Channel mod 16, Phase \<mapsto> info_get i Phase mod 16,
      Sig_Quality \<mapsto> info_get i Sig_Quality mod 16, Event_Flag \<mapsto> info_get i Event_Flag mod 2,
      Seq \<mapsto> info_get i Seq mod 256]"
  by (simp only: pack_info_up_eq list.map parse_info_up_bytes uint_of_int_byte mod_small up_parts
      nibble_parts pos_mod_sign pos_mod_bound zero_less_numeral)

lemma info_roundtrip_down:
  "parse_info Down (pack_info Down i) =
     [Relay_Level \<mapsto> info_get i Relay_Level mod 16, Conflict_Detect \<mapsto> info_get i Conflict_Detect mod 2,
      Module_Id \<mapsto> info_get i Module_Id mod 4, Sub_Node \<mapsto> info_get i Sub_Node mod 2,
      Ecc \<mapsto> info_get i Ecc mod 16, Channel \<mapsto> info_get i Channel mod 16,
      Expect_Reply_Len \<mapsto> info_get i Expect_Reply_Len mod 256,
      Rate_Unit \<mapsto> info_get i Rate_Unit mod 2, Rate \<mapsto> info_get i Rate mod 32768,
      Seq \<mapsto> info_get i Seq mod 256]"
  by (simp only: pack_info_down_eq list.map parse_info_down_bytes uint_of_int_byte mod_small down_parts
      nibble_parts rate_parts pos_mod_sign pos_mod_bound zero_less_numeral)

lemma info_packed:
  "info_get (parse_info dir (pack_info dir i)) Module_Id = info_get i Module_Id mod 4"
  "info_get (parse_info dir (pack_info dir i)) Relay_Level = info_get i Relay_Level mod 16"
  "length (pack_info dir i) = 6"
  by (cases dir; simp add: info_roundtrip_up info_roundtrip_down info_get_def;
      simp add: pack_info_up_eq pack_info_down_eq)+

section \<open>BCD addresses\<close>

definition bcd12 :: "string \<Rightarrow> bool" where
  "bcd12 s \<longleftrightarrow> length s = 12 \<and> list_all is_digit s"

lemma is_digit_hex: "is_digit c \<Longrightarrow> \<exists>d < 10. c = hex_digit d"
proof -
  assume d: "is_digit c"
  have "list_all (\<lambda>n. char_of n = hex_digit (n - 48)) [48..<58]" by code_simp
  then have "\<forall>n. 48 \<le> n \<and> n < 58 \<longrightarrow> char_of n = hex_digit (n - 48)"
    unfolding list_all_iff set_upt by simp
  moreover have "48 \<le> (of_char c :: nat)" "(of_char c :: nat) < 58" using d by (auto simp: is_digit_def)
  ultimately have "char_of (of_char c :: nat) = hex_digit (of_char c - 48)" by blast
  then have "c = hex_digit (of_char c - 48)" by simp
  moreover have "(of_char c :: nat) - 48 < 10"
    using \<open>48 \<le> (of_char c :: nat)\<close> \<open>(of_char c :: nat) < 58\<close> by linarith
  ultimately show ?thesis by blast
qed

lemma show_nat_digit: "d < 10 \<Longrightarrow> show_nat d = [hex_digit d]"
  by (simp add: show_nat.simps)

lemma nibbles_of_byte:
  assumes "h < 16" "l < 16"
  shows "unat (of_nat (push_bit 4 h OR l) :: byte) = 16 * h + l"
proof -
  have "push_bit 4 h OR l = 16 * h + l"
    using or_push_bit_add [of l 4 h] assms by (simp add: or.commute)
  with assms show ?thesis by (simp only: unat_of_nat_byte) simp
qed

lemma bcd_to_str_append [simp]: "bcd_to_str (xs @ ys) = bcd_to_str xs @ bcd_to_str ys"
  by (simp add: bcd_to_str_def)

lemma pack_digits_text:
  "list_all is_digit s \<Longrightarrow> even (length s) \<Longrightarrow>
     \<exists>b. pack_digits s = Some b \<and> length b = length s div 2 \<and> bcd_to_str b = s"
proof (induction s rule: pack_digits.induct)
  case (1 c d cs)
  then have "is_digit c" "is_digit d" by simp_all
  then obtain h l where hl: "h < 10" "c = hex_digit h" "l < 10" "d = hex_digit l"
    using is_digit_hex by meson
  then have "hex_val c = Some h" "hex_val d = Some l" by simp_all
  with 1 obtain b where b: "pack_digits cs = Some b" "length b = length cs div 2" "bcd_to_str b = cs"
    by auto
  define x :: byte where "x = of_nat (push_bit 4 h OR l)"
  have "unat x = 16 * h + l" unfolding x_def using nibbles_of_byte hl by simp
  then have "bcd_to_str [x] = [c, d]"
    using hl by (simp add: bcd_to_str_def nat_and_masks nat_drop_bits show_nat_digit)
  then have "bcd_to_str (x # b) = c # d # cs"
    using bcd_to_str_append [of "[x]" b] b by simp
  with b hl show ?case by (simp add: x_def [symmetric] del: of_nat_or_eq of_nat_push_bit)
qed (simp_all add: bcd_to_str_def)

lemma str_to_bcd_text:
  assumes "bcd12 s"
  shows "\<exists>b. str_to_bcd s 6 = Some b \<and> length b = 6 \<and> bcd_to_str b = s"
proof -
  have d: "list_all is_digit s" and l: "length s = 12" using assms by (auto simp: bcd12_def)
  have "\<not> is_space c \<and> c \<noteq> CHR ''-''" if "c \<in> set s" for c
  proof -
    have "is_digit c" using d that by (simp add: list_all_iff)
    then obtain k where "k < 10" "c = hex_digit k" using is_digit_hex by blast
    then show ?thesis using hex_digit_facts [of k] by simp
  qed
  then have "remove_char CHR ''-'' (py_strip s) = s"
    using py_strip_id remove_char_id by metis
  with pack_digits_text [OF d] l show ?thesis by (simp add: str_to_bcd_def)
qed

lemma relays_text:
  "list_all bcd12 rs \<Longrightarrow> length tail = 6 \<Longrightarrow>
     \<exists>b. bcd_all rs = Some b \<and> length b = 6 * length rs \<and> relays (b @ tail) = (rs, tail)"
proof (induction rs)
  case Nil
  then show ?case by (simp add: relays.simps)
next
  case (Cons r rs)
  then obtain b where b: "bcd_all rs = Some b" "length b = 6 * length rs" "relays (b @ tail) = (rs, tail)"
    by auto
  from Cons.prems str_to_bcd_text obtain x where x: "str_to_bcd r 6 = Some x" "length x = 6" "bcd_to_str x = r"
    by auto
  have "relays (x @ b @ tail) = (r # rs, tail)"
    using x b Cons.prems by (subst relays.simps) simp
  with x b show ?case by simp
qed

definition full_address :: "address \<Rightarrow> bool" where
  "full_address a \<longleftrightarrow> bcd12 (ad_src a) \<and> list_all bcd12 (ad_relay a) \<and> bcd12 (ad_dst a)"

lemma full_address_packed:
  assumes "full_address a"
  shows "\<exists>b. pack_address a = Some b \<and> length b = 6 + 6 * length (ad_relay a) + 6
    \<and> parse_address b = a"
proof -
  from assms str_to_bcd_text obtain s d where
    s: "str_to_bcd (ad_src a) 6 = Some s" "length s = 6" "bcd_to_str s = ad_src a" and
    d: "str_to_bcd (ad_dst a) 6 = Some d" "length d = 6" "bcd_to_str d = ad_dst a"
    unfolding full_address_def by blast
  from assms relays_text [of "ad_relay a" d] d obtain r where
    r: "bcd_all (ad_relay a) = Some r" "length r = 6 * length (ad_relay a)"
      "relays (r @ d) = (ad_relay a, d)"
    unfolding full_address_def by auto
  have "ad_src a \<noteq> []" "ad_dst a \<noteq> []" using assms by (auto simp: full_address_def bcd12_def)
  then have "pack_address a = Some (s @ r @ d)" by (simp add: pack_address_def s d r)
  moreover have "parse_address (s @ r @ d) = a"
  proof -
    have "s @ r @ d \<noteq> []" "d \<noteq> []" using s d by auto
    then show ?thesis using s d r by (simp add: parse_address_def)
  qed
  ultimately show ?thesis using s d r by simp
qed

text \<open>
  An address field with source, relays and destination of twelve digits
  each packs into six bytes per station and parses back to the same stations.
\<close>

theorem address_roundtrip:
  assumes "full_address a"
  shows "\<exists>b. pack_address a = Some b \<and> length b = 6 + 6 * length (ad_relay a) + 6
    \<and> parse_address b = a"
  using assms by (rule full_address_packed)

theorem address_roundtrip_witness:
  "\<exists>b. pack_address \<lparr>ad_src = ''000000000001'', ad_relay = [''112233445566''], ad_dst = ''987654321012''\<rparr>
      = Some b \<and> length b = 18
    \<and> parse_address b
      = \<lparr>ad_src = ''000000000001'', ad_relay = [''112233445566''], ad_dst = ''987654321012''\<rparr>"
  using address_roundtrip [of "\<lparr>ad_src = ''000000000001'', ad_relay = [''112233445566''],
      ad_dst = ''987654321012''\<rparr>"]
  by (simp add: full_address_def bcd12_def is_digit_def)

section \<open>Building and taking apart\<close>

text \<open>A frame with its parts laid out, and what extraction, scoring and decoding make of it.\<close>

lemma try_extract_shape:
  assumes "raw = [0x68, lo, hi, c] @ ud @ [s, 0x16]" "6 \<le> length ud"
    "pair16 lo hi = length ud + 6" "c \<noteq> 0x68"
  shows "try_extract_10376 raw = Some \<lparr>ex_raw = raw, ex_consumed = length raw\<rparr>"
  using assms by (simp add: try_extract_10376_def)

lemma frame_body: "py_slice ([x, lo, hi, c] @ ud @ [s, e]) 3 (length ([x, lo, hi, c] @ ud @ [s, e]) - 2) = c # ud"
  by (simp add: py_slice_def)

lemma confidence_shape:
  assumes "raw = [0x68, lo, hi, c] @ ud @ [s, 0x16]" "6 \<le> length ud"
    "pair16 lo hi = length ud + 6" "c \<noteq> 0x68"
    "unat s = byte_sum (c # ud) mod 256"
  shows "confidence_10376 raw \<in> {9/10, 1}"
proof -
  have "raw ! (length raw - 2) = s" using assms(1) by (simp add: nth_append)
  moreover have "py_slice raw 3 (length raw - 2) = c # ud"
    using frame_body assms(1) by metis
  ultimately show ?thesis using assms by (simp add: confidence_10376_def Let_def)
qed

lemma decode_shape:
  assumes raw: "raw = [0x68, lo, hi, c] @ ud @ [s, e]"
    and ud: "ud = ib @ ab @ [a, d1, d2] @ app" and ib: "length ib = 6"
    and dir: "parse_control (unat c) = ctl" and info: "parse_info (ctl_direction ctl) ib = info"
    and al: "length ab = addr_len info"
  shows "decode_10376 raw = Some \<lparr>dl_length = pair16 lo hi, dl_control = ctl, dl_info = info,
    dl_address = (if info_get info Module_Id = 1 then parse_address ab else no_address),
    dl_unit = Some \<lparr>au_afn = unat a, au_dt1 = unat d1, au_dt2 = unat d2,
      au_fn = dt_to_fn (unat d1) (unat d2), au_data = app,
      au_cs_ok = (byte_sum (c # ud) mod 256 = unat s),
      au_scan = (app \<noteq> [] \<and> unat a \<in> {0x02, 0x06, 0x13, 0xF1})\<rparr>\<rparr>"
proof -
  have 1: "py_slice raw 4 (length raw - 2) = ud" using raw by (simp add: py_slice_def)
  have 2: "py_slice ud 0 6 = ib" using ud ib by (simp add: slice_simps)
  have 3: "py_slice ud 6 (6 + addr_len info) = ab"
    unfolding ud al [symmetric] using ib by (intro py_slice_append) simp_all
  let ?p = "6 + addr_len info"
  have 4: "ud ! ?p = a" "ud ! (?p + 1) = d1" "ud ! (?p + 2) = d2" "drop (?p + 3) ud = app"
    "\<not> length ud < ?p + 3"
    unfolding ud al [symmetric] using ib by (simp_all add: nth_append)
  have 5: "py_slice raw 3 (length raw - 2) = c # ud" using frame_body raw by metis
  have 6: "raw ! (length raw - 2) = s" using raw by (simp add: nth_append)
  have 7: "raw ! 1 = lo" "raw ! 2 = hi" "raw ! 3 = c" "\<not> length raw < 4" using raw by simp_all
  show ?thesis
    unfolding decode_10376_def Let_def 7 dir 1 2 info 3 5 6 4 by (simp only: if_False 7 4)
qed

text \<open>The length field as two bytes.\<close>

lemma length_bytes:
  "n < 65536 \<Longrightarrow> pair16 (of_nat (n AND 255)) (of_nat (drop_bit 8 n AND 255)) = n"
  using pair16_of_nat [of n] by (simp only: nat_and_masks nat_drop_bits power_numeral) simp

text \<open>The frame a successful build returns.\<close>

lemma build_frame_shape:
  assumes "pack_address addr = Some ab" "1 \<le> fn" "fn \<le> 255"
    and "i1 = (if ab \<noteq> [] \<and> i0 Module_Id = None then i0(Module_Id \<mapsto> 1) else i0)"
    and "ud = pack_info dir i1 @ ab @
      [of_int (afn AND 255), of_nat (fst (fn_to_dt fn)), of_nat (snd (fn_to_dt fn))] @ app"
    and "c = of_int (pack_control dir prm cm)"
  shows "build_frame_10376 dir cm prm i0 addr afn fn app fin = Some
    ([0x68, of_nat ((length ud + 6) AND 255), of_nat (drop_bit 8 (length ud + 6) AND 255), c]
      @ ud @ [of_nat (byte_sum (c # ud) mod 256), of_int (fin AND 255)])"
  unfolding build_frame_10376_def assms(1) Let_def assms(4) [symmetric] split_def
    assms(5) [symmetric] assms(6) [symmetric] Option.bind.simps
  by simp

text \<open>
  The address a caller gives and the information field agree: either there is no address and the
  module flag is not 1, or there is a full one, the module flag is 1 or left to the builder, and
  the relay level is the number of relays.
\<close>

definition addr_consistent :: "info \<Rightarrow> address \<Rightarrow> bool" where
  "addr_consistent i a \<longleftrightarrow>
     (a = no_address \<and> info_get i Module_Id mod 4 \<noteq> 1)
     \<or> (full_address a \<and> (i Module_Id = None \<or> info_get i Module_Id mod 4 = 1)
        \<and> info_get i Relay_Level mod 16 = int (length (ad_relay a)))"

definition sent_info :: "info \<Rightarrow> address \<Rightarrow> info" where
  "sent_info i a = (if a \<noteq> no_address \<and> i Module_Id = None then i(Module_Id \<mapsto> 1) else i)"

lemma no_address_packed: "pack_address no_address = Some []"
  by (simp add: pack_address_def no_address_def)

lemma consistent_packed:
  assumes "addr_consistent i a"
  shows "\<exists>ab. pack_address a = Some ab \<and> length ab \<le> 102
    \<and> sent_info i a = (if ab \<noteq> [] \<and> i Module_Id = None then i(Module_Id \<mapsto> 1) else i)
    \<and> (let info = parse_info dir (pack_info dir (sent_info i a)) in length ab = addr_len info
        \<and> (if info_get info Module_Id = 1 then parse_address ab else no_address) = a)"
proof (cases "a = no_address")
  case True
  with assms have "info_get i Module_Id mod 4 \<noteq> 1"
    by (auto simp: addr_consistent_def full_address_def no_address_def bcd12_def)
  with True show ?thesis
    by (simp add: no_address_packed sent_info_def addr_len_def info_packed Let_def)
next
  case False
  with assms have f: "full_address a" and m: "i Module_Id = None \<or> info_get i Module_Id mod 4 = 1"
    and r: "info_get i Relay_Level mod 16 = int (length (ad_relay a))"
    by (auto simp: addr_consistent_def)
  obtain ab where ab: "pack_address a = Some ab" "length ab = 6 + 6 * length (ad_relay a) + 6"
      "parse_address ab = a"
    using full_address_packed [OF f] by blast
  have "int (length (ad_relay a)) < 16" unfolding r [symmetric] by simp
  then have le: "length ab \<le> 102" using ab(2) by linarith
  have m1: "info_get (sent_info i a) Module_Id mod 4 = 1"
    using m False by (auto simp: sent_info_def info_get_def)
  have r1: "info_get (sent_info i a) Relay_Level = info_get i Relay_Level"
    by (simp add: sent_info_def info_get_def)
  have "ab \<noteq> []" using ab(2) by auto
  with False ab le show ?thesis
    by (simp add: addr_len_def info_packed m1 r1 r Let_def) (simp add: sent_info_def)
qed

lemma built_frame:
  fixes dir :: direction
  assumes "addr_consistent i addr" "1 \<le> fn" "fn \<le> 255" "0 \<le> afn" "afn < 256" "length app \<le> 65000"
  defines "info \<equiv> parse_info dir (pack_info dir (sent_info i addr))"
  shows "\<exists>ab ud lo hi c d1 d2 s. ud = pack_info dir (sent_info i addr) @ ab @ [of_int afn, d1, d2] @ app
     \<and> build_frame_10376 dir cm prm i addr afn fn app fin
       = Some ([0x68, lo, hi, c] @ ud @ [s, of_int (fin AND 255)])
     \<and> pair16 lo hi = length ud + 6 \<and> unat c = nat (pack_control dir prm cm)
     \<and> dt_to_fn (unat d1) (unat d2) = nat fn \<and> unat s = byte_sum (c # ud) mod 256
     \<and> length ab = addr_len info
     \<and> (if info_get info Module_Id = 1 then parse_address ab else no_address) = addr"
proof -
  obtain ab where ab: "pack_address addr = Some ab" "length ab \<le> 102"
     "sent_info i addr = (if ab \<noteq> [] \<and> i Module_Id = None then i(Module_Id \<mapsto> 1) else i)"
     "length ab = addr_len info"
     "(if info_get info Module_Id = 1 then parse_address ab else no_address) = addr"
    using consistent_packed [OF assms(1), of dir] unfolding info_def Let_def by blast
  define c :: byte where "c = of_int (pack_control dir prm cm)"
  define d1 d2 :: byte where "d1 = of_nat (fst (fn_to_dt fn))" and "d2 = of_nat (snd (fn_to_dt fn))"
  define ud where "ud = pack_info dir (sent_info i addr) @ ab @ [of_int afn, d1, d2] @ app"
  have a: "afn AND 255 = afn" using assms(4,5) by (simp add: int_and_masks)
  have "length ud + 6 < 65536" using ab(2) assms(6) by (simp add: ud_def info_packed)
  from length_bytes [OF this] have
    "pair16 (of_nat ((length ud + 6) AND 255)) (of_nat (drop_bit 8 (length ud + 6) AND 255)) = length ud + 6" .
  moreover have "unat c = nat (pack_control dir prm cm)"
    using pack_control_range [of dir prm cm] nat_uint_eq [of c]
    by (simp add: c_def uint_of_int_byte del: nat_uint_eq)
  moreover have "dt_to_fn (unat d1) (unat d2) = nat fn"
  proof -
    have n: "1 \<le> nat fn" "nat fn \<le> 255" "int (nat fn) = fn" using assms(2,3) by auto
    from dt_fn_inverse [OF n(1,2)] obtain q k where
      q: "fn_to_dt fn = (2 ^ k, q)" "dt_to_fn (2 ^ k) q = nat fn" unfolding n(3) by blast
    with fn_to_dt_bytes [of fn] show ?thesis by (simp add: d1_def d2_def unat_of_nat_byte del: of_nat_power)
  qed
  moreover have "unat (of_nat (byte_sum (c # ud) mod 256) :: byte) = byte_sum (c # ud) mod 256"
    by (simp only: unat_of_nat_byte mod_mod_trivial)
  moreover note build_frame_shape [OF ab(1) assms(2,3) ab(3), of ud dir afn app c prm cm fin,
      unfolded a, folded d1_def d2_def, OF ud_def c_def]
  ultimately show ?thesis using ab(4,5)
    by - (rule exI [of _ ab], rule exI [of _ ud], rule exI [of _ "of_nat ((length ud + 6) AND 255)"],
        rule exI [of _ "of_nat (drop_bit 8 (length ud + 6) AND 255)"], rule exI [of _ c],
        rule exI [of _ d1], rule exI [of _ d2], rule exI [of _ "of_nat (byte_sum (c # ud) mod 256)"],
        intro conjI ud_def)
qed

lemma decode_built_frame:
  fixes dir :: direction
  assumes "addr_consistent i addr" "1 \<le> fn" "fn \<le> 255" "0 \<le> afn" "afn < 256" "length app \<le> 65000"
  shows "\<exists>f dt1 dt2. build_frame_10376 dir cm prm i addr afn fn app fin = Some f
    \<and> decode_10376 f = Some \<lparr>dl_length = length f,
        dl_control = parse_control (nat (pack_control dir prm cm)),
        dl_info = parse_info dir (pack_info dir (sent_info i addr)), dl_address = addr,
        dl_unit = Some \<lparr>au_afn = nat afn, au_dt1 = dt1, au_dt2 = dt2, au_fn = nat fn,
          au_data = app, au_cs_ok = True,
          au_scan = (app \<noteq> [] \<and> nat afn \<in> {0x02, 0x06, 0x13, 0xF1})\<rparr>\<rparr>"
proof -
  let ?ib = "pack_info dir (sent_info i addr)"
  obtain ab ud lo hi c d1 d2 s where
    ud: "ud = ?ib @ ab @ [of_int afn, d1, d2] @ app"
    and b: "build_frame_10376 dir cm prm i addr afn fn app fin
          = Some ([0x68, lo, hi, c] @ ud @ [s, of_int (fin AND 255)])"
    and len: "pair16 lo hi = length ud + 6"
    and c: "unat c = nat (pack_control dir prm cm)"
    and fn: "dt_to_fn (unat d1) (unat d2) = nat fn"
    and s: "unat s = byte_sum (c # ud) mod 256"
    and al: "length ab = addr_len (parse_info dir ?ib)"
    and addr: "(if info_get (parse_info dir ?ib) Module_Id = 1 then parse_address ab else no_address) = addr"
    using built_frame [OF assms, of dir cm prm fin] by blast
  have afn: "unat (of_int afn :: byte) = nat afn"
    using assms(4,5) nat_uint_eq [of "of_int afn :: byte"] by (simp add: uint_of_int_byte del: nat_uint_eq)
  have dir: "ctl_direction (parse_control (unat c)) = dir" by (simp add: c control_parsed)
  have dec: "decode_10376 ([0x68, lo, hi, c] @ ud @ [s, of_int (fin AND 255)])
    = Some \<lparr>dl_length = pair16 lo hi, dl_control = parse_control (unat c),
        dl_info = parse_info dir ?ib, dl_address = addr,
        dl_unit = Some \<lparr>au_afn = nat afn, au_dt1 = unat d1, au_dt2 = unat d2, au_fn = nat fn,
          au_data = app, au_cs_ok = True,
          au_scan = (app \<noteq> [] \<and> nat afn \<in> {0x02, 0x06, 0x13, 0xF1})\<rparr>\<rparr>"
    using decode_shape [OF refl ud info_packed(3) refl _ al, of c lo hi s "of_int (fin AND 255)"]
    unfolding dir addr fn afn s by simp
  show ?thesis
    by (rule exI [of _ "[0x68, lo, hi, c] @ ud @ [s, of_int (fin AND 255)]"],
        rule exI [of _ "unat d1"], rule exI [of _ "unat d2"])
      (simp only: b dec len c simp_thms, simp)
qed



lemma pack_control_68:
  "c = of_int (pack_control dir prm cm) \<Longrightarrow> cm mod 64 \<noteq> 40 \<Longrightarrow> c \<noteq> (0x68 :: byte)"
proof
  assume c: "c = of_int (pack_control dir prm cm)" and m: "cm mod 64 \<noteq> 40" and e: "c = 0x68"
  have "uint c = pack_control dir prm cm"
    using pack_control_range [of dir prm cm] c by (simp add: uint_of_int_byte)
  with e have p: "pack_control dir prm cm = 104" by simp
  have "0 \<le> cm mod 64" "cm mod 64 < 64" by simp_all
  have r: "0 \<le> x mod 2" "x mod 2 \<le> 1" for x :: int by presburger+
  define q d where "q = (case prm of None \<Rightarrow> (if dir = Up then 0 else 1) | Some p \<Rightarrow> p) mod (2::int)"
    and "d = (if dir = Up then 1 else 0 :: int)"
  have "q = 0 \<or> q = 1" "d = 0 \<or> d = 1"
    using r [of "case prm of None \<Rightarrow> (if dir = Up then 0 else 1) | Some p \<Rightarrow> p"]
    unfolding q_def d_def by linarith+ auto
  moreover have "128 * d + 64 * q + cm mod 64 = 104" using p unfolding pack_control_eq q_def d_def .
  ultimately show False using m \<open>0 \<le> cm mod 64\<close> \<open>cm mod 64 < 64\<close> by (elim disjE) linarith+
qed

text \<open>
  A built frame that is alone in the buffer is extracted whole and scores
  at least 0.9; the mode 40, which would make the control byte a second 68H, is excluded.
\<close>

theorem extract_built_10376:
  fixes dir :: direction
  assumes "addr_consistent i addr" "1 \<le> fn" "fn \<le> 255" "0 \<le> afn" "afn < 256" "length app \<le> 65000"
    and "cm mod 64 \<noteq> 40"
  shows "\<exists>f. build_13762_frame afn fn app dir cm i addr = Some f
    \<and> try_extract_10376 f = Some \<lparr>ex_raw = f, ex_consumed = length f\<rparr>
    \<and> confidence_10376 f \<in> {9/10, 1}"
proof -
  obtain ab ud lo hi c d1 d2 s where
    ud: "ud = pack_info dir (sent_info i addr) @ ab @ [of_int afn, d1, d2] @ app"
    and b: "build_frame_10376 dir cm None i addr afn fn app 0x16
          = Some ([0x68, lo, hi, c] @ ud @ [s, of_int (0x16 AND 255)])"
    and len: "pair16 lo hi = length ud + 6"
    and c: "unat c = nat (pack_control dir None cm)"
    and s: "unat s = byte_sum (c # ud) mod 256"
    using built_frame [OF assms(1-6), of dir cm None "0x16"] by blast
  let ?f = "[0x68, lo, hi, c] @ ud @ [s, 0x16]"
  have "of_int (0x16 AND 255) = (0x16 :: byte)" by (simp add: int_and_masks)
  with b have f: "build_13762_frame afn fn app dir cm i addr = Some ?f"
    by (simp add: build_13762_frame_def)
  have "uint c = pack_control dir None cm"
    using c pack_control_range [of dir None cm] by (metis nat_uint_eq eq_nat_nat_iff uint_byte_range(1))
  then have "c = of_int (pack_control dir None cm)" by (metis word_of_int_uint)
  from pack_control_68 [OF this assms(7)] have c68: "c \<noteq> 0x68" .
  have "6 \<le> length ud" by (simp add: ud info_packed)
  from try_extract_shape [OF refl this len c68] confidence_shape [OF refl this len c68 s]
  show ?thesis using f by blast
qed

theorem extract_built_10376_witness:
  "\<exists>f. build_13762_frame 3 1 [] Up 3 Map.empty no_address = Some f
    \<and> try_extract_10376 f = Some \<lparr>ex_raw = f, ex_consumed = length f\<rparr>
    \<and> confidence_10376 f \<in> {9/10, 1}"
  by (rule extract_built_10376) (simp_all add: addr_consistent_def info_get_def)

section \<open>Nested frames\<close>

text \<open>
  The scan runs over lawful candidates only, as the splitter does; then it returns, and what it
  returns are disjoint frames of the payload in order. (It raises only where a score does.)
\<close>

definition scores_total :: "'p adapter list \<Rightarrow> bool" where
  "scores_total ads \<longleftrightarrow> (\<forall>a \<in> set ads. \<forall>raw. confidence a raw \<noteq> None)"

lemma best_candidate_total:
  assumes "scores_total ads"
  shows "\<exists>b. best_candidate ads buf best bs = Some b
    \<and> (b = best \<or> (\<exists>a \<in> set ads. \<exists>r. b = Some (protocol a, r) \<and> try_extract a buf = Some r))"
  using assms
proof (induction ads arbitrary: best bs)
  case Nil
  then show ?case by simp
next
  case (Cons a ads)
  then have IH: "\<And>best bs. \<exists>b. best_candidate ads buf best bs = Some b
    \<and> (b = best \<or> (\<exists>a \<in> set ads. \<exists>r. b = Some (protocol a, r) \<and> try_extract a buf = Some r))"
    by (simp add: scores_total_def)
  show ?case
  proof (cases "try_extract a buf")
    case None
    with IH [of best bs] show ?thesis by auto
  next
    case (Some r)
    from Cons.prems obtain s where s: "confidence a (ex_raw r) = Some s"
      unfolding scores_total_def by (metis list.set_intros(1) option.exhaust)
    with Some IH [of best bs] IH [of "Some (protocol a, r)" s] show ?thesis by auto
  qed
qed

context lawful_adapters begin

lemma scan_nested_total:
  assumes "scores_total ads"
  shows "\<exists>fs rest. scan_nested ads payload out = Some (out @ fs) \<and> cuts payload (map snd fs) rest
    \<and> (\<forall>h \<in> set fs. genuine h)"
proof (induction "length payload" arbitrary: payload out rule: less_induct)
  case less
  show ?case
  proof (cases "payload = []")
    case True
    then show ?thesis
      by (intro exI [of _ "[]"] exI [of _ "[]"]) (simp add: scan_nested.simps cuts_done)
  next
    case ne: False
    obtain b where b: "best_candidate ads payload None (-1) = Some b"
      and bc: "b = None \<or> (\<exists>a \<in> set ads. \<exists>r. b = Some (protocol a, r) \<and> try_extract a payload = Some r)"
      using best_candidate_total [OF assms] by blast
    from bc show ?thesis
    proof (elim disjE bexE exE conjE)
      assume n: "b = None"
      have "length (drop 1 payload) < length payload" using ne by simp
      from less [OF this, of out] obtain fs rest where
        ih: "scan_nested ads (drop 1 payload) out = Some (out @ fs)"
          "cuts (drop 1 payload) (map snd fs) rest" "\<forall>h \<in> set fs. genuine h" by blast
      have "scan_nested ads payload out = Some (out @ fs)"
        using ne b n ih(1) by (subst scan_nested.simps) simp
      with ih cuts_suffix [OF suffix_drop [of 1 payload]] show ?thesis by blast
    next
      fix a r
      assume a: "a \<in> set ads" and r: "b = Some (protocol a, r)" "try_extract a payload = Some r"
      note fe = lawful [OF a]
      let ?t = "drop (ex_consumed r) payload"
      let ?h = "(protocol a, ex_raw r)"
      from less [OF frame_extractor.extract_drop_shorter [OF fe r(2)], of "out @ [?h]"]
      obtain fs rest where
        ih: "scan_nested ads ?t (out @ [?h]) = Some ((out @ [?h]) @ fs)"
          "cuts ?t (map snd fs) rest" "\<forall>h \<in> set fs. genuine h" by blast
      have "scan_nested ads payload out = Some (out @ ?h # fs)"
        using ne b r(1) ih(1) by (subst scan_nested.simps) simp
      moreover have "cuts payload (map snd (?h # fs)) rest"
        using cuts_frame [OF ih(2), of "ex_raw r"] frame_extractor.extract_split [OF fe r(2)] by simp
      moreover have "genuine ?h" using a r(2) by (auto simp: genuine_def)
      ultimately show ?thesis using ih(3) by (intro exI [of _ "?h # fs"] exI [of _ rest]) simp
    qed
  qed
qed

end

definition qgdw_adapter :: "string adapter" where
  "qgdw_adapter = \<lparr>protocol = ''1376.2'', try_extract = try_extract_10376,
     confidence = \<lambda>raw. Some (confidence_10376 raw)\<rparr>"

end
