(* ===== verification/App_Items.thy ===== *)
theory App_Items
  imports Adapter_10376
begin

text \<open>
  The reading of the application data of a 1376.2 frame, \<open>_app_items\<close> of
  \<open>libs/parser_lib/adapters/adapter_10376/__init__.py\<close>: one function per application
  function code (AFN), a branch per data unit Fn and direction.

  A display field keeps what its texts interpolate. A \<open>shown\<close> value has a constructor per
  format string of the source; the Chinese wording is rendered in English, the running number
  of a repeated field is a list of indices, and a description is kept when it interpolates a
  value (constant descriptions are dropped). \<open>None\<close> is an exception out of the
  function: an IndexError or, in the report F230, the ValueError of an unpacking.
\<close>

section \<open>Display fields\<close>

text \<open>
  The argument \<open>hex_str\<close>: \<open>b.hex()\<close>, \<open>f"{n:02X}"\<close>, \<open>f"{n:04X}"\<close>,
  three \<open>:02X\<close> with blanks between.
\<close>

datatype hexed = NoHex | Hs bytes | H2 nat | H4 nat | HSp bytes

datatype shown =
    Dec nat                       \<comment> \<open>\<open>f"{n}"\<close>\<close>
  | Qty nat string                \<comment> \<open>a number with its unit\<close>
  | Txt string
  | HexT bytes                     \<comment> \<open>\<open>b.hex()\<close>\<close>
  | Bcd string                    \<comment> \<open>\<open>_bcd_to_str(b)\<close>\<close>
  | Ascii bytes                   \<comment> \<open>\<open>b.decode("ascii", "replace")\<close>\<close>
  | Coded nat "string option"     \<comment> \<open>\<open>f"{n} ({NAMES.get(n, reserved)})"\<close>\<close>
  | CodedX nat "string option"    \<comment> \<open>the same with \<open>0x{n:02X}\<close>\<close>
  | X2 nat                        \<comment> \<open>\<open>f"0x{n:02X}"\<close>\<close>
  | X4 nat                        \<comment> \<open>\<open>f"0x{n:04X}"\<close>\<close>
  | Reserved nat                  \<comment> \<open>\<open>f"reserved({n})"\<close>\<close>
  | RateT nat bool                \<comment> \<open>a rate, in kbps if True\<close>
  | DateX "nat list"              \<comment> \<open>a date of bytes printed \<open>:02X\<close>\<close>
  | DateB "string list"           \<comment> \<open>a date of \<open>_bcd_to_str\<close> texts\<close>
  | FnT nat                       \<comment> \<open>\<open>f"F{n}"\<close>\<close>
  | Fns "nat list"                \<comment> \<open>the list of supported units\<close>
  | Topology nat nat              \<comment> \<open>level and role\<close>
  | Lines "nat list"              \<comment> \<open>phase numbers joined by plus signs\<close>

datatype item = Item (it_name: string) (it_index: "nat list") (it_value: shown) (it_hex: hexed)
  (it_desc: "(string \<times> shown) list")

text \<open>The calls of \<open>add\<close> that come again and again.\<close>

definition num_item :: "string \<Rightarrow> nat list \<Rightarrow> byte \<Rightarrow> item" where
  "num_item name is b = Item name is (Dec (unat b)) (H2 (unat b)) []"

definition qty_item :: "string \<Rightarrow> byte \<Rightarrow> string \<Rightarrow> item" where
  "qty_item name b u = Item name [] (Qty (unat b) u) (H2 (unat b)) []"

definition bcd_item :: "string \<Rightarrow> nat list \<Rightarrow> bytes \<Rightarrow> item" where
  "bcd_item name is bs = Item name is (Bcd (bcd_to_str bs)) (Hs bs) []"

definition hex_item :: "string \<Rightarrow> nat list \<Rightarrow> bytes \<Rightarrow> item" where
  "hex_item name is bs = Item name is (HexT bs) (Hs bs) []"

definition word_item :: "string \<Rightarrow> bytes \<Rightarrow> nat \<Rightarrow> item" where
  "word_item name bs n = Item name [] (Dec n) (Hs bs) []"

definition PROTOCOL_TYPE_NAMES :: "nat \<Rightarrow> string option" where
  "PROTOCOL_TYPE_NAMES = map_of [(0, ''transparent''), (1, ''DL/T 645-1997''), (2, ''DL/T 645-2007''),
     (3, ''DL/T 698.45''), (4, ''sub-node power event''), (5, ''refused nodes report'')]"

definition proto_item :: "string \<Rightarrow> nat list \<Rightarrow> byte \<Rightarrow> item" where
  "proto_item name is b =
     Item name is (CodedX (unat b) (PROTOCOL_TYPE_NAMES (unat b))) (H2 (unat b)) []"

text \<open>\<open>NAMES.get(n, f"reserved({n})")\<close>\<close>

definition named :: "(nat \<Rightarrow> string option) \<Rightarrow> nat \<Rightarrow> shown" where
  "named tab n = (case tab n of Some t \<Rightarrow> Txt t | None \<Rightarrow> Reserved n)"

text \<open>\<open>b[0] | (b[1] << 8)\<close> of a slice, which raises when the slice is short.\<close>

definition word_at :: "bytes \<Rightarrow> nat \<Rightarrow> nat option" where
  "word_at data i = le16 (py_slice data i (i + 2)) 0"

definition rate_at :: "bytes \<Rightarrow> nat \<Rightarrow> shown option" where
  "rate_at data i = do { w \<leftarrow> word_at data i; Some (RateT (w AND 0x7FFF) (drop_bit 15 w \<noteq> 0)) }"

definition DENY_ERROR_NAMES :: "nat \<Rightarrow> string option" where
  "DENY_ERROR_NAMES = map_of [(0, ''timeout''), (1, ''invalid data unit''), (2, ''wrong length''),
     (3, ''check failed''), (4, ''no such information class''), (5, ''wrong format''),
     (6, ''duplicate meter''), (7, ''no such meter''), (8, ''meter does not answer''),
     (9, ''master busy''), (10, ''command not supported''), (11, ''sub-node does not answer''),
     (12, ''sub-node not in the network''), (109, ''too many at once''),
     (110, ''too many messages in a frame''), (111, ''meter is being read'')]"

definition DEVICE_TYPE_NAMES :: "nat \<Rightarrow> string option" where
  "DEVICE_TYPE_NAMES = map_of [(0, ''collector''), (1, ''meter''), (2, ''HPLC unit''),
     (3, ''narrow-band unit''), (4, ''radio unit''), (5, ''radio and HPLC unit''),
     (6, ''radio and narrow-band unit'')]"

definition BROADCAST_CTRL_NAMES :: "nat \<Rightarrow> string option" where
  "BROADCAST_CTRL_NAMES = map_of [(0, ''transparent''), (1, ''DL/T 645-1997''), (2, ''DL/T 645-2007''),
     (3, ''phase identification'')]"

definition BAND_NAMES :: "nat \<Rightarrow> string option" where
  "BAND_NAMES = map_of [(0, ''1.953-11.96MHz''), (1, ''2.441-5.615MHz''), (2, ''0.781-2.930MHz''),
     (3, ''1.758-2.930MHz'')]"

definition POWER_NAMES :: "nat \<Rightarrow> string option" where
  "POWER_NAMES = map_of [(0, ''highest''), (1, ''high''), (2, ''low''), (3, ''lowest'')]"

definition WORK_STEP_NAMES :: "nat \<Rightarrow> string option" where
  "WORK_STEP_NAMES = map_of [(1, ''initial''), (2, ''direct''), (3, ''relay''), (4, ''monitor''),
     (5, ''broadcast''), (6, ''broadcast read''), (7, ''listen''), (8, ''idle'')]"

definition NODE_ROLE_NAMES :: "nat \<Rightarrow> string option" where
  "NODE_ROLE_NAMES = map_of [(0, ''invalid''), (1, ''STA''), (2, ''PCO''), (4, ''CCO'')]"

definition PIPELINE_DEV_NAMES :: "nat \<Rightarrow> string option" where
  "PIPELINE_DEV_NAMES = map_of [(1, ''reader''), (2, ''CCO''), (3, ''meter unit''), (4, ''repeater''),
     (5, ''collector II''), (6, ''collector I''), (7, ''three-phase unit'')]"

definition FILE_ID_NAMES :: "nat \<Rightarrow> string option" where
  "FILE_ID_NAMES = map_of [(0, ''clear files''), (3, ''local module''), (7, ''master and sub-nodes''),
     (8, ''sub-nodes'')]"

definition ID_FORMAT_NAMES :: "nat \<Rightarrow> string option" where
  "ID_FORMAT_NAMES = map_of [(0, ''combined''), (1, ''BCD''), (2, ''BIN''), (3, ''ASCII'')]"

definition ROUTE_TASK_CHANGE :: "nat \<Rightarrow> string option" where
  "ROUTE_TASK_CHANGE = map_of [(1, ''reading done''), (2, ''search done''), (3, ''area identification done'')]"

definition POWER_EVENT_NAMES :: "nat \<Rightarrow> string option" where
  "POWER_EVENT_NAMES = map_of [(1, ''power off''), (2, ''power on'')]"

definition decode_id :: "bytes \<Rightarrow> nat \<Rightarrow> shown" where
  "decode_id b fmt =
     (if fmt = 1 then Bcd (bcd_to_str b) else if fmt = 3 then Ascii b else HexT b)"

text \<open>
  A loop over records of w bytes from the front of \<open>rest\<close>: n rounds, fewer where the next
  record is cut short. The body gets the number of the record, from 1 on, and its bytes; the
  result is the fields and what is left.
\<close>

fun recs :: "nat \<Rightarrow> (nat \<Rightarrow> bytes \<Rightarrow> item list option) \<Rightarrow> nat \<Rightarrow> nat \<Rightarrow> bytes
    \<Rightarrow> (item list \<times> bytes) option" where
  "recs w f i 0 rest = Some ([], rest)"
| "recs w f i (Suc n) rest =
     (if length rest < w then Some ([], rest)
      else do { xs \<leftarrow> f i (take w rest);
                (ys, r) \<leftarrow> recs w f (Suc i) n (drop w rest);
                Some (xs @ ys, r) })"

definition records :: "nat \<Rightarrow> (nat \<Rightarrow> bytes \<Rightarrow> item list option) \<Rightarrow> nat \<Rightarrow> bytes \<Rightarrow> item list option" where
  "records w f n rest = map_option fst (recs w f 1 n rest)"

section \<open>Confirmation, initialisation, forwarding\<close>

definition items_00 :: "nat \<Rightarrow> bytes \<Rightarrow> item list option" where
  "items_00 fn data =
     (if fn = 1 \<and> 6 \<le> length data then
        do { let ch_status = py_slice data 0 4;
             wait \<leftarrow> word_at data 4;
             b0 \<leftarrow> py_at ch_status 0;
             let cmd_state = (if drop_bit 7 (unat b0) AND 1 \<noteq> 0 then ''processed'' else ''not processed'');
             Some [Item ''command state'' [] (Txt cmd_state) (Hs ch_status) [],
                   hex_item ''channel state'' [] ch_status,
                   Item ''waiting time'' [] (Qty wait ''s'') (H4 wait) []] }
      else if fn = 2 \<and> 1 \<le> length data then
        do { err \<leftarrow> py_at data 0;
             Some [Item ''error word'' [] (Coded (unat err) (DENY_ERROR_NAMES (unat err)))
                     (H2 (unat err)) []] }
      else Some [])"

definition INIT_NAMES :: "nat \<Rightarrow> string option" where
  "INIT_NAMES = map_of [(1, ''hardware reset''), (2, ''parameter area''), (3, ''data area'')]"

definition items_01 :: "nat \<Rightarrow> bytes \<Rightarrow> item list option" where
  "items_01 fn data =
     Some [Item ''initialisation'' []
             (case INIT_NAMES fn of Some t \<Rightarrow> Txt t | None \<Rightarrow> FnT fn) NoHex []]"

definition items_02 :: "nat \<Rightarrow> bytes \<Rightarrow> item list option" where
  "items_02 fn data =
     (if fn = 1 \<and> 2 \<le> length data then
        do { proto \<leftarrow> py_at data 0; plen \<leftarrow> py_at data 1;
             let payload = py_slice data 2 (2 + unat plen);
             Some [proto_item ''protocol'' [] proto, qty_item ''message length'' plen ''B'',
                   hex_item ''forwarded message'' [] payload] }
      else Some [])"

section \<open>Queries (AFN 03)\<close>

text \<open>A listened node of F3: address, quality and relay level in one byte, listen count.\<close>

definition listened_node :: "nat \<Rightarrow> bytes \<Rightarrow> item list option" where
  "listened_node i d =
     do { q \<leftarrow> py_at d 6; c \<leftarrow> py_at d 7;
          Some [bcd_item ''node address'' [i] (py_slice d 0 6),
                Item ''node signal quality'' [i] (Dec (drop_bit 4 (unat q))) (H2 (unat q)) [],
                Item ''node relay level'' [i] (Dec (unat q AND 0x0F)) NoHex [],
                num_item ''node listen count'' [i] c] }"

definition rate_item :: "nat \<Rightarrow> bytes \<Rightarrow> item list option" where
  "rate_item i d = do { r \<leftarrow> rate_at d 0; Some [Item ''rate'' [i] r (Hs (py_slice d 0 2)) []] }"

definition items_03a :: "bool \<Rightarrow> nat \<Rightarrow> bytes \<Rightarrow> item list option" where
  "items_03a up fn data =
     (if fn = 1 \<and> 9 \<le> length data then
        do { day \<leftarrow> py_at data 4; month \<leftarrow> py_at data 5; year \<leftarrow> py_at data 6;
             let ver = py_slice data 7 9;
             v0 \<leftarrow> py_at ver 0; v1 \<leftarrow> py_at ver 1;
             Some [Item ''vendor'' [] (Ascii (py_slice data 0 2)) (Hs (py_slice data 0 2)) [],
                   Item ''chip'' [] (Ascii (py_slice data 2 4)) (Hs (py_slice data 2 4)) [],
                   Item ''version date'' [] (DateX [unat year, unat month, unat day])
                     (HSp [day, month, year]) [],
                   Item ''version'' [] (DateX [unat v0, unat v1]) (Hs ver) []] }
      else if fn = 2 \<and> 1 \<le> length data then
        do { b \<leftarrow> py_at data 0;
             Some [Item ''noise'' [] (Dec (unat b AND 0x0F)) (H2 (unat b)) []] }
      else if fn = 3 \<and> 2 \<le> length data then
        do { b0 \<leftarrow> py_at data 0; b1 \<leftarrow> py_at data 1;
             if \<not> up then
               Some [num_item ''first node'' [] b0, num_item ''node count'' [] b1]
             else do {
               xs \<leftarrow> records 8 listened_node (unat b1) (drop 2 data);
               Some ([num_item ''nodes in all'' [] b0, num_item ''nodes in this frame'' [] b1] @ xs) } }
      else if fn = 4 \<and> 6 \<le> length data then Some [bcd_item ''master address'' [] (py_slice data 0 6)]
      else if fn = 5 \<and> 2 \<le> length data then
        do { st \<leftarrow> py_at data 0; b1 \<leftarrow> py_at data 1;
             let n = unat st AND 0x0F;
             xs \<leftarrow> records 2 rate_item n (drop 2 data);
             Some (Item ''master state'' [] (HexT (py_slice data 0 2)) (Hs (py_slice data 0 2))
                     [(''mode'', Dec (drop_bit 6 (unat st) AND 3)),
                      (''channel'', Dec (drop_bit 4 (unat st) AND 3)),
                      (''rates'', Dec n), (''channels'', Dec (unat b1 AND 0x0F))] # xs) }
      else if fn = 6 \<and> 1 \<le> length data then
        do { b \<leftarrow> py_at data 0;
             Some [if \<not> up then qty_item ''duration'' b ''min''
                   else Item ''interference'' [] (Txt (if b \<noteq> 0 then ''yes'' else ''no'')) (H2 (unat b)) []] }
      else if fn = 7 \<and> 1 \<le> length data then
        do { b \<leftarrow> py_at data 0; Some [qty_item ''longest timeout'' b ''s''] }
      else if fn = 8 \<and> 2 \<le> length data then
        do { b0 \<leftarrow> py_at data 0; b1 \<leftarrow> py_at data 1;
             Some [num_item ''radio channel'' [] b0, num_item ''radio power'' [] b1] }
      else Some [])"

text \<open>A protocol byte, a length byte and as much of the message as is there.\<close>

definition message_items :: "string \<Rightarrow> bytes \<Rightarrow> nat \<Rightarrow> item list option" where
  "message_items name data i =
     do { proto \<leftarrow> py_at data i; plen \<leftarrow> py_at data (i + 1);
          Some [proto_item ''protocol'' [] proto, qty_item ''message length'' plen ''B'',
                hex_item name [] (py_slice data (i + 2) (i + 2 + unat plen))] }"

definition bcd_pair :: "bytes \<Rightarrow> nat \<Rightarrow> string" where
  "bcd_pair d i = bcd_to_str (py_slice d i (i + 1))"

definition mode_items :: "bytes \<Rightarrow> item list option" where
  "mode_items d =
     do { b6 \<leftarrow> py_at d 6; bt \<leftarrow> word_at d 7; mf \<leftarrow> word_at d 9; mp \<leftarrow> word_at d 11; b13 \<leftarrow> py_at d 13;
          mn \<leftarrow> word_at d 20; cn \<leftarrow> word_at d 22;
          xs \<leftarrow> records 2 rate_item (length d) (drop 39 d);
          Some ([qty_item ''monitor timeout'' b6 ''s'',
             Item ''broadcast timeout'' [] (Qty bt ''s'') (Hs (py_slice d 7 9)) [],
             Item ''longest message'' [] (Qty mf ''B'') (Hs (py_slice d 9 11)) [],
             Item ''longest file packet'' [] (Qty mp ''B'') (Hs (py_slice d 11 13)) [],
             qty_item ''upgrade wait'' b13 ''s'',
             bcd_item ''master address'' [] (py_slice d 14 20),
             word_item ''largest node count'' (py_slice d 20 22) mn,
             word_item ''node count'' (py_slice d 22 24) cn,
             Item ''published'' [] (DateB [bcd_pair d 24, bcd_pair d 25, bcd_pair d 26])
               (Hs (py_slice d 24 27)) [],
             Item ''registered'' [] (DateB [bcd_pair d 27, bcd_pair d 28, bcd_pair d 29])
               (Hs (py_slice d 27 30)) [],
             hex_item ''vendor and version'' [] (py_slice d 30 39)] @ xs) }"

text \<open>The units of a bitmap of 32 bytes: bit i of the map is unit i + 1, for i below 255.\<close>

definition supported_fns :: "bytes \<Rightarrow> nat list" where
  "supported_fns bitmap =
     map Suc (filter (\<lambda>i. drop_bit (i AND 7) (unat (bitmap ! drop_bit 3 i)) AND 1 \<noteq> 0) [0..<255])"

definition items_03b :: "bool \<Rightarrow> nat \<Rightarrow> bytes \<Rightarrow> item list option" where
  "items_03b up fn data =
     (if fn = 9 \<and> 2 \<le> length data then
        (if \<not> up then message_items ''message'' data 0
         else do { w \<leftarrow> word_at data 0;
                   xs \<leftarrow> (if 4 \<le> length data then message_items ''message'' data 2 else Some []);
                   Some (Item ''broadcast delay'' [] (Qty w ''s'') (Hs (py_slice data 0 2)) [] # xs) })
      else if fn = 10 \<and> 6 \<le> length data then
        do { xs \<leftarrow> (if 39 \<le> length data then mode_items data else Some []);
             Some (hex_item ''mode word'' [] (py_slice data 0 6) # xs) }
      else if fn = 11 \<and> 1 \<le> length data then
        do { b \<leftarrow> py_at data 0;
             let bitmap = py_slice data 1 33;
             Some (Item ''AFN'' [] (X2 (unat b)) (H2 (unat b)) [] #
                   (if up \<and> 33 \<le> length data
                    then [Item ''supported units'' [] (Fns (supported_fns bitmap)) (Hs bitmap) []]
                    else [])) }
      else if fn = 12 \<and> 4 \<le> length data then
        do { idlen \<leftarrow> py_at data 2; idfmt \<leftarrow> py_at data 3;
             let mid = py_slice data 4 (4 + unat idlen);
             Some [Item ''module vendor'' [] (Ascii (py_slice data 0 2)) (Hs (py_slice data 0 2)) [],
                   num_item ''ID length'' [] idlen,
                   Item ''ID format'' [] (named ID_FORMAT_NAMES (unat idfmt)) (H2 (unat idfmt)) [],
                   Item ''ID'' [] (decode_id mid (unat idfmt)) (Hs mid) []] }
      else if fn = 16 \<and> 1 \<le> length data then
        do { b \<leftarrow> py_at data 0;
             Some [Item ''band'' [] (Coded (unat b) (BAND_NAMES (unat b))) (H2 (unat b)) []] }
      else if fn = 100 \<and> 1 \<le> length data then
        do { b \<leftarrow> py_at data 0; Some [num_item ''threshold'' [] b] }
      else Some [])"

definition items_03 :: "bool \<Rightarrow> nat \<Rightarrow> bytes \<Rightarrow> item list option" where
  "items_03 up fn data = (if fn \<le> 8 then items_03a up fn data else items_03b up fn data)"

section \<open>Link test and control (AFN 04 and 05)\<close>

definition items_04 :: "nat \<Rightarrow> bytes \<Rightarrow> item list option" where
  "items_04 fn data =
     (if fn = 1 \<and> 1 \<le> length data then
        do { b \<leftarrow> py_at data 0;
             Some [Item ''duration'' [] (if b = 0 then Txt ''stop'' else Qty (unat b) ''s'') (H2 (unat b)) []] }
      else if fn = 2 then Some [Item ''roll call'' [] (Txt ''no data unit'') NoHex []]
      else if fn = 3 \<and> 9 \<le> length data then
        do { rate \<leftarrow> py_at data 0; proto \<leftarrow> py_at data 7; plen \<leftarrow> py_at data 8;
             Some [num_item ''test rate'' [] rate, bcd_item ''target address'' [] (py_slice data 1 7),
                   proto_item ''protocol'' [] proto, qty_item ''message length'' plen ''B'',
                   hex_item ''message'' [] (py_slice data 9 (9 + unat plen))] }
      else Some [])"

definition allowed_item :: "string \<Rightarrow> byte \<Rightarrow> item" where
  "allowed_item name b =
     Item name [] (Txt (if b \<noteq> 0 then ''allowed'' else ''forbidden'')) (H2 (unat b)) []"

definition items_05 :: "nat \<Rightarrow> bytes \<Rightarrow> item list option" where
  "items_05 fn data =
     (if fn = 1 \<and> 6 \<le> length data then Some [bcd_item ''master address'' [] (py_slice data 0 6)]
      else if fn = 2 \<and> 1 \<le> length data then
        do { b \<leftarrow> py_at data 0; Some [allowed_item ''event reports'' b] }
      else if fn = 3 \<and> 2 \<le> length data then
        do { ctrl \<leftarrow> py_at data 0; plen \<leftarrow> py_at data 1;
             let m = py_slice data 2 (2 + unat plen);
             Some [Item ''control word'' [] (CodedX (unat ctrl) (BROADCAST_CTRL_NAMES (unat ctrl)))
                     (H2 (unat ctrl)) [],
                   qty_item ''message length'' plen ''B'', hex_item ''broadcast message'' [] m] }
      else if fn = 4 \<and> 1 \<le> length data then
        do { b \<leftarrow> py_at data 0; Some [qty_item ''longest timeout'' b ''s''] }
      else if fn = 5 \<and> 2 \<le> length data then
        do { ch \<leftarrow> py_at data 0; pw \<leftarrow> py_at data 1;
             let ch_desc = (if ch = 254 then Some ''automatic'' else if ch = 255 then Some ''unchanged''
                            else Some ''group'');
             let pw_desc = (case POWER_NAMES (unat pw) of Some t \<Rightarrow> Some t
                            | None \<Rightarrow> if pw = 255 then Some ''unchanged'' else None);
             Some [Item ''radio channel'' [] (Coded (unat ch) ch_desc) (H2 (unat ch)) [],
                   Item ''radio power'' [] (Coded (unat pw) pw_desc) (H2 (unat pw)) []] }
      else if fn = 6 \<and> 1 \<le> length data then
        do { b \<leftarrow> py_at data 0; Some [allowed_item ''area identification'' b] }
      else if fn = 16 \<and> 1 \<le> length data then
        do { b \<leftarrow> py_at data 0;
             Some [Item ''band'' [] (Coded (unat b) (BAND_NAMES (unat b))) (H2 (unat b)) []] }
      else if fn = 100 \<and> 1 \<le> length data then
        do { b \<leftarrow> py_at data 0; Some [num_item ''threshold'' [] b] }
      else if fn = 101 \<and> 6 \<le> length data then
        do { sec \<leftarrow> py_at data 0; minute \<leftarrow> py_at data 1; hour \<leftarrow> py_at data 2;
             day \<leftarrow> py_at data 3; month \<leftarrow> py_at data 4; year \<leftarrow> py_at data 5;
             Some [Item ''central time'' []
                     (DateX [unat year, unat month, unat day, unat hour, unat minute, unat sec])
                     (Hs (py_slice data 0 6)) []] }
      else if fn = 200 \<and> 1 \<le> length data then
        do { b \<leftarrow> py_at data 0; Some [allowed_item ''refused node reports'' b] }
      else Some [])"

section \<open>Reports (AFN 06)\<close>

definition reported_node :: "nat \<Rightarrow> bytes \<Rightarrow> item list option" where
  "reported_node i d =
     do { p \<leftarrow> py_at d 6; seq \<leftarrow> word_at d 7;
          Some [bcd_item ''node address'' [i] (py_slice d 0 6), proto_item ''node protocol'' [i] p,
                Item ''node number'' [i] (Dec seq) (H4 seq) []] }"

definition device_item :: "string \<Rightarrow> nat list \<Rightarrow> byte \<Rightarrow> item" where
  "device_item name is b =
     Item name is (CodedX (unat b) (DEVICE_TYPE_NAMES (unat b))) (H2 (unat b)) []"

definition attached_node :: "nat \<Rightarrow> nat \<Rightarrow> bytes \<Rightarrow> item list option" where
  "attached_node i j d =
     do { p \<leftarrow> py_at d 6;
          Some [bcd_item ''attached node address'' [i, j] (py_slice d 0 6),
                proto_item ''attached node protocol'' [i, j] p] }"

text \<open>
  The loop of F4: a node of 11 bytes; when it has attached nodes and data is left, their number
  in this frame and as many of them as are there.
\<close>

fun topology_nodes :: "nat \<Rightarrow> nat \<Rightarrow> bytes \<Rightarrow> item list option" where
  "topology_nodes i 0 rest = Some []"
| "topology_nodes i (Suc n) rest =
     (if length rest < 11 then Some []
      else do {
        p \<leftarrow> py_at rest 6; seq \<leftarrow> word_at rest 7; dt \<leftarrow> py_at rest 9; m \<leftarrow> py_at rest 10;
        let xs = [bcd_item ''node address'' [i] (py_slice rest 0 6), proto_item ''node protocol'' [i] p,
                  Item ''node number'' [i] (Dec seq) (H4 seq) [], device_item ''node device type'' [i] dt,
                  num_item ''attached nodes'' [i] m];
        let rest1 = drop 11 rest;
        (ys, rest2) \<leftarrow>
          (if 1 \<le> m \<and> rest1 \<noteq> []
           then do { mm \<leftarrow> py_at rest1 0;
                     (zs, r) \<leftarrow> recs 7 (attached_node i) 1 (unat mm) (drop 1 rest1);
                     Some (num_item ''attached nodes in this frame'' [i] mm # zs, r) }
           else Some ([], rest1));
        zs \<leftarrow> topology_nodes (Suc i) n rest2;
        Some (xs @ ys @ zs) })"

definition power_cut_meter :: "nat \<Rightarrow> bytes \<Rightarrow> item list option" where
  "power_cut_meter i d =
     do { st \<leftarrow> py_at d 6;
          Some [hex_item ''meter address'' [i] (py_slice d 0 6),
                Item ''meter power state'' [i] (Txt (if st \<noteq> 0 then ''on'' else ''off'')) (H2 (unat st)) []] }"

definition unit_address :: "nat \<Rightarrow> bytes \<Rightarrow> item list option" where
  "unit_address i d = Some [bcd_item ''unit address'' [i] d]"

definition refused_node :: "nat \<Rightarrow> bytes \<Rightarrow> item list option" where
  "refused_node i d =
     do { t \<leftarrow> py_at d 6;
          Some [hex_item ''refused node address'' [i] (py_slice d 0 6),
                Item ''refused node device type'' [i] (X2 (unat t)) (H2 (unat t)) []] }"

definition event_items :: "byte \<Rightarrow> byte \<Rightarrow> bytes \<Rightarrow> item list option" where
  "event_items dt proto content =
     (if proto = 0x04 \<and> content \<noteq> [] then
        (if dt = 0x00 then
           do { xs \<leftarrow> records 7 power_cut_meter (length content div 7) content;
                Some (Item ''event'' [] (Txt ''collector power off'') NoHex [] # xs) }
         else do { ev \<leftarrow> py_at content 0;
                   let addrs = drop 1 content;
                   xs \<leftarrow> records 6 unit_address (length addrs div 6) addrs;
                   Some (Item ''event'' [] (named POWER_EVENT_NAMES (unat ev)) (H2 (unat ev)) [] # xs) })
      else if proto = 0x05 \<and> content \<noteq> [] then
        do { n \<leftarrow> py_at content 0;
             xs \<leftarrow> records 7 refused_node (unat n) (drop 1 content);
             Some (num_item ''reported nodes'' [] n # xs) }
      else Some [])"

definition minute_report :: "bytes \<Rightarrow> item list option" where
  "minute_report data =
     do { task \<leftarrow> py_at data 0; proto \<leftarrow> py_at data 7;
          ts \<leftarrow> (if 13 \<le> length data
                then (case py_slice data 8 14 of
                        [sec, minute, hour, day, month, year] \<Rightarrow>
                          Some [Item ''collection time'' []
                                  (DateX [unat year, unat month, unat day, unat hour, unat minute, unat sec])
                                  (Hs (py_slice data 8 14)) []]
                      | _ \<Rightarrow> None)
                else Some []);
          ms \<leftarrow> (if 16 \<le> length data
                then do { plen \<leftarrow> word_at data 14;
                          Some [Item ''message length'' [] (Qty plen ''B'') (Hs (py_slice data 14 16)) [],
                                hex_item ''message'' [] (py_slice data 16 (16 + plen))] }
                else Some []);
          Some ([num_item ''task'' [] task, bcd_item ''node address'' [] (py_slice data 1 7),
                 proto_item ''protocol'' [] proto] @ ts @ ms) }"

definition items_06 :: "nat \<Rightarrow> bytes \<Rightarrow> item list option" where
  "items_06 fn data =
     (if fn = 1 \<and> 1 \<le> length data then
        do { n \<leftarrow> py_at data 0;
             xs \<leftarrow> records 9 reported_node (unat n) (drop 1 data);
             Some (num_item ''reported nodes'' [] n # xs) }
      else if fn = 2 \<and> 6 \<le> length data then
        do { seq \<leftarrow> word_at data 0; proto \<leftarrow> py_at data 2; up_len \<leftarrow> word_at data 3; plen \<leftarrow> py_at data 5;
             let payload = py_slice data 6 (6 + unat plen);
             Some [Item ''node number'' [] (Dec seq) (H4 seq) [], proto_item ''protocol'' [] proto,
                   Item ''upward time'' [] (Qty up_len ''s'') (H4 up_len) [],
                   qty_item ''message length'' plen ''B'', hex_item ''reported message'' [] payload] }
      else if fn = 3 \<and> 1 \<le> length data then
        do { b \<leftarrow> py_at data 0;
             Some [Item ''route task change'' [] (named ROUTE_TASK_CHANGE (unat b)) (H2 (unat b)) []] }
      else if fn = 4 \<and> 1 \<le> length data then
        do { n \<leftarrow> py_at data 0;
             xs \<leftarrow> topology_nodes 1 (unat n) (drop 1 data);
             Some (num_item ''reported nodes'' [] n # xs) }
      else if fn = 5 \<and> 3 \<le> length data then
        do { dt \<leftarrow> py_at data 0; proto \<leftarrow> py_at data 1; plen \<leftarrow> py_at data 2;
             let content = py_slice data 3 (3 + unat plen);
             xs \<leftarrow> event_items dt proto content;
             Some ([device_item ''device type'' [] dt, proto_item ''protocol'' [] proto,
                    qty_item ''message length'' plen ''B''] @ xs @ [hex_item ''message'' [] content]) }
      else if fn = 230 \<and> 10 \<le> length data then minute_report data
      else Some [])"

section \<open>Route queries (AFN 10)\<close>

text \<open>A node and its information word; F2, F5 and F6 show the phase and the protocol too.\<close>

definition info_node :: "bool \<Rightarrow> nat \<Rightarrow> bytes \<Rightarrow> item list option" where
  "info_node all i d =
     do { w \<leftarrow> word_at d 6;
          Some [bcd_item ''node address'' [i] (py_slice d 0 6),
                Item ''node information'' [i] (X4 w) (Hs (py_slice d 6 8))
                  ([(''quality'', Dec (drop_bit 4 w AND 0xF)), (''relay'', Dec (w AND 0xF))]
                   @ (if all then [(''phase'', Dec (drop_bit 8 w AND 0xF)),
                                   (''protocol'', Dec (drop_bit 12 w AND 0x7))] else []))] }"

definition route_state :: "bytes \<Rightarrow> item list option" where
  "route_state data =
     do { st \<leftarrow> py_at data 0; total \<leftarrow> word_at data 1; done \<leftarrow> word_at data 3; relayed \<leftarrow> word_at data 5;
          wk \<leftarrow> py_at data 7; r \<leftarrow> rate_at data 8;
          l1 \<leftarrow> py_at data 10; l2 \<leftarrow> py_at data 11; l3 \<leftarrow> py_at data 12;
          s1 \<leftarrow> py_at data 13; s2 \<leftarrow> py_at data 14; s3 \<leftarrow> py_at data 15;
          let s = unat st; k = unat wk;
              phase_step = (\<lambda>p v. Item ''work step'' [p] (Coded (unat v) (WORK_STEP_NAMES (unat v)))
                                    (H2 (unat v)) [])
          in Some [Item ''route state'' [] (X2 s) (H2 s)
               [(''error coding'', Dec (drop_bit 4 s AND 0xF)), (''event reports'', Dec (drop_bit 3 s AND 1)),
                (''working'', Dec (drop_bit 2 s AND 1)), (''route complete'', Dec (drop_bit 1 s AND 1))],
             word_item ''nodes in all'' (py_slice data 1 3) total,
             word_item ''nodes read'' (py_slice data 3 5) done,
             word_item ''nodes read by relay'' (py_slice data 5 7) relayed,
             Item ''work switch'' [] (X2 k) (H2 k)
               [(''state'', Dec (drop_bit 6 k)), (''area identification'', Dec (drop_bit 4 k AND 0x3)),
                (''event reports'', Dec (drop_bit 3 k AND 1)), (''registration'', Dec (drop_bit 2 k AND 1)),
                (''learning'', Dec (drop_bit 1 k AND 1))],
             Item ''rate'' [] r (Hs (py_slice data 8 10)) [],
             num_item ''relay level'' [1] l1, num_item ''relay level'' [2] l2, num_item ''relay level'' [3] l3,
             phase_step 1 s1, phase_step 2 s2, phase_step 3 s3] }"

text \<open>The downward form of the list queries: first number and count.\<close>

definition range_items :: "string \<Rightarrow> bytes \<Rightarrow> item list option" where
  "range_items nm data =
     do { start \<leftarrow> word_at data 0; n \<leftarrow> py_at data 2;
          Some [word_item (nm @ '' first number'') (py_slice data 0 2) start, num_item (nm @ '' count'') [] n] }"

text \<open>The upward form with a total, a count and records of w bytes from byte 3 on.\<close>

definition listed :: "string \<Rightarrow> nat \<Rightarrow> (nat \<Rightarrow> bytes \<Rightarrow> item list option) \<Rightarrow> bytes \<Rightarrow> item list option" where
  "listed nm w f data =
     do { total \<leftarrow> word_at data 0; n \<leftarrow> py_at data 2;
          xs \<leftarrow> records w f (unat n) (drop 3 data);
          Some ([word_item (nm @ '' total'') (py_slice data 0 2) total,
                 num_item (nm @ '' count in this frame'') [] n] @ xs) }"

text \<open>The upward form of F21, F31 and F112, which has a first number before the count.\<close>

definition listed_from :: "string \<Rightarrow> nat \<Rightarrow> (nat \<Rightarrow> bytes \<Rightarrow> item list option) \<Rightarrow> bytes \<Rightarrow> item list option" where
  "listed_from nm w f data =
     do { total \<leftarrow> word_at data 0; start \<leftarrow> word_at data 2; n \<leftarrow> py_at data 4;
          xs \<leftarrow> records w f (unat n) (drop 5 data);
          Some ([word_item (nm @ '' total'') (py_slice data 0 2) total,
                 word_item (nm @ '' first number'') (py_slice data 2 4) start,
                 num_item (nm @ '' count in this frame'') [] n] @ xs) }"

definition MODULE_KIND :: "nat \<Rightarrow> string option" where
  "MODULE_KIND = map_of [(0, ''meter module''), (1, ''collector module''), (15, ''unknown'')]"

text \<open>The loop of F7, whose records end with an identifier of announced length.\<close>

fun id_nodes :: "nat \<Rightarrow> nat \<Rightarrow> bytes \<Rightarrow> item list option" where
  "id_nodes i 0 rest = Some []"
| "id_nodes i (Suc n) rest =
     (if length rest < 11 then Some []
      else do {
        nt \<leftarrow> py_at rest 6; idlen \<leftarrow> py_at rest 9; idfmt \<leftarrow> py_at rest 10;
        let mid = py_slice rest 11 (11 + unat idlen);
        let xs = [hex_item ''node address'' [i] (py_slice rest 0 6),
                  Item ''node type'' [i] (X2 (unat nt)) (H2 (unat nt))
                    [(''updated'', Dec (drop_bit 7 (unat nt) AND 1)),
                     (''module'', case MODULE_KIND (unat nt AND 0xF) of
                                    Some t \<Rightarrow> Txt t | None \<Rightarrow> Dec (unat nt AND 0xF))],
                  Item ''module vendor'' [i] (Ascii (py_slice rest 7 9)) (Hs (py_slice rest 7 9)) [],
                  num_item ''ID length'' [i] idlen,
                  Item ''ID format'' [i] (named ID_FORMAT_NAMES (unat idfmt)) (H2 (unat idfmt)) [],
                  Item ''ID'' [i] (decode_id mid (unat idfmt)) (Hs mid) []];
        ys \<leftarrow> id_nodes (Suc i) n (drop (11 + unat idlen) rest);
        Some (xs @ ys) })"

definition items_10a :: "bool \<Rightarrow> nat \<Rightarrow> bytes \<Rightarrow> item list option" where
  "items_10a up fn data =
     (if fn = 1 \<and> 4 \<le> length data then
        do { t \<leftarrow> word_at data 0; m \<leftarrow> word_at data 2;
             Some [word_item ''nodes in all'' (py_slice data 0 2) t,
                   word_item ''largest node count'' (py_slice data 2 4) m] }
      else if (fn = 2 \<or> fn = 5 \<or> fn = 6) \<and> 3 \<le> length data then
        (let nm = (if fn = 2 then ''sub-node'' else if fn = 5 then ''unread sub-node''
                   else ''registered sub-node'')
         in if \<not> up then range_items nm data else listed nm 8 (info_node True) data)
      else if fn = 3 then
        (if \<not> up \<and> 6 \<le> length data then Some [bcd_item ''node address'' [] (py_slice data 0 6)]
         else if up \<and> 1 \<le> length data then
           do { n \<leftarrow> py_at data 0;
                xs \<leftarrow> records 8 (info_node False) (unat n) (drop 1 data);
                Some (num_item ''routing nodes'' [] n # xs) }
         else Some [])
      else if fn = 4 \<and> 17 \<le> length data then route_state data
      else if fn = 7 \<and> 3 \<le> length data then
        (if \<not> up then range_items ''sub-node'' data
         else do { t \<leftarrow> word_at data 0; n \<leftarrow> py_at data 2;
                   xs \<leftarrow> id_nodes 1 (unat n) (drop 3 data);
                   Some ([word_item ''sub-node total'' (py_slice data 0 2) t,
                          num_item ''sub-node count in this frame'' [] n] @ xs) })
      else Some [])"

definition topology_node :: "nat \<Rightarrow> bytes \<Rightarrow> item list option" where
  "topology_node i d =
     do { tei \<leftarrow> word_at d 6; proxy \<leftarrow> word_at d 8; info \<leftarrow> py_at d 10;
          let role = drop_bit 4 (unat info);
          Some [hex_item ''node address'' [i] (py_slice d 0 6),
                Item ''node TEI'' [i] (Dec tei) (H4 tei) [],
                Item ''node proxy'' [i] (Dec proxy) (H4 proxy) [],
                Item ''node topology'' [i] (Topology (unat info AND 0xF) role) (H2 (unat info)) []] }"

definition phase_node :: "nat \<Rightarrow> bytes \<Rightarrow> item list option" where
  "phase_node i d =
     do { w \<leftarrow> word_at d 6;
          let phases = map Suc (filter (\<lambda>p. drop_bit p w AND 1 \<noteq> 0) [0, 1, 2]);
          Some [hex_item ''node address'' [i] (py_slice d 0 6),
                Item ''node phases'' [i] (X4 w) (Hs (py_slice d 6 8))
                  [(''phases'', Lines phases), (''three-phase'', Dec (drop_bit 4 w AND 1)),
                   (''line fault'', Dec (drop_bit 5 w AND 1)), (''sequence'', Dec (drop_bit 5 w AND 7))]] }"

definition version_node :: "nat \<Rightarrow> bytes \<Rightarrow> item list option" where
  "version_node i d =
     do { xs \<leftarrow> info_node False i d;
          Some (xs @ [hex_item ''node version'' [i] (py_slice d 8 11)]) }"

definition chip_node :: "nat \<Rightarrow> bytes \<Rightarrow> item list option" where
  "chip_node i d =
     do { t \<leftarrow> py_at d 6;
          Some [hex_item ''node address'' [i] (py_slice d 0 6),
                Item ''node device type'' [i] (X2 (unat t)) (H2 (unat t)) [],
                hex_item ''node chip ID'' [i] (py_slice d 7 31),
                bcd_item ''node chip version'' [i] (py_slice d 31 33)] }"

text \<open>\<open>int.from_bytes(b, 'little')\<close>\<close>

fun from_le :: "bytes \<Rightarrow> nat" where
  "from_le [] = 0"
| "from_le (b # bs) = unat b + 256 * from_le bs"

definition neighbour :: "nat \<Rightarrow> bytes \<Rightarrow> item list option" where
  "neighbour i d = Some [Item ''neighbour network'' [i] (Dec (from_le d)) (Hs d) []]"

definition ID_KIND :: "nat \<Rightarrow> string option" where
  "ID_KIND = map_of [(1, ''chip ID (24)''), (2, ''module ID (11)'')]"

definition items_10b :: "bool \<Rightarrow> nat \<Rightarrow> bytes \<Rightarrow> item list option" where
  "items_10b up fn data =
     (if fn = 9 \<and> 2 \<le> length data then
        do { w \<leftarrow> word_at data 0; Some [word_item ''network size'' (py_slice data 0 2) w] }
      else if fn = 21 \<and> 3 \<le> length data then
        (if \<not> up then range_items ''node'' data else listed_from ''node'' 11 topology_node data)
      else if fn = 31 \<and> 3 \<le> length data then
        (if \<not> up then range_items ''node'' data else listed_from ''node'' 8 phase_node data)
      else if fn = 40 \<and> 8 \<le> length data then
        do { t \<leftarrow> py_at data 0; k \<leftarrow> py_at data 7;
             ids \<leftarrow> (if up \<and> 9 \<le> length data
                    then do { idlen \<leftarrow> py_at data 8;
                              Some [num_item ''ID length'' [] idlen,
                                    hex_item ''ID'' [] (py_slice data 9 (9 + unat idlen))] }
                    else Some []);
             Some ([Item ''device type'' [] (Coded (unat t) (PIPELINE_DEV_NAMES (unat t))) (H2 (unat t)) [],
                    hex_item ''node address'' [] (py_slice data 1 7),
                    Item ''ID kind'' [] (Coded (unat k) (ID_KIND (unat k))) (H2 (unat k)) []] @ ids) }
      else if fn = 100 \<and> 2 \<le> length data then
        do { w \<leftarrow> word_at data 0; Some [word_item ''network size'' (py_slice data 0 2) w] }
      else if fn = 101 \<and> 3 \<le> length data then
        (if \<not> up then range_items ''sub-node'' data else listed ''sub-node'' 11 version_node data)
      else if fn = 104 \<and> data \<noteq> [] then Some [hex_item ''application data'' [] data]
      else if fn = 111 \<and> 10 \<le> length data then
        do { n \<leftarrow> py_at data 0;
             xs \<leftarrow> records 3 neighbour (unat n - 1) (drop 10 data);
             Some ([num_item ''networks'' [] n,
                    Item ''own network'' [] (Dec (from_le (py_slice data 1 4))) (Hs (py_slice data 1 4)) [],
                    hex_item ''own master address'' [] (py_slice data 4 10)] @ xs) }
      else if fn = 112 \<and> 3 \<le> length data then
        (if \<not> up then range_items ''node'' data else listed_from ''node'' 33 chip_node data)
      else Some [])"

definition items_10 :: "bool \<Rightarrow> nat \<Rightarrow> bytes \<Rightarrow> item list option" where
  "items_10 up fn data = (if fn \<le> 7 then items_10a up fn data else items_10b up fn data)"

section \<open>Route settings and control (AFN 11 and 12)\<close>

definition added_node :: "nat \<Rightarrow> bytes \<Rightarrow> item list option" where
  "added_node i d =
     do { p \<leftarrow> py_at d 6;
          Some [bcd_item ''node address'' [i] (py_slice d 0 6), proto_item ''node protocol'' [i] p] }"

definition address_record :: "string \<Rightarrow> nat \<Rightarrow> bytes \<Rightarrow> item list option" where
  "address_record name i d = Some [bcd_item name [i] d]"

definition bcd_clock :: "bytes \<Rightarrow> shown" where
  "bcd_clock data =
     DateB [bcd_pair data 5, bcd_pair data 4, bcd_pair data 3, bcd_pair data 2, bcd_pair data 1,
            bcd_pair data 0]"

definition ROUTE_COMMANDS :: "nat \<Rightarrow> string option" where
  "ROUTE_COMMANDS = map_of [(6, ''end registration''), (101, ''start maintenance''), (102, ''start networking'')]"

definition items_11 :: "nat \<Rightarrow> bytes \<Rightarrow> item list option" where
  "items_11 fn data =
     (if fn = 1 \<and> 1 \<le> length data then
        do { n \<leftarrow> py_at data 0;
             xs \<leftarrow> records 7 added_node (length data) (drop 1 data);
             Some (num_item ''node count or flag'' [] n # xs) }
      else if fn = 2 \<and> 1 \<le> length data then
        do { n \<leftarrow> py_at data 0;
             xs \<leftarrow> records 6 (address_record ''node address'') (unat n) (drop 1 data);
             Some (num_item ''node count'' [] n # xs) }
      else if fn = 3 \<and> 7 \<le> length data then
        do { lv \<leftarrow> py_at data 6;
             xs \<leftarrow> records 6 (address_record ''relay address'') (unat lv) (drop 7 data);
             Some ([bcd_item ''node address'' [] (py_slice data 0 6), num_item ''relay level'' [] lv] @ xs) }
      else if fn = 4 \<and> 3 \<le> length data then
        do { mode \<leftarrow> py_at data 0; r \<leftarrow> rate_at data 1;
             let m = unat mode;
             Some [Item ''work mode'' [] (X2 m) (H2 m)
                     [(''error coding'', Dec (drop_bit 4 m AND 0xF)),
                      (''registration'', Dec (drop_bit 1 m AND 1)), (''learning'', Dec (m AND 1))],
                   Item ''rate'' [] r (Hs (py_slice data 1 3)) []] }
      else if fn = 5 \<and> 10 \<le> length data then
        do { dur \<leftarrow> word_at data 6; b8 \<leftarrow> py_at data 8; b9 \<leftarrow> py_at data 9;
             Some [Item ''start time'' [] (bcd_clock data) (Hs (py_slice data 0 6)) [],
                   Item ''duration'' [] (Qty dur ''min'') (Hs (py_slice data 6 8)) [],
                   num_item ''retries'' [] b8, num_item ''waiting slices'' [] b9] }
      else if fn = 100 \<and> 2 \<le> length data then
        do { w \<leftarrow> word_at data 0; Some [word_item ''network size'' (py_slice data 0 2) w] }
      else case ROUTE_COMMANDS fn of
        Some t \<Rightarrow> Some [Item ''route command'' [] (Txt t) NoHex []]
      | None \<Rightarrow> Some [])"

definition ROUTE_CONTROL :: "nat \<Rightarrow> string option" where
  "ROUTE_CONTROL = map_of [(1, ''restart''), (2, ''pause''), (3, ''resume'')]"

definition items_12 :: "nat \<Rightarrow> bytes \<Rightarrow> item list option" where
  "items_12 fn data =
     Some [Item ''route control'' []
             (case ROUTE_CONTROL fn of Some t \<Rightarrow> Txt t | None \<Rightarrow> FnT fn) NoHex []]"

section \<open>Forwarding, reading, files, concurrent reading (AFN 13, 14, 15 and F1)\<close>

definition flag_item :: "string \<Rightarrow> byte \<Rightarrow> item" where
  "flag_item name b = Item name [] (Txt (if b \<noteq> 0 then ''related'' else ''unrelated'')) (H2 (unat b)) []"

definition items_13 :: "bool \<Rightarrow> bytes \<Rightarrow> item list option" where
  "items_13 up data =
     (if \<not> up \<and> 3 \<le> length data then
        do { proto \<leftarrow> py_at data 0; delay \<leftarrow> py_at data 1; n \<leftarrow> py_at data 2;
             (xs, rest) \<leftarrow> recs 6 (address_record ''attached node address'') 1 (unat n) (drop 3 data);
             ys \<leftarrow> (if rest \<noteq> []
                   then do { plen \<leftarrow> py_at rest 0;
                             Some [qty_item ''message length'' plen ''B'',
                                   hex_item ''message'' [] (py_slice rest 1 (1 + unat plen))] }
                   else Some []);
             Some ([proto_item ''protocol'' [] proto, flag_item ''delay'' delay,
                    num_item ''attached nodes'' [] n] @ xs @ ys) }
      else if up \<and> 4 \<le> length data then
        do { t \<leftarrow> word_at data 0; xs \<leftarrow> message_items ''message'' data 2;
             Some (Item ''upward time'' [] (Qty t ''s'') (Hs (py_slice data 0 2)) [] # xs) }
      else Some [])"

definition PHASE_NAMES :: "nat \<Rightarrow> string option" where
  "PHASE_NAMES = map_of [(0, ''unknown phase''), (1, ''phase 1''), (2, ''phase 2''), (3, ''phase 3'')]"

definition READ_FLAGS :: "nat \<Rightarrow> string option" where
  "READ_FLAGS = map_of [(0, ''failed''), (1, ''succeeded''), (2, ''may be read'')]"

definition ITEM_KINDS :: "nat \<Rightarrow> string option" where
  "ITEM_KINDS = map_of [(1, ''DL/T645-2007''), (2, ''DL/T698.45'')]"

definition items_14 :: "bool \<Rightarrow> nat \<Rightarrow> bytes \<Rightarrow> item list option" where
  "items_14 up fn data =
     (if fn = 1 then
        (if up \<and> 9 \<le> length data then
           do { b0 \<leftarrow> py_at data 0; seq \<leftarrow> word_at data 7;
                Some [Item ''phase'' [] (named PHASE_NAMES (unat b0)) (H2 (unat b0)) [],
                      bcd_item ''node address'' [] (py_slice data 1 7),
                      word_item ''node number'' (py_slice data 7 9) seq] }
         else if \<not> up \<and> 3 \<le> length data then
           do { flag \<leftarrow> py_at data 0; delay \<leftarrow> py_at data 1; ln \<leftarrow> py_at data 2;
                let rest = drop (3 + unat ln) data;
                xs \<leftarrow> (if rest \<noteq> []
                      then do { n \<leftarrow> py_at rest 0;
                                ys \<leftarrow> records 6 (address_record ''attached node address'') (unat n) (drop 1 rest);
                                Some (num_item ''attached nodes'' [] n # ys) }
                      else Some []);
                Some ([Item ''read flag'' [] (named READ_FLAGS (unat flag)) (H2 (unat flag)) [],
                       flag_item ''delay'' delay, qty_item ''request length'' ln ''B'',
                       hex_item ''request'' [] (py_slice data 3 (3 + unat ln))] @ xs) }
         else Some [])
      else if fn = 2 then
        (if \<not> up \<and> 6 \<le> length data
         then Some [Item ''concentrator time'' [] (bcd_clock data) (Hs (py_slice data 0 6)) []] else Some [])
      else if fn = 3 then
        (if up \<and> 9 \<le> length data then
           do { delay \<leftarrow> word_at data 6; ln \<leftarrow> py_at data 8;
                Some [bcd_item ''node address'' [] (py_slice data 0 6),
                      Item ''expected delay'' [] (Qty delay ''s'') (Hs (py_slice data 6 8)) [],
                      qty_item ''data length'' ln ''B'', hex_item ''data'' [] (py_slice data 9 (9 + unat ln))] }
         else if \<not> up \<and> 1 \<le> length data then
           do { ln \<leftarrow> py_at data 0;
                Some [qty_item ''data length'' ln ''B'',
                      hex_item ''corrected data'' [] (py_slice data 1 (1 + unat ln))] }
         else Some [])
      else if fn = 4 \<and> 5 \<le> length data then
        do { b0 \<leftarrow> py_at data 0;
             Some ([Item ''item kind'' [] (named ITEM_KINDS (unat b0)) (H2 (unat b0)) [],
                    hex_item ''item'' [] (py_slice data 1 5)]
                   @ (if \<not> up \<and> 5 < length data then [hex_item ''item content'' [] (drop 5 data)] else [])) }
      else Some [])"

definition items_15 :: "bool \<Rightarrow> bytes \<Rightarrow> item list option" where
  "items_15 up data =
     (if \<not> up \<and> 11 \<le> length data then
        do { fid \<leftarrow> py_at data 0; attr \<leftarrow> py_at data 1; cmd \<leftarrow> py_at data 2;
             total \<leftarrow> word_at data 3; lf \<leftarrow> word_at data 9;
             Some [Item ''file'' [] (CodedX (unat fid) (FILE_ID_NAMES (unat fid))) (H2 (unat fid)) [],
                   Item ''file attribute'' [] (Txt (if attr \<noteq> 0 then ''last'' else ''not last'')) (H2 (unat attr)) [],
                   Item ''file command'' [] (X2 (unat cmd)) (H2 (unat cmd)) [],
                   word_item ''segments'' (py_slice data 3 5) total,
                   hex_item ''segment'' [] (py_slice data 5 9),
                   Item ''segment length'' [] (Qty lf ''B'') (H4 lf) [],
                   hex_item ''file data'' [] (py_slice data 11 (11 + lf))] }
      else if up \<and> 4 \<le> length data then Some [hex_item ''segment received'' [] (py_slice data 0 4)]
      else Some [])"

definition items_F1 :: "bool \<Rightarrow> bytes \<Rightarrow> item list option" where
  "items_F1 up data =
     (if \<not> up \<and> 4 \<le> length data then
        do { proto \<leftarrow> py_at data 0; r \<leftarrow> py_at data 1; ln \<leftarrow> word_at data 2;
             Some [proto_item ''protocol'' [] proto, Item ''reserved'' [] (X2 (unat r)) (H2 (unat r)) [],
                   Item ''message length'' [] (Qty ln ''B'') (H4 ln) [],
                   hex_item ''message'' [] (py_slice data 4 (4 + ln))] }
      else if up \<and> 3 \<le> length data then
        do { proto \<leftarrow> py_at data 0; ln \<leftarrow> word_at data 1;
             Some [proto_item ''protocol'' [] proto, Item ''message length'' [] (Qty ln ''B'') (H4 ln) [],
                   hex_item ''message'' [] (py_slice data 3 (3 + ln))] }
      else Some [])"

section \<open>All functions\<close>

definition app_items :: "nat \<Rightarrow> nat \<Rightarrow> bytes \<Rightarrow> direction \<Rightarrow> item list option" where
  "app_items afn fn data dir =
     (let up = (dir = Up) in
      if afn = 0x00 then items_00 fn data
      else if afn = 0x01 then items_01 fn data
      else if afn = 0x02 then items_02 fn data
      else if afn = 0x03 then items_03 up fn data
      else if afn = 0x04 then items_04 fn data
      else if afn = 0x05 then items_05 fn data
      else if afn = 0x06 then items_06 fn data
      else if afn = 0x10 then items_10 up fn data
      else if afn = 0x11 then items_11 fn data
      else if afn = 0x12 then items_12 fn data
      else if afn = 0x13 \<and> fn = 1 then items_13 up data
      else if afn = 0x14 then items_14 up fn data
      else if afn = 0x15 \<and> fn = 1 then items_15 up data
      else if afn = 0xF1 \<and> fn = 1 then items_F1 up data
      else Some [])"

section \<open>When reading raises\<close>

lemma word_at_eq: "word_at data i = (if i + 1 < length data then Some (pair16 (data ! i) (data ! (i + 1))) else None)"
  by (auto simp: word_at_def le16_pair16 length_py_slice py_slice_def nth_append min_def)

lemma word_at_None [simp]: "word_at data i = None \<longleftrightarrow> length data < i + 2"
  by (auto simp: word_at_eq)

lemma rate_at_None [simp]: "rate_at data i = None \<longleftrightarrow> length data < i + 2"
  by (simp add: rate_at_def Option.bind_eq_None_conv)

named_theorems reads_simps

text \<open>A computation that returns, taken apart along its structure.\<close>

lemma returns_bind: "x \<noteq> None \<Longrightarrow> (\<And>y. x = Some y \<Longrightarrow> f y \<noteq> None) \<Longrightarrow> x \<bind> f \<noteq> None"
  by (cases x) auto

lemma returns_let: "f x \<noteq> None \<Longrightarrow> (let y = x in f y) \<noteq> None"
  by simp

lemma returns_if: "(c \<Longrightarrow> x \<noteq> None) \<Longrightarrow> (\<not> c \<Longrightarrow> y \<noteq> None) \<Longrightarrow> (if c then x else y) \<noteq> None"
  by simp

lemma returns_pair: "(\<And>a b. p = (a, b) \<Longrightarrow> f a b \<noteq> None) \<Longrightarrow> (case p of (a, b) \<Rightarrow> f a b) \<noteq> None"
  by (cases p) simp

lemma returns_option: "x \<noteq> None \<Longrightarrow> (\<And>a. y = Some a \<Longrightarrow> f a \<noteq> None) \<Longrightarrow> (case y of None \<Rightarrow> x | Some a \<Rightarrow> f a) \<noteq> None"
  by (cases y) simp_all

lemmas returns = returns_bind returns_let returns_if returns_pair returns_option option.distinct(2)

declare not_None_eq [simp del]

declare Option.bind_eq_None_conv [reads_simps] length_py_slice [reads_simps]

text \<open>A loop body that reads nothing behind its record never raises.\<close>

definition body_ok :: "nat \<Rightarrow> (nat \<Rightarrow> bytes \<Rightarrow> item list option) \<Rightarrow> bool" where
  "body_ok w f \<longleftrightarrow> (\<forall>i d. length d = w \<longrightarrow> f i d \<noteq> None)"

lemma recs_total: "body_ok w f \<Longrightarrow> recs w f i n rest \<noteq> None"
proof (induction n arbitrary: i rest)
  case (Suc n)
  then have "w \<le> length rest \<Longrightarrow> f i (take w rest) \<noteq> None" by (simp add: body_ok_def)
  with Suc show ?case by (auto simp: Option.bind_eq_None_conv split: prod.splits)
qed simp

lemma records_total: "body_ok w f \<Longrightarrow> records w f n rest \<noteq> None"
  by (simp add: records_def recs_total)

lemma bodies_ok [reads_simps]:
  "body_ok 8 listened_node" "body_ok 2 rate_item" "body_ok 9 reported_node" "body_ok 7 (attached_node i)"
  "body_ok 7 power_cut_meter" "body_ok 6 unit_address" "body_ok 7 refused_node" "body_ok 8 (info_node b)"
  "body_ok 11 topology_node" "body_ok 8 phase_node" "body_ok 11 version_node" "body_ok 33 chip_node"
  "body_ok 3 neighbour" "body_ok 7 added_node" "body_ok 6 (address_record nm)"
  by (auto simp: body_ok_def listened_node_def rate_item_def reported_node_def attached_node_def
      power_cut_meter_def unit_address_def refused_node_def info_node_def topology_node_def phase_node_def
      version_node_def chip_node_def neighbour_def added_node_def address_record_def reads_simps)

lemma loops_total [reads_simps]:
  "recs 7 (attached_node i) k n rest \<noteq> None" "recs 6 (address_record nm) k n rest \<noteq> None"
  "records 8 listened_node n rest \<noteq> None" "records 2 rate_item n rest \<noteq> None"
  "records 9 reported_node n rest \<noteq> None" "records 7 power_cut_meter n rest \<noteq> None"
  "records 6 unit_address n rest \<noteq> None" "records 7 refused_node n rest \<noteq> None"
  "records 8 (info_node b) n rest \<noteq> None" "records 11 topology_node n rest \<noteq> None"
  "records 8 phase_node n rest \<noteq> None" "records 11 version_node n rest \<noteq> None"
  "records 33 chip_node n rest \<noteq> None" "records 3 neighbour n rest \<noteq> None"
  "records 7 added_node n rest \<noteq> None" "records 6 (address_record nm) n rest \<noteq> None"
  by (simp_all only: recs_total records_total bodies_ok not_False_eq_True)

lemma topology_nodes_total [reads_simps]: "topology_nodes i n rest \<noteq> None"
proof (induction n arbitrary: i rest)
  case (Suc n)
  show ?case unfolding topology_nodes.simps
    by (intro returns Suc.IH) (simp_all add: reads_simps)
qed simp

lemma id_nodes_total [reads_simps]: "id_nodes i n rest \<noteq> None"
proof (induction n arbitrary: i rest)
  case (Suc n)
  show ?case unfolding id_nodes.simps
    by (intro returns Suc.IH) (simp_all add: reads_simps)
qed simp

lemma message_items_total [reads_simps]: "i + 2 \<le> length data \<Longrightarrow> message_items nm data i \<noteq> None"
  unfolding message_items_def by (intro returns) auto

lemma mode_items_total [reads_simps]: "39 \<le> length data \<Longrightarrow> mode_items data \<noteq> None"
  unfolding mode_items_def by (intro returns) (auto simp: reads_simps)

lemma route_state_total [reads_simps]: "17 \<le> length data \<Longrightarrow> route_state data \<noteq> None"
  unfolding route_state_def by (intro returns) (auto simp: reads_simps)

lemma range_items_total [reads_simps]: "3 \<le> length data \<Longrightarrow> range_items nm data \<noteq> None"
  unfolding range_items_def by (intro returns) auto

lemma listed_total [reads_simps]: "body_ok w f \<Longrightarrow> 3 \<le> length data \<Longrightarrow> listed nm w f data \<noteq> None"
  unfolding listed_def by (intro returns records_total) auto

lemma listed_from_None [reads_simps]: "body_ok w f \<Longrightarrow> listed_from nm w f data = None \<longleftrightarrow> length data < 5"
  by (auto simp: listed_from_def reads_simps records_total)

lemma items_plain_total:
  "items_00 fn data \<noteq> None" "items_01 fn data \<noteq> None" "items_02 fn data \<noteq> None" "items_03 up fn data \<noteq> None"
  "items_04 fn data \<noteq> None" "items_05 fn data \<noteq> None" "items_11 fn data \<noteq> None" "items_12 fn data \<noteq> None"
  "items_13 up data \<noteq> None" "items_14 up fn data \<noteq> None" "items_15 up data \<noteq> None" "items_F1 up data \<noteq> None"
  unfolding items_00_def items_01_def items_02_def items_03_def items_03a_def items_03b_def items_04_def items_05_def
    items_11_def items_12_def items_13_def items_14_def items_15_def items_F1_def
  by (intro returns; auto simp: reads_simps)+

lemma event_items_total [reads_simps]: "event_items dt proto content \<noteq> None"
  unfolding event_items_def by (intro returns) (auto simp: reads_simps)

lemma six_list: "length d = 6 \<Longrightarrow> \<exists>a b c e f g. d = [a, b, c, e, f, g]"
  by (simp add: length_Suc_conv numeral_eq_Suc) blast

lemma minute_report_13: "length data = 13 \<Longrightarrow> minute_report data = None"
proof -
  assume l: "length data = 13"
  then have "length (py_slice data 8 14) = 5" by (simp add: length_py_slice)
  then have "(case py_slice data 8 14 of [sec, minute, hour, day, month, year] \<Rightarrow> Some (F sec minute hour day month year)
      | _ \<Rightarrow> None) = None" for F :: "byte \<Rightarrow> byte \<Rightarrow> byte \<Rightarrow> byte \<Rightarrow> byte \<Rightarrow> byte \<Rightarrow> item list"
    by (auto split: list.splits)
  then show ?thesis using l by (simp add: minute_report_def Option.bind_eq_None_conv)
qed

lemma minute_report_total: "10 \<le> length data \<Longrightarrow> length data \<noteq> 13 \<Longrightarrow> minute_report data \<noteq> None"
proof -
  assume l: "10 \<le> length data" "length data \<noteq> 13"
  have "\<exists>a b c e f g. py_slice data 8 14 = [a, b, c, e, f, g]" if "13 \<le> length data"
    using that l by (intro six_list) (simp add: length_py_slice)
  with l show ?thesis unfolding minute_report_def by (intro returns) auto
qed

lemma items_06_None: "items_06 fn data = None \<longleftrightarrow> fn = 230 \<and> length data = 13"
proof (cases "fn = 230 \<and> 10 \<le> length data")
  case True
  then show ?thesis using minute_report_13 [of data] minute_report_total [of data] by (auto simp: items_06_def)
next
  case False
  have "(if fn = 230 \<and> 10 \<le> length data then minute_report data else Some []) \<noteq> None"
    using False by auto
  then have "items_06 fn data \<noteq> None" unfolding items_06_def by (intro returns) (auto simp: reads_simps)
  with False show ?thesis by auto
qed

lemma items_10_None:
  "items_10 up fn data = None \<longleftrightarrow> up \<and> fn \<in> {21, 31, 112} \<and> length data \<in> {3, 4}"
proof (cases "up \<and> fn \<in> {21, 31, 112} \<and> 3 \<le> length data")
  case True
  then show ?thesis by (auto simp: items_10_def items_10b_def reads_simps)
next
  case False
  then have "items_10 up fn data \<noteq> None"
    unfolding items_10_def items_10a_def items_10b_def by (intro returns) (auto simp: reads_simps)
  with False show ?thesis by auto
qed

lemma app_items_None:
  "app_items afn fn data dir = None \<longleftrightarrow>
     afn = 0x10 \<and> dir = Up \<and> fn \<in> {21, 31, 112} \<and> length data \<in> {3, 4}
     \<or> afn = 0x06 \<and> fn = 230 \<and> length data = 13"
  using items_plain_total items_06_None items_10_None
  by (auto simp: app_items_def Let_def)

text \<open>
  C12. The reader of the application data answers on every function, direction and
  byte string with a list of fields, with two exceptions: the upward node lists 10H-F21, F31 and
  F112 raise on a unit of three or four bytes, whose guard asks for three although five are read,
  and the report 06H-F230 raises on a unit of exactly 13 bytes, one short of the time it unpacks.
\<close>

theorem app_items_raises:
  "app_items afn fn data dir = None \<longleftrightarrow>
     afn = 0x10 \<and> dir = Up \<and> fn \<in> {21, 31, 112} \<and> length data \<in> {3, 4}
     \<or> afn = 0x06 \<and> fn = 230 \<and> length data = 13"
  by (rule app_items_None)

declare not_None_eq [simp]

end
