(* ===== verification/Py_Values.thy ===== *)
theory Py_Values
  imports Prelude
begin

text \<open>
  Values of the JSON kind as the programs handle them, with the language's own operations on them:
  dict access, truth, \<open>int()\<close>, iteration, \<open>repr\<close> and \<open>str\<close>. Numbers with fractions are left out.
  A result type carries the exception of an operation; \<open>andThen\<close> is an assignment whose
  right-hand side may raise.
\<close>

section \<open>Values\<close>

datatype pv = PNone | PBool bool | PInt int | PStr string | PList "pv list" | PDict "(string \<times> pv) list"

type_synonym pdict = "(string \<times> pv) list"
type_synonym 'a res = "py_exc + 'a"

definition andThen :: "'a res \<Rightarrow> ('a \<Rightarrow> 'b res) \<Rightarrow> 'b res" where
  "andThen x f = (case x of Inl e \<Rightarrow> Inl e | Inr v \<Rightarrow> f v)"

text \<open>\<open>d.get(k)\<close>, \<open>d.get(k, default)\<close>, and the same on a value that must be a dict.\<close>

definition pget :: "pdict \<Rightarrow> string \<Rightarrow> pv" where
  "pget d k = (case map_of d k of None \<Rightarrow> PNone | Some v \<Rightarrow> v)"

definition getd :: "pdict \<Rightarrow> string \<Rightarrow> pv \<Rightarrow> pv" where
  "getd d k dflt = (case map_of d k of None \<Rightarrow> dflt | Some v \<Rightarrow> v)"

definition as_dict :: "pv \<Rightarrow> pdict res" where
  "as_dict v = (case v of PDict d \<Rightarrow> Inr d | _ \<Rightarrow> Inl AttributeError)"

text \<open>\<open>bool(v)\<close>, \<open>int(v)\<close>, \<open>len(v)\<close>, \<open>for x in v\<close>\<close>

fun truthy :: "pv \<Rightarrow> bool" where
  "truthy PNone = False"
| "truthy (PBool b) = b"
| "truthy (PInt n) = (n \<noteq> 0)"
| "truthy (PStr s) = (s \<noteq> [])"
| "truthy (PList xs) = (xs \<noteq> [])"
| "truthy (PDict d) = (d \<noteq> [])"

fun to_int :: "pv \<Rightarrow> int res" where
  "to_int (PBool b) = Inr (if b then 1 else 0)"
| "to_int (PInt n) = Inr n"
| "to_int (PStr s) = (case py_int s of Some n \<Rightarrow> Inr n | None \<Rightarrow> Inl ValueError)"
| "to_int _ = Inl TypeError"

fun elements :: "pv \<Rightarrow> pv list res" where
  "elements (PList xs) = Inr xs"
| "elements (PStr s) = Inr (map (\<lambda>c. PStr [c]) s)"
| "elements (PDict d) = Inr (map (\<lambda>(k, v). PStr k) d)"
| "elements _ = Inl TypeError"

text \<open>\<open>params.get(k) or []\<close>\<close>

definition get_list :: "pdict \<Rightarrow> string \<Rightarrow> pv" where
  "get_list d k = (if truthy (pget d k) then pget d k else PList [])"

text \<open>\<open>str(v)\<close>, with \<open>repr\<close> for what stands inside a list or dict.\<close>

definition show_int :: "int \<Rightarrow> string" where
  "show_int n = (if n < 0 then CHR ''-'' # show_nat (nat (- n)) else show_nat (nat n))"

definition repr_char :: "char \<Rightarrow> char \<Rightarrow> string" where
  "repr_char q c =
     (let n = (of_char c :: nat) in
      if c = q \<or> n = 92 then [CHR 0x5C, c]
      else if n = 9 then [CHR 0x5C, CHR ''t'']
      else if n = 10 then [CHR 0x5C, CHR ''n'']
      else if n = 13 then [CHR 0x5C, CHR ''r'']
      else if n < 32 \<or> (127 \<le> n \<and> n \<le> 160) \<or> n = 173
      then [CHR 0x5C, CHR ''x'', ''0123456789abcdef'' ! (n div 16), ''0123456789abcdef'' ! (n mod 16)] else [c])"

definition repr_str :: "string \<Rightarrow> string" where
  "repr_str s =
     (let q = (if CHR 0x27 \<in> set s \<and> CHR 0x22 \<notin> set s then CHR 0x22 else CHR 0x27)
      in q # concat (map (repr_char q) s) @ [q])"

definition join_with :: "string \<Rightarrow> string list \<Rightarrow> string" where
  "join_with sep xs = (case xs of [] \<Rightarrow> [] | y # ys \<Rightarrow> y @ concat (map ((@) sep) ys))"

fun repr :: "pv \<Rightarrow> string" where
  "repr PNone = ''None''"
| "repr (PBool b) = (if b then ''True'' else ''False'')"
| "repr (PInt n) = show_int n"
| "repr (PStr s) = repr_str s"
| "repr (PList xs) = ''['' @ join_with '', '' (map repr xs) @ '']''"
| "repr (PDict d) = CHR 0x7B # join_with '', '' (map (\<lambda>kv. repr_str (fst kv) @ '': '' @ repr (snd kv)) d) @ [CHR 0x7D]"

definition to_str :: "pv \<Rightarrow> string" where
  "to_str v = (case v of PStr s \<Rightarrow> s | _ \<Rightarrow> repr v)"

text \<open>\<open>upper()\<close> and \<open>lower()\<close> on the characters up to 255, but for the three that leave this range.\<close>

definition upper_char :: "char \<Rightarrow> char" where
  "upper_char c = (let n = (of_char c :: nat) in
     if (97 \<le> n \<and> n \<le> 122) \<or> (224 \<le> n \<and> n \<le> 254 \<and> n \<noteq> 247) then char_of (n - 32) else c)"

definition lower_char :: "char \<Rightarrow> char" where
  "lower_char c = (let n = (of_char c :: nat) in
     if (65 \<le> n \<and> n \<le> 90) \<or> (192 \<le> n \<and> n \<le> 222 \<and> n \<noteq> 215) then char_of (n + 32) else c)"

section \<open>Facts\<close>

lemma andThen_simps [simp]: "andThen (Inl e) f = Inl e" "andThen (Inr v) f = f v"
  by (simp_all add: andThen_def)

lemma andThen_Inr: "andThen x f = Inr z \<longleftrightarrow> (\<exists>y. x = Inr y \<and> f y = Inr z)"
  by (cases x) simp_all

end
