(* ===== verification/App_Encode.thy ===== *)
theory App_Encode
  imports App_Items Py_Values
begin

text \<open>
  The building of application data from parameters, \<open>_encode_app_data\<close> and its helpers in
  \<open>libs/parser_lib/adapters/adapter_10376/__init__.py\<close>, one function per group of
  application functions in the order of the source.

  Exceptions are values: \<open>cat\<close> joins the pieces of a unit and stops at the first piece that
  raises, which is the order in which the source evaluates them.
\<close>

section \<open>Encoding helpers\<close>

fun cat :: "bytes res list \<Rightarrow> bytes res" where
  "cat [] = Inr []"
| "cat (x # xs) = andThen x (\<lambda>a. andThen (cat xs) (\<lambda>b. Inr (a @ b)))"

definition u8_in :: "pv \<Rightarrow> int \<Rightarrow> int \<Rightarrow> nat res" where
  "u8_in v lo hi = andThen (to_int v) (\<lambda>iv. if lo \<le> iv \<and> iv \<le> hi then Inr (nat iv) else Inl ValueError)"

definition u16 :: "pv \<Rightarrow> nat res" where
  "u16 v = andThen (to_int v) (\<lambda>iv. if 0 \<le> iv \<and> iv \<le> 0xFFFF then Inr (nat iv) else Inl ValueError)"

text \<open>\<open>n.to_bytes(2, "little")\<close>, and the same at three bytes.\<close>

definition le2 :: "nat \<Rightarrow> bytes res" where
  "le2 n = (if n < 65536 then Inr [of_nat (n mod 256), of_nat (n div 256)] else Inl OverflowError)"

definition le3 :: "nat \<Rightarrow> bytes" where
  "le3 n = [of_nat (n mod 256), of_nat (n div 256 mod 256), of_nat (n div 65536)]"

text \<open>\<open>bytes([n])\<close> and \<open>out.append(n)\<close>\<close>

definition byte1 :: "nat \<Rightarrow> bytes res" where
  "byte1 n = (if n < 256 then Inr [of_nat n] else Inl ValueError)"

text \<open>One byte in a range, a word, and the test \<open>_req\<close> that a parameter is there.\<close>

definition b_in :: "pv res \<Rightarrow> int \<Rightarrow> int \<Rightarrow> bytes res" where
  "b_in v lo hi = andThen v (\<lambda>x. andThen (u8_in x lo hi) byte1)"

definition b8 :: "pv res \<Rightarrow> bytes res" where
  "b8 v = b_in v 0 0xFF"

definition w16 :: "pv res \<Rightarrow> bytes res" where
  "w16 v = andThen v (\<lambda>x. andThen (u16 x) le2)"

definition req :: "pdict \<Rightarrow> string \<Rightarrow> pv res" where
  "req params key = (if pget params key = PNone then Inl ValueError else Inr (pget params key))"

text \<open>\<open>_bcd_bytes\<close>: \<open>isdigit\<close> is false of the empty text.\<close>

definition bcd_bytes :: "pv \<Rightarrow> bytes res" where
  "bcd_bytes addr =
     (let s = py_strip (to_str addr) in
      if s = [] \<or> \<not> list_all is_digit s then Inl ValueError
      else if length s \<noteq> 12 then Inl ValueError
      else case str_to_bcd s 6 of Some bs \<Rightarrow> Inr bs | None \<Rightarrow> Inl ValueError)"

definition hex_bytes :: "pv \<Rightarrow> bytes res" where
  "hex_bytes v = (case from_hex (remove_char CHR '' '' (to_str v)) of Some bs \<Rightarrow> Inr bs | None \<Rightarrow> Inl ValueError)"

definition int_to_bcd :: "pv \<Rightarrow> int \<Rightarrow> bytes res" where
  "int_to_bcd v hi = andThen (to_int v)
     (\<lambda>n. if 0 \<le> n \<and> n \<le> hi then byte1 (push_bit 4 (nat n div 10) OR nat n mod 10) else Inl ValueError)"

definition time6_bytes :: "pdict \<Rightarrow> bytes res" where
  "time6_bytes params =
     (case map_of params ''time'' of
        Some t \<Rightarrow>
          let s = remove_char CHR ''-'' (remove_char CHR '':'' (remove_char CHR '' '' (to_str t)))
          in if length s \<noteq> 12 \<or> \<not> list_all is_digit s then Inl ValueError
             else (case str_to_bcd s 6 of Some bs \<Rightarrow> Inr bs | None \<Rightarrow> Inl ValueError)
      | None \<Rightarrow>
          cat [int_to_bcd (getd params ''sec'' (PInt 0)) 59, int_to_bcd (getd params ''min'' (PInt 0)) 59,
               int_to_bcd (getd params ''hour'' (PInt 0)) 23, int_to_bcd (getd params ''day'' (PInt 0)) 31,
               int_to_bcd (getd params ''mon'' (PInt 0)) 12, int_to_bcd (getd params ''year'' (PInt 0)) 99])"

definition rate_word :: "pv \<Rightarrow> nat \<Rightarrow> nat res" where
  "rate_word unit rate = andThen (to_int unit)
     (\<lambda>u. Inr (push_bit 15 (nat (u AND 1)) OR (rate AND 0x7FFF)))"

definition nodes_list :: "pdict \<Rightarrow> string \<Rightarrow> pv list res" where
  "nodes_list params key = (case pget params key of PList xs \<Rightarrow> Inr xs | _ \<Rightarrow> Inl ValueError)"

definition nid3 :: "pv \<Rightarrow> bytes res" where
  "nid3 v =
     (case v of
        PStr s \<Rightarrow> andThen (hex_bytes v) (\<lambda>b. if length b \<noteq> 3 then Inl ValueError else Inr b)
      | _ \<Rightarrow> andThen (to_int v) (\<lambda>iv. if 0 \<le> iv \<and> iv \<le> 0xFFFFFF then Inr (le3 (nat iv)) else Inl ValueError))"

text \<open>
  \<open>NO_UNIT_DOWN\<close> are the downward queries without a data unit. A loop over records is
  \<open>cat\<close> of the records' bytes; \<open>with_dict\<close> gives a record's dict to its encoder.
\<close>

definition NO_UNIT_DOWN :: "(nat \<times> int) set" where
  "NO_UNIT_DOWN = set
     [(0x01, 1), (0x01, 2), (0x01, 3),
      (0x03, 1), (0x03, 2), (0x03, 4), (0x03, 5), (0x03, 7), (0x03, 8),
      (0x03, 10), (0x03, 12), (0x03, 16), (0x03, 100),
      (0x04, 2),
      (0x10, 1), (0x10, 4), (0x10, 9), (0x10, 100), (0x10, 104), (0x10, 111),
      (0x11, 6), (0x11, 101), (0x11, 102),
      (0x12, 1), (0x12, 2), (0x12, 3)]"

definition with_dict :: "(pdict \<Rightarrow> bytes res) \<Rightarrow> pv \<Rightarrow> bytes res" where
  "with_dict f v = andThen (as_dict v) f"

definition node_addr :: "pdict \<Rightarrow> pv" where
  "node_addr nd = getd nd ''addr'' (pget nd ''sta'')"

text \<open>A payload of at most 255 bytes, put behind a head and its length.\<close>

definition short_payload :: "pdict \<Rightarrow> bytes res" where
  "short_payload params = andThen (req params ''payload'') (\<lambda>v. andThen (hex_bytes v)
     (\<lambda>payload. if 255 < length payload then Inl ValueError else Inr payload))"

section \<open>Collection tasks (11H-F231 and F232)\<close>

text \<open>
  \<open>{"enable": 1, "delete": 0, 1: 1, 0: 0}.get(v)\<close>: \<open>True\<close> and \<open>False\<close> equal
  1 and 0; a list or dict cannot be a key.
\<close>

definition action_code :: "string \<Rightarrow> pv \<Rightarrow> nat option res" where
  "action_code on v =
     (case v of
        PStr s \<Rightarrow> Inr (if s = on then Some 1 else if s = ''delete'' then Some 0 else None)
      | PInt n \<Rightarrow> Inr (if n = 1 then Some 1 else if n = 0 then Some 0 else None)
      | PBool b \<Rightarrow> Inr (Some (if b then 1 else 0))
      | PNone \<Rightarrow> Inr None
      | _ \<Rightarrow> Inl TypeError)"

text \<open>\<open>groups[mt].append(it)\<close>, kept as the list of items with their meter types.\<close>

fun typed_items :: "pv list \<Rightarrow> (nat \<times> pdict) list res" where
  "typed_items [] = Inr []"
| "typed_items (v # vs) =
     andThen (as_dict v) (\<lambda>it. andThen (u8_in (getd it ''meter_type'' (PInt 0)) 0 2)
       (\<lambda>mt. andThen (typed_items vs) (\<lambda>rest. Inr ((mt, it) # rest))))"

definition sum_reply :: "pdict list \<Rightarrow> nat res" where
  "sum_reply g = foldl (\<lambda>acc it. andThen acc (\<lambda>a. andThen (u16 (getd it ''reply_len'' (PInt 0))) (\<lambda>n. Inr (a + n))))
     (Inr 0) g"

definition task_item :: "pdict \<Rightarrow> bytes res" where
  "task_item it =
     (let item_hex = remove_char CHR '' '' (to_str (getd it ''item'' (PStr []))) in
      if length item_hex \<noteq> 8 then Inl ValueError
      else cat [case from_hex item_hex of Some bs \<Rightarrow> Inr bs | None \<Rightarrow> Inl ValueError,
                b8 (Inr (getd it ''reply_len'' (PInt 0)))])"

definition task_group :: "(nat \<times> pdict) list \<Rightarrow> nat \<Rightarrow> bytes res" where
  "task_group items mt =
     (let g = map snd (filter (\<lambda>x. fst x = mt) items) in
      cat ([byte1 mt, b8 (Inr (PInt (int (length g))))]
           @ (if g = [] then [] else andThen (sum_reply g) le2 # map task_item g)))"

definition encode_11f231 :: "pdict \<Rightarrow> bytes res" where
  "encode_11f231 params =
     andThen (action_code ''enable'' (getd params ''action'' (PStr ''enable''))) (\<lambda>action.
       case action of
         None \<Rightarrow> Inl ValueError
       | Some act \<Rightarrow>
         andThen (if act = 0
                  then andThen (to_int (getd params ''task_no'' (PInt 0)))
                         (\<lambda>t. if t = 0xFF then Inr [0xFF]
                              else b_in (Inr (getd params ''task_no'' (PInt 0))) 1 15)
                  else b_in (Inr (getd params ''task_no'' (PInt 0))) 1 15) (\<lambda>task_no.
         andThen (b_in (Inr (getd params ''protocol'' (PInt 2))) 2 3) (\<lambda>protocol.
         andThen (b8 (Inr (getd params ''cycle_min'' (PInt 0)))) (\<lambda>cycle.
         andThen (elements (get_list params ''items'')) (\<lambda>vs.
         andThen (typed_items vs) (\<lambda>items.
           cat [Inr (task_no @ [of_nat act] @ protocol @ cycle),
                task_group items 0, task_group items 1, task_group items 2]))))))"

definition encode_11f232 :: "pdict \<Rightarrow> bytes res" where
  "encode_11f232 params =
     andThen (b_in (Inr (getd params ''task_no'' (PInt 0))) 1 15) (\<lambda>task_no.
     andThen (elements (get_list params ''meters'')) (\<lambda>meters.
       cat (Inr task_no # w16 (Inr (PInt (int (length meters)))) #
            map (\<lambda>m. bcd_bytes (case m of PDict d \<Rightarrow> pget d ''addr'' | _ \<Rightarrow> m)) meters)))"

section \<open>Downward units\<close>

text \<open>
  A group answers \<open>None\<close> for the functions it does not know, and the encoder goes on to the
  next group, as the source goes on to its next \<open>if\<close>.
\<close>

definition status_unit :: "pdict \<Rightarrow> bytes res" where
  "status_unit params =
     (let status = pget params ''status'' in
      if status \<in> {PNone, PInt 0, PBool False, PStr ''0'', PStr ''confirm'', PStr ''ok''} then
        (if pget params ''wait'' \<noteq> PNone \<or> pget params ''channels'' \<noteq> PNone
         then andThen (u8_in (getd params ''channels'' (PInt 0)) 0 0xFF) (\<lambda>ch.
                cat [byte1 ((if truthy (pget params ''processed'') then 0x80 else 0) OR (ch AND 0x7F)),
                     Inr [0, 0, 0], w16 (Inr (getd params ''wait'' (PInt 0)))])
         else Inr [])
      else if status \<in> {PInt 1, PBool True, PStr ''1'', PStr ''deny'', PStr ''ng''} then Inr [0x01]
      else Inl ValueError)"

definition enc_common :: "nat \<Rightarrow> int \<Rightarrow> pdict \<Rightarrow> bytes res option" where
  "enc_common afn fn params =
     (if (afn, fn) = (0x00, 1) then Some (status_unit params)
      else if (afn, fn) = (0x00, 2) then Some (b8 (req params ''err''))
      else if (afn, fn) = (0x02, 1) then
        Some (andThen (short_payload params) (\<lambda>payload.
          cat [b_in (req params ''protocol'') 0 3, byte1 (length payload), Inr payload]))
      else None)"

definition hex_param :: "pdict \<Rightarrow> string \<Rightarrow> bytes res" where
  "hex_param params key = andThen (req params key) hex_bytes"

definition bcd_param :: "pdict \<Rightarrow> string \<Rightarrow> bytes res" where
  "bcd_param params key = andThen (req params key) bcd_bytes"

definition enc_down_03_05 :: "nat \<Rightarrow> int \<Rightarrow> pdict \<Rightarrow> bytes res option" where
  "enc_down_03_05 afn fn params =
     (if (afn, fn) \<in> NO_UNIT_DOWN then Some (Inr [])
      else if (afn, fn) = (0x03, 3) then
        Some (cat [b8 (req params ''start''), b_in (req params ''count'') 0 16])
      else if (afn, fn) = (0x03, 6) then Some (b8 (req params ''duration''))
      else if (afn, fn) = (0x03, 9) then
        Some (andThen (hex_param params ''payload'') (\<lambda>payload.
          cat [b_in (req params ''protocol'') 0 3, byte1 (length payload), Inr payload]))
      else if (afn, fn) = (0x03, 11) then Some (b8 (req params ''afn''))
      else if (afn, fn) = (0x04, 1) then Some (b8 (req params ''duration''))
      else if (afn, fn) = (0x04, 3) then
        Some (andThen (short_payload params) (\<lambda>payload.
          cat [b8 (req params ''rate''), bcd_param params ''addr'', b_in (req params ''protocol'') 0 3,
               byte1 (length payload), Inr payload]))
      else if (afn, fn) = (0x05, 1) then Some (bcd_param params ''addr'')
      else if (afn, fn) = (0x05, 2) then Some (b_in (req params ''enable'') 0 1)
      else if (afn, fn) = (0x05, 3) then
        Some (andThen (short_payload params) (\<lambda>payload.
          cat [b_in (req params ''ctrl'') 0 3, byte1 (length payload), Inr payload]))
      else if (afn, fn) = (0x05, 4) then Some (b8 (req params ''timeout''))
      else if (afn, fn) = (0x05, 5) then
        Some (cat [b_in (req params ''channel'') 0 255, b8 (req params ''power'')])
      else if (afn, fn) = (0x05, 6) then Some (b_in (req params ''enable'') 0 1)
      else if (afn, fn) = (0x05, 16) then Some (b_in (req params ''band'') 0 3)
      else if (afn, fn) = (0x05, 100) then Some (b_in (req params ''threshold'') 0 255)
      else if (afn, fn) = (0x05, 101) then Some (time6_bytes params)
      else if (afn, fn) = (0x05, 200) then Some (b_in (req params ''enable'') 0 1)
      else None)"

definition range_unit :: "pdict \<Rightarrow> bytes res" where
  "range_unit params =
     cat [w16 (Inr (getd params ''start'' (PInt 0))), b8 (Inr (getd params ''count'' (PInt 0)))]"

definition list_node :: "pdict \<Rightarrow> bytes res" where
  "list_node nd = cat [bcd_bytes (node_addr nd), b_in (Inr (getd nd ''protocol'' (PInt 2))) 0 3]"

text \<open>11H-F1 in its two forms.\<close>

definition add_nodes :: "pdict \<Rightarrow> bytes res" where
  "add_nodes params =
     (if map_of params ''nodes'' \<noteq> None then
        andThen (nodes_list params ''nodes'') (\<lambda>nodes.
          cat (b8 (Inr (PInt (int (length nodes)))) # map (with_dict list_node) nodes))
      else andThen (action_code ''add'' (getd params ''action'' (PStr ''add''))) (\<lambda>action.
        case action of
          None \<Rightarrow> Inl ValueError
        | Some act \<Rightarrow>
            cat [Inr [of_nat act], bcd_bytes (getd params ''addr'' (pget params ''sta'')),
                 b_in (Inr (getd params ''protocol'' (PInt 2))) 2 3]))"

definition remove_nodes :: "pdict \<Rightarrow> bytes res" where
  "remove_nodes params =
     (case (pget params ''meters'', map_of params ''addr'') of
        (PNone, None) \<Rightarrow> Inl ValueError
      | (PNone, Some a) \<Rightarrow> cat [Inr [1], bcd_bytes a]
      | (m, _) \<Rightarrow> andThen (elements m) (\<lambda>ms. cat (b8 (Inr (PInt (int (length ms)))) # map bcd_bytes ms)))"

definition enc_down_10_11 :: "nat \<Rightarrow> int \<Rightarrow> pdict \<Rightarrow> bytes res option" where
  "enc_down_10_11 afn fn params =
     (if (afn, fn) = (0x10, 2) then Some (range_unit params)
      else if (afn, fn) = (0x10, 3) then Some (bcd_param params ''addr'')
      else if (afn, fn) \<in> {(0x10, 5), (0x10, 6), (0x10, 7), (0x10, 21), (0x10, 31), (0x10, 101), (0x10, 112)} then Some (range_unit params)
      else if (afn, fn) = (0x10, 40) then
        Some (cat [b_in (req params ''dev_type'') 1 7, hex_param params ''addr'', b_in (req params ''id_type'') 1 2])
      else if (afn, fn) = (0x10, 230) then Some (Inr [])
      else if (afn, fn) = (0x10, 231) then
        Some (cat [b_in (Inr (getd params ''task_no'' (PInt 0))) 1 15,
                   b_in (Inr (getd params ''protocol'' (PInt 2))) 2 3])
      else if (afn, fn) = (0x11, 1) then Some (add_nodes params)
      else if (afn, fn) = (0x11, 2) then Some (remove_nodes params)
      else if (afn, fn) = (0x11, 3) then
        Some (andThen (bcd_param params ''addr'') (\<lambda>addr.
          andThen (elements (get_list params ''relays'')) (\<lambda>relays.
            cat (Inr addr # b_in (Inr (PInt (int (length relays)))) 0 15 # map bcd_bytes relays))))
      else if (afn, fn) = (0x11, 4) then
        Some (cat [b8 (req params ''mode''),
                   andThen (req params ''rate'') (\<lambda>v. andThen (u16 v) (\<lambda>rate.
                     andThen (rate_word (getd params ''rate_unit'' (PInt 0)) rate) le2))])
      else if (afn, fn) = (0x11, 5) then
        Some (cat [time6_bytes params, w16 (req params ''duration''), b8 (req params ''retry''),
                   b8 (req params ''slices'')])
      else if (afn, fn) = (0x11, 100) then Some (w16 (req params ''scale''))
      else if (afn, fn) = (0x11, 231) then Some (encode_11f231 params)
      else if (afn, fn) = (0x11, 232) then Some (encode_11f232 params)
      else None)"

text \<open>\<open>_hex_bytes(params.get(k, "")) if params.get(k) else b""\<close>\<close>

definition optional_hex :: "pdict \<Rightarrow> string \<Rightarrow> bytes res" where
  "optional_hex params key = (if truthy (pget params key) then hex_bytes (pget params key) else Inr [])"

definition enc_down_13_F1 :: "nat \<Rightarrow> int \<Rightarrow> pdict \<Rightarrow> bytes res option" where
  "enc_down_13_F1 afn fn params =
     (if (afn, fn) = (0x13, 1) then
        Some (andThen (short_payload params) (\<lambda>payload.
          andThen (cat [b_in (req params ''protocol'') 0 3,
                        b_in (Inr (getd params ''delay_flag'' (PInt 0))) 0 1]) (\<lambda>head.
          andThen (elements (get_list params ''subs'')) (\<lambda>subs.
            cat (Inr head # b8 (Inr (PInt (int (length subs)))) # map bcd_bytes subs
                 @ [byte1 (length payload), Inr payload])))))
      else if (afn, fn) = (0x14, 1) then
        Some (andThen (optional_hex params ''payload'') (\<lambda>payload.
          if 255 < length payload then Inl ValueError
          else andThen (cat [b_in (req params ''flag'') 0 2,
                        b_in (Inr (getd params ''delay_flag'' (PInt 0))) 0 1]) (\<lambda>head.
            andThen (elements (get_list params ''subs'')) (\<lambda>subs.
              cat ([Inr head, byte1 (length payload), Inr payload, b8 (Inr (PInt (int (length subs))))]
                   @ map bcd_bytes subs)))))
      else if (afn, fn) = (0x14, 2) then Some (time6_bytes params)
      else if (afn, fn) = (0x14, 3) then
        Some (andThen (short_payload params) (\<lambda>payload. cat [byte1 (length payload), Inr payload]))
      else if (afn, fn) = (0x14, 4) then
        Some (andThen (optional_hex params ''content'') (\<lambda>content.
          cat [b_in (req params ''type'') 1 2, hex_param params ''item'', Inr content]))
      else if (afn, fn) = (0x15, 1) then
        Some (andThen (hex_param params ''data'') (\<lambda>fdata. andThen (hex_param params ''seg_id'') (\<lambda>seg_id.
          if length seg_id \<noteq> 4 then Inl ValueError
          else cat [b8 (req params ''file_id''), b_in (Inr (getd params ''attr'' (PInt 0))) 0 1,
                    b8 (Inr (getd params ''cmd'' (PInt 0))), w16 (req params ''total_segs''), Inr seg_id,
                    w16 (Inr (getd params ''seg_len'' (PInt (int (length fdata))))), Inr fdata])))
      else if (afn, fn) = (0xF1, 1) then
        Some (andThen (hex_param params ''payload'') (\<lambda>payload.
          cat [b_in (req params ''protocol'') 0 3, Inr [0], w16 (Inr (PInt (int (length payload)))), Inr payload]))
      else None)"

section \<open>Upward units\<close>

text \<open>The functions whose answer is a confirmation.\<close>

definition CONFIRMED :: "(nat \<times> int) set" where
  "CONFIRMED = set
     [(0x04, 1), (0x04, 2), (0x04, 3), (0x05, 1), (0x05, 2), (0x05, 3), (0x05, 4), (0x05, 5), (0x05, 6),
      (0x05, 16), (0x05, 100), (0x05, 101), (0x05, 200),
      (0x11, 1), (0x11, 2), (0x11, 3), (0x11, 4), (0x11, 5), (0x11, 100), (0x12, 1), (0x12, 2), (0x12, 3)]"

text \<open>\<open>str(v)[:2].ljust(2).encode("ascii")\<close>, a UnicodeEncodeError being a ValueError.\<close>

definition two_chars :: "string \<Rightarrow> string" where
  "two_chars s = take 2 s @ replicate (2 - length s) CHR '' ''"

definition ascii2 :: "pv \<Rightarrow> bytes res" where
  "ascii2 v =
     (let s = two_chars (to_str v) in
      if list_all (\<lambda>c. (of_char c :: nat) < 128) s then Inr (map of_char s) else Inl ValueError)"

definition rate_bytes :: "pdict \<Rightarrow> bytes res" where
  "rate_bytes r = andThen (u16 (getd r ''rate'' (PInt 0)))
     (\<lambda>rate. andThen (rate_word (getd r ''unit'' (PInt 0)) rate) le2)"

text \<open>\<open>(_u8(hi, 0, 15) << 4) | _u8(lo, 0, 15)\<close>\<close>

definition nibbles :: "pv \<Rightarrow> pv \<Rightarrow> bytes res" where
  "nibbles hi lo = andThen (u8_in hi 0 15) (\<lambda>h. andThen (u8_in lo 0 15) (\<lambda>l. byte1 (push_bit 4 h OR l)))"

definition listened_unit :: "pdict \<Rightarrow> bytes res" where
  "listened_unit nd =
     cat [bcd_bytes (node_addr nd), nibbles (getd nd ''quality'' (PInt 0)) (getd nd ''relay'' (PInt 0)),
          b8 (Inr (getd nd ''listen'' (PInt 0)))]"

definition mode_unit :: "pdict \<Rightarrow> bytes res" where
  "mode_unit params =
     (if params = [] then Inr []
      else andThen (cat [hex_param params ''mode'', b8 (req params ''monitor_timeout''),
                    w16 (req params ''broadcast_timeout''), w16 (req params ''max_frame''),
                    w16 (req params ''max_file_pkt''), b8 (req params ''upgrade_wait''),
                    bcd_param params ''addr'', w16 (req params ''max_nodes''), w16 (req params ''cur_nodes'')]) (\<lambda>head.
        andThen (hex_param params ''pub_date'') (\<lambda>pub. andThen (hex_param params ''rec_date'') (\<lambda>rec.
        andThen (hex_param params ''vendor_ver'') (\<lambda>vv.
          if length pub \<noteq> 3 \<or> length rec \<noteq> 3 \<or> length vv \<noteq> 9 then Inl ValueError
          else andThen (elements (get_list params ''rates'')) (\<lambda>rates.
            cat (Inr (head @ pub @ rec @ vv) # map (with_dict rate_bytes) rates)))))))"

text \<open>\<open>bitmap[(f - 1) >> 3] |= 1 << ((f - 1) & 7)\<close> for every listed function.\<close>

definition set_fn :: "bytes \<Rightarrow> nat \<Rightarrow> bytes" where
  "set_fn bitmap f =
     (let i = drop_bit 3 (f - 1) in bitmap[i := bitmap ! i OR of_nat (push_bit ((f - 1) AND 7) 1)])"

fun support_map :: "bytes \<Rightarrow> pv list \<Rightarrow> bytes res" where
  "support_map bitmap [] = Inr bitmap"
| "support_map bitmap (v # vs) = andThen (to_int v) (\<lambda>f.
     if \<not> (1 \<le> f \<and> f \<le> 255) then Inl ValueError else support_map (set_fn bitmap (nat f)) vs)"

definition enc_up_03 :: "nat \<Rightarrow> int \<Rightarrow> pdict \<Rightarrow> bytes res option" where
  "enc_up_03 afn fn params =
     (if (afn, fn) \<in> CONFIRMED then Some (Inl UnsupportedFn)
      else if (afn, fn) = (0x10, 104) then Some (Inl UnsupportedFn)
      else if (afn, fn) = (0x03, 1) then
        Some (andThen (hex_param params ''version'') (\<lambda>ver.
          if length ver \<noteq> 2 then Inl ValueError
          else cat [andThen (req params ''vendor'') ascii2, andThen (req params ''chip'') ascii2,
                    andThen (req params ''day'') (\<lambda>v. int_to_bcd v 31),
                    andThen (req params ''month'') (\<lambda>v. int_to_bcd v 12),
                    andThen (req params ''year'') (\<lambda>v. int_to_bcd v 99), Inr ver]))
      else if (afn, fn) = (0x03, 2) then Some (b_in (req params ''noise'') 0 15)
      else if (afn, fn) = (0x03, 3) then
        Some (andThen (nodes_list params ''nodes'') (\<lambda>nodes.
          cat ([b8 (req params ''total''), byte1 (length nodes)] @ map (with_dict listened_unit) nodes)))
      else if (afn, fn) = (0x03, 4) then Some (bcd_param params ''addr'')
      else if (afn, fn) = (0x03, 5) then
        Some (andThen (u8_in (getd params ''mode'' (PInt 0)) 0 3) (\<lambda>mode.
          andThen (u8_in (getd params ''channel'' (PInt 0)) 0 3) (\<lambda>channel.
          andThen (elements (get_list params ''rates'')) (\<lambda>rates.
          andThen (u8_in (PInt (int (length rates))) 0 15) (\<lambda>n.
            cat ([byte1 (push_bit 6 mode OR push_bit 4 channel OR n),
                  b_in (Inr (getd params ''channel_cnt'' (PInt 0))) 0 15]
                 @ map (with_dict rate_bytes) rates))))))
      else if (afn, fn) = (0x03, 6) then Some (b_in (req params ''status'') 0 1)
      else if (afn, fn) = (0x03, 7) then Some (b8 (req params ''timeout''))
      else if (afn, fn) = (0x03, 8) then Some (cat [b8 (req params ''channel''), b8 (req params ''power'')])
      else if (afn, fn) = (0x03, 9) then
        Some (andThen (hex_param params ''payload'') (\<lambda>payload.
          cat [w16 (req params ''delay''), b_in (req params ''protocol'') 0 3, byte1 (length payload), Inr payload]))
      else if (afn, fn) = (0x03, 10) then Some (mode_unit params)
      else if (afn, fn) = (0x03, 11) then
        Some (andThen (elements (get_list params ''support'')) (\<lambda>fs.
          andThen (support_map (replicate 32 0) fs) (\<lambda>bitmap. cat [b8 (req params ''afn''), Inr bitmap])))
      else if (afn, fn) = (0x03, 12) then
        Some (andThen (hex_param params ''id'') (\<lambda>mid.
          if 50 < length mid then Inl ValueError
          else cat [andThen (req params ''vendor'') ascii2, byte1 (length mid),
                    b_in (req params ''id_format'') 0 3, Inr mid]))
      else if (afn, fn) = (0x03, 16) then Some (b_in (req params ''band'') 0 3)
      else if (afn, fn) = (0x03, 100) then Some (b_in (req params ''threshold'') 0 255)
      else None)"

definition reported_unit :: "pdict \<Rightarrow> bytes res" where
  "reported_unit nd =
     cat [bcd_bytes (node_addr nd), b_in (Inr (getd nd ''protocol'' (PInt 2))) 0 3,
          w16 (Inr (getd nd ''seq'' (PInt 0)))]"

text \<open>\<open>s.get("addr", s)\<close>: only a dict has \<open>get\<close>, whose own text is no address.\<close>

definition attached_unit :: "pv \<Rightarrow> bytes res" where
  "attached_unit s = andThen (as_dict s)
     (\<lambda>d. cat [bcd_bytes (getd d ''addr'' s), b_in (Inr (getd d ''protocol'' (PInt 2))) 0 3])"

definition topology_unit :: "pdict \<Rightarrow> bytes res" where
  "topology_unit nd =
     andThen (cat [bcd_bytes (node_addr nd), b_in (Inr (getd nd ''protocol'' (PInt 2))) 0 3,
                   w16 (Inr (getd nd ''seq'' (PInt 0))), b8 (Inr (getd nd ''dev_type'' (PInt 1)))]) (\<lambda>head.
     andThen (elements (get_list nd ''subs'')) (\<lambda>subs.
       cat ([Inr head, b8 (Inr (PInt (int (length subs)))),
             b8 (Inr (getd nd ''frame_subs'' (PInt (int (length subs)))))] @ map attached_unit subs)))"

definition power_cut_unit :: "pdict \<Rightarrow> bytes res" where
  "power_cut_unit m = cat [hex_param m ''addr'', b_in (Inr (getd m ''power'' (PInt 0))) 0 1]"

definition refused_unit :: "pdict \<Rightarrow> bytes res" where
  "refused_unit r = cat [hex_param r ''addr'', b8 (Inr (getd r ''dev_type'' (PInt 1)))]"

definition event_content :: "nat \<Rightarrow> nat \<Rightarrow> pdict \<Rightarrow> bytes res" where
  "event_content dt proto params =
     (case map_of params ''payload'' of
        Some p \<Rightarrow> hex_bytes p
      | None \<Rightarrow>
          if proto = 0x04 \<and> dt = 0x00 then
            andThen (nodes_list params ''meters'') (\<lambda>ms. cat (map (with_dict power_cut_unit) ms))
          else if proto = 0x04 then
            andThen (b_in (req params ''event'') 1 2) (\<lambda>e.
              andThen (elements (get_list params ''addrs'')) (\<lambda>addrs. cat (Inr e # map bcd_bytes addrs)))
          else if proto = 0x05 then
            andThen (nodes_list params ''rejected'') (\<lambda>rej.
              if 32 < length rej then Inl ValueError
              else cat (byte1 (length rej) # map (with_dict refused_unit) rej))
          else Inl ValueError)"

definition enc_up_06 :: "nat \<Rightarrow> int \<Rightarrow> pdict \<Rightarrow> bytes res option" where
  "enc_up_06 afn fn params =
     (if (afn, fn) = (0x06, 1) then
        Some (andThen (nodes_list params ''nodes'') (\<lambda>nodes.
          cat (b8 (Inr (PInt (int (length nodes)))) # map (with_dict reported_unit) nodes)))
      else if (afn, fn) = (0x06, 2) then
        Some (andThen (short_payload params) (\<lambda>payload.
          cat [w16 (req params ''seq''), b_in (req params ''protocol'') 0 3,
               w16 (Inr (getd params ''up_len'' (PInt 0))), byte1 (length payload), Inr payload]))
      else if (afn, fn) = (0x06, 3) then Some (b_in (req params ''type'') 1 3)
      else if (afn, fn) = (0x06, 4) then
        Some (andThen (nodes_list params ''nodes'') (\<lambda>nodes.
          cat (b8 (Inr (PInt (int (length nodes)))) # map (with_dict topology_unit) nodes)))
      else if (afn, fn) = (0x06, 5) then
        Some (andThen (req params ''dev_type'') (\<lambda>dv. andThen (u8_in dv 0 0xFF) (\<lambda>dt.
          andThen (req params ''protocol'') (\<lambda>pv. andThen (u8_in pv 0 5) (\<lambda>proto.
          andThen (event_content dt proto params) (\<lambda>content.
            if 255 < length content then Inl ValueError
            else cat [byte1 dt, byte1 proto, byte1 (length content), Inr content]))))))
      else None)"

text \<open>The information word of a node, given as a number or field by field.\<close>

definition info_word :: "pv \<Rightarrow> nat res" where
  "info_word v =
     (case v of
        PDict info \<Rightarrow>
          andThen (u8_in (getd info ''quality'' (PInt 0)) 0 15) (\<lambda>q.
          andThen (u8_in (getd info ''relay'' (PInt 0)) 0 15) (\<lambda>r.
          andThen (u8_in (getd info ''proto'' (PInt 0)) 0 7) (\<lambda>p.
          andThen (u8_in (getd info ''phase'' (PInt 0)) 0 15) (\<lambda>ph.
            Inr ((push_bit 4 q OR r) OR (push_bit 12 p OR push_bit 8 ph))))))
      | _ \<Rightarrow> u16 (if truthy v then v else PInt 0))"

definition info_unit :: "pdict \<Rightarrow> bytes res" where
  "info_unit nd = cat [bcd_bytes (node_addr nd), andThen (info_word (pget nd ''info'')) le2]"

definition route_unit :: "pdict \<Rightarrow> bytes res" where
  "route_unit nd = cat [bcd_bytes (node_addr nd), w16 (Inr (getd nd ''info'' (PInt 0)))]"

text \<open>\<open>_hex_bytes(_req(nd, k))\<close> of a fixed length.\<close>

definition hex_of :: "pdict \<Rightarrow> string \<Rightarrow> nat \<Rightarrow> bytes res" where
  "hex_of nd key n = andThen (hex_param nd key) (\<lambda>b. if length b \<noteq> n then Inl ValueError else Inr b)"

definition hex_dflt :: "pdict \<Rightarrow> string \<Rightarrow> string \<Rightarrow> nat \<Rightarrow> bytes res" where
  "hex_dflt nd key dflt n = andThen (hex_bytes (getd nd key (PStr dflt)))
     (\<lambda>b. if length b \<noteq> n then Inl ValueError else Inr b)"

text \<open>\<open>str(v).encode("ascii", "replace")[:2].ljust(2)\<close>\<close>

definition ascii2_replace :: "pv \<Rightarrow> bytes" where
  "ascii2_replace v =
     (let bs = take 2 (map (\<lambda>c. if (of_char c :: nat) < 128 then of_char c else 0x3F) (to_str v))
      in bs @ replicate (2 - length bs) 0x20)"

definition id_unit :: "pdict \<Rightarrow> bytes res" where
  "id_unit nd =
     andThen (cat [hex_of nd ''addr'' 6, b8 (Inr (getd nd ''node_type'' (PInt 0))),
                   Inr (ascii2_replace (getd nd ''vendor'' (PStr ''  '')))]) (\<lambda>head.
     andThen (hex_bytes (getd nd ''id'' (PStr []))) (\<lambda>mid.
       cat [Inr head, byte1 (length mid), b_in (Inr (getd nd ''id_format'' (PInt 2))) 0 3, Inr mid]))"

definition route_state_unit :: "pdict \<Rightarrow> bytes res" where
  "route_state_unit params =
     andThen (cat [b8 (req params ''status''), w16 (req params ''total''), w16 (req params ''read''),
                   w16 (req params ''relay_read''), b8 (req params ''switch''),
                   andThen (req params ''rate'') (\<lambda>v. andThen (u16 v) (\<lambda>rate.
                     andThen (rate_word (PInt 0) rate) le2))]) (\<lambda>head.
     andThen (elements (if truthy (pget params ''relay_level'') then pget params ''relay_level''
                        else PList [PInt 0, PInt 0, PInt 0])) (\<lambda>levels.
     andThen (cat (map (\<lambda>v. b8 (Inr v)) levels)) (\<lambda>ls.
     andThen (elements (if truthy (pget params ''steps'') then pget params ''steps''
                        else PList [PInt 0, PInt 0, PInt 0])) (\<lambda>steps.
       cat (Inr (head @ ls) # map (\<lambda>v. b8 (Inr v)) steps)))))"

definition node_list_unit :: "(pdict \<Rightarrow> bytes res) \<Rightarrow> pdict \<Rightarrow> bytes res" where
  "node_list_unit f params =
     andThen (nodes_list params ''nodes'') (\<lambda>nodes.
       cat ([w16 (req params ''total''), byte1 (length nodes)] @ map (with_dict f) nodes))"

definition node_list_from :: "(pdict \<Rightarrow> bytes res) \<Rightarrow> pdict \<Rightarrow> bytes res" where
  "node_list_from f params =
     andThen (nodes_list params ''nodes'') (\<lambda>nodes.
       cat ([w16 (req params ''total''), w16 (Inr (getd params ''start'' (PInt 0))), byte1 (length nodes)]
            @ map (with_dict f) nodes))"

definition enc_up_10a :: "nat \<Rightarrow> int \<Rightarrow> pdict \<Rightarrow> bytes res option" where
  "enc_up_10a afn fn params =
     (if (afn, fn) = (0x10, 1) then Some (cat [w16 (req params ''total''), w16 (req params ''max'')])
      else if (afn, fn) \<in> {(0x10, 2), (0x10, 5), (0x10, 6)} then Some (node_list_unit info_unit params)
      else if (afn, fn) = (0x10, 3) then
        Some (andThen (nodes_list params ''nodes'') (\<lambda>nodes.
          cat (b8 (Inr (PInt (int (length nodes)))) # map (with_dict route_unit) nodes)))
      else if (afn, fn) = (0x10, 4) then Some (route_state_unit params)
      else if (afn, fn) = (0x10, 7) then Some (node_list_unit id_unit params)
      else if (afn, fn) \<in> {(0x10, 9), (0x10, 100)} then Some (w16 (req params ''scale''))
      else None)"

definition hplc_unit :: "pdict \<Rightarrow> bytes res" where
  "hplc_unit nd =
     cat [hex_of nd ''addr'' 6, w16 (req nd ''tei''), w16 (Inr (getd nd ''proxy'' (PInt 0))),
          nibbles (getd nd ''role'' (PInt 0)) (getd nd ''level'' (PInt 0))]"

definition phase_unit :: "pdict \<Rightarrow> bytes res" where
  "phase_unit nd = cat [hex_of nd ''addr'' 6, w16 (Inr (getd nd ''info'' (PInt 0)))]"

definition version_unit :: "pdict \<Rightarrow> bytes res" where
  "version_unit nd =
     cat [bcd_bytes (node_addr nd), w16 (Inr (getd nd ''info'' (PInt 0))), hex_dflt nd ''ver'' ''000000'' 3]"

definition chip_unit :: "pdict \<Rightarrow> bytes res" where
  "chip_unit nd =
     andThen (hex_of nd ''addr'' 6) (\<lambda>addr. andThen (hex_of nd ''chip_id'' 24) (\<lambda>chip.
     andThen (hex_dflt nd ''ver'' ''0000'' 2) (\<lambda>ver.
       cat [Inr addr, b8 (Inr (getd nd ''dev_type'' (PInt 1))), Inr chip, Inr ver])))"

definition enc_up_10b :: "nat \<Rightarrow> int \<Rightarrow> pdict \<Rightarrow> bytes res option" where
  "enc_up_10b afn fn params =
     (if (afn, fn) = (0x10, 21) then Some (node_list_from hplc_unit params)
      else if (afn, fn) = (0x10, 31) then Some (node_list_from phase_unit params)
      else if (afn, fn) = (0x10, 40) then
        Some (andThen (hex_param params ''id'') (\<lambda>mid.
          cat [b_in (req params ''dev_type'') 1 7, hex_param params ''addr'', b_in (req params ''id_type'') 1 2,
               byte1 (length mid), Inr mid]))
      else if (afn, fn) = (0x10, 101) then Some (node_list_unit version_unit params)
      else if (afn, fn) = (0x10, 111) then
        Some (andThen (elements (get_list params ''neighbors'')) (\<lambda>nbs.
          cat ([b8 (Inr (PInt (int (length nbs) + 1))), andThen (req params ''self_nid'') nid3,
                hex_param params ''self_master''] @ map nid3 nbs)))
      else if (afn, fn) = (0x10, 112) then Some (node_list_from chip_unit params)
      else None)"

definition enc_up_13_F1 :: "nat \<Rightarrow> int \<Rightarrow> pdict \<Rightarrow> bytes res option" where
  "enc_up_13_F1 afn fn params =
     (if (afn, fn) = (0x13, 1) then
        Some (andThen (short_payload params) (\<lambda>payload.
          cat [w16 (req params ''up_len''), b_in (req params ''protocol'') 0 3, byte1 (length payload), Inr payload]))
      else if (afn, fn) = (0x14, 1) then
        Some (cat [b_in (req params ''phase'') 0 3, bcd_param params ''addr'', w16 (req params ''seq'')])
      else if (afn, fn) = (0x14, 2) then Some (Inr [])
      else if (afn, fn) = (0x14, 3) then
        Some (andThen (short_payload params) (\<lambda>payload.
          cat [bcd_param params ''addr'', w16 (req params ''delay''), byte1 (length payload), Inr payload]))
      else if (afn, fn) = (0x14, 4) then
        Some (cat [b_in (req params ''type'') 1 2, hex_param params ''item''])
      else if (afn, fn) = (0x15, 1) then Some (hex_of params ''seg_id'' 4)
      else if (afn, fn) = (0xF1, 1) then
        Some (andThen (hex_param params ''payload'') (\<lambda>payload.
          cat [b_in (req params ''protocol'') 0 3, w16 (Inr (PInt (int (length payload)))), Inr payload]))
      else None)"

section \<open>The encoder\<close>

text \<open>The first group that knows the function decides.\<close>

fun first_group :: "bytes res option list \<Rightarrow> bytes res" where
  "first_group [] = Inl UnsupportedFn"
| "first_group (None # gs) = first_group gs"
| "first_group (Some r # gs) = r"

definition encode_app_data :: "int \<Rightarrow> int \<Rightarrow> pdict option \<Rightarrow> direction \<Rightarrow> bytes res" where
  "encode_app_data afn0 fn params0 dir =
     (let params = (case params0 of None \<Rightarrow> [] | Some d \<Rightarrow> d);
          afn = nat (afn0 AND 0xFF)
      in first_group
           (enc_common afn fn params #
            (if dir \<noteq> Up
             then [enc_down_03_05 afn fn params, enc_down_10_11 afn fn params, enc_down_13_F1 afn fn params]
             else [enc_up_03 afn fn params, enc_up_06 afn fn params, enc_up_10a afn fn params,
                   enc_up_10b afn fn params, enc_up_13_F1 afn fn params])))"

end
