(* ===== verification/Adapter_645.thy ===== *)
theory Adapter_645
  imports Frame_Splitter
begin

text \<open>
  The DL/T 645 meter protocol adapter, \<open>libs/parser_lib/adapters/adapter_645/__init__.py\<close>:
  frame construction with and without transport escaping, extraction from a stream, the
  sniffing score and the decoder. Python's \<open>IndexError\<close> inside the extractors is caught
  there and means "not a frame yet"; it is \<open>None\<close>. In the decoder it escapes, and is a left
  value.

  The decoder's display strings are not modelled; the values they are formatted from are, one
  constructor per kind of data item and of warning. The data-item dictionary (a JSON file)
  is a parameter.
\<close>

section \<open>Escaping\<close>

definition ESCAPE_SET :: bytes where
  "ESCAPE_SET = [0x68, 0x1B, 0x16]"

fun unescape :: "bytes \<Rightarrow> bytes" where
  "unescape [] = []"
| "unescape [b] = [b]"
| "unescape (b # c # rest) =
     (if b = 0x1B then c # unescape rest else b # unescape (c # rest))"

text \<open>One step of the loop over \<open>logical[8:-1]\<close> in \<open>build_frame_escaped\<close>.\<close>

definition escape1 :: "byte \<Rightarrow> bytes" where
  "escape1 b = (if b \<in> set ESCAPE_SET then [0x1B, b] else [b])"

abbreviation escape :: "bytes \<Rightarrow> bytes" where
  "escape bs \<equiv> concat (map escape1 bs)"

lemma unescape_plain [simp]: "b \<noteq> 0x1B \<Longrightarrow> unescape (b # rest) = b # unescape rest"
  by (cases rest) auto

lemma unescape_plain_append: "0x1B \<notin> set xs \<Longrightarrow> unescape (xs @ rest) = xs @ unescape rest"
  by (induction xs) auto

lemma unescape_escape1: "unescape (escape1 b @ rest) = b # unescape rest"
  by (auto simp: escape1_def ESCAPE_SET_def)

lemma unescape_escape: "unescape (escape bs @ rest) = bs @ unescape rest"
  by (induction bs) (auto simp: unescape_escape1)

section \<open>Building frames\<close>

text \<open>
  \<open>bytes([...])\<close> raises ValueError for a value above 255: the control code or the length of
  the data field.
\<close>

definition build_frame :: "bytes \<Rightarrow> nat \<Rightarrow> bytes \<Rightarrow> bytes option" where
  "build_frame addr control data =
     (if control < 256 \<and> length data < 256
      then
        let body = [0x68] @ addr @ [0x68, of_nat control, of_nat (length data)] @ data;
            cs = byte_sum body mod 256
        in Some (body @ [of_nat cs, 0x16])
      else None)"

definition build_frame_escaped :: "bytes \<Rightarrow> nat \<Rightarrow> bytes \<Rightarrow> bytes option" where
  "build_frame_escaped addr control data =
     do { logical \<leftarrow> build_frame addr control data;
          first \<leftarrow> py_at logical 0;
          second \<leftarrow> py_at logical 7;
          let n = length logical;
          Some ([first] @ py_slice logical 1 7 @ [second]
                @ escape (py_slice logical 8 (n - 1)) @ [logical ! (n - 1)]) }"

text \<open>\<open>_bcd_decode\<close>: the digits are written in decimal and joined, so a nibble above 9 gives two.\<close>

definition push_digit :: "nat \<Rightarrow> nat \<Rightarrow> nat" where
  "push_digit acc d = (if d < 10 then acc * 10 + d else acc * 100 + d)"

definition bcd_decode :: "bytes \<Rightarrow> nat" where
  "bcd_decode data =
     foldl (\<lambda>acc b. push_digit (push_digit acc (drop_bit 4 (unat b) AND 15)) (unat b AND 15))
       0 (rev data)"

section \<open>Extraction\<close>

definition try_extract_plain :: "bytes \<Rightarrow> extract_result option" where
  "try_extract_plain buf =
     (if buf = [] \<or> hd buf \<noteq> 0x68 then None
      else do { b7 \<leftarrow> py_at buf 7;
        if b7 \<noteq> 0x68 then None
        else do { l \<leftarrow> py_at buf 9;
          if \<not> unat l \<le> 200 then None
          else do { e \<leftarrow> py_at buf (11 + unat l);
            if e \<noteq> 0x16 then None
            else Some \<lparr>ex_raw = take (12 + unat l) buf, ex_consumed = 12 + unat l\<rparr> }}})"

text \<open>The search for the first unescaped start byte; the index runs along.\<close>

fun esc_start :: "nat \<Rightarrow> bytes \<Rightarrow> nat option" where
  "esc_start i [] = None"
| "esc_start i (b # bs) =
     (if b = 0x1B then esc_start (i + 2) (tl bs)
      else if b = 0x68 then Some i
      else esc_start (i + 1) bs)"

text \<open>
  The reader closure \<open>rb\<close>. Its position is represented by the bytes that are left,
  \<open>buf[pos:]\<close>; \<open>None\<close> is the IndexError.
\<close>

fun rb :: "bytes \<Rightarrow> (byte \<times> bytes) option" where
  "rb [] = None"
| "rb (b # rest) =
     (if b = 0x1B
      then (case rest of [] \<Rightarrow> None | v # rest' \<Rightarrow> Some (v, rest'))
      else Some (b, rest))"

fun rb_many :: "nat \<Rightarrow> bytes \<Rightarrow> (bytes \<times> bytes) option" where
  "rb_many 0 bs = Some ([], bs)"
| "rb_many (Suc n) bs =
     do { (v, bs') \<leftarrow> rb bs; (vs, bs'') \<leftarrow> rb_many n bs'; Some (v # vs, bs'') }"

text \<open>The body of the \<open>try\<close> block, from \<open>buf[start:]\<close>: what is left behind the frame.\<close>

definition parse_escaped :: "bytes \<Rightarrow> bytes option" where
  "parse_escaped bs =
     do { (s, r) \<leftarrow> rb bs;
          if s \<noteq> 0x68 then None else do {
          (addr, r) \<leftarrow> rb_many 6 r;
          (s2, r) \<leftarrow> rb r;
          if s2 \<noteq> 0x68 then None else do {
          (c, r) \<leftarrow> rb r;
          (l, r) \<leftarrow> rb r;
          if \<not> unat l \<le> 200 then None else do {
          (data, r) \<leftarrow> rb_many (unat l) r;
          (cs, r) \<leftarrow> rb r;
          (e, r) \<leftarrow> rb r;
          if e \<noteq> 0x16 then None else Some r }}}}"

definition try_extract_escaped :: "bytes \<Rightarrow> extract_result option" where
  "try_extract_escaped buf =
     (if buf = [] \<or> hd buf \<noteq> 0x68 then None
      else do { start \<leftarrow> esc_start 0 buf;
                r \<leftarrow> parse_escaped (drop start buf);
                let consumed = length buf - start - length r;
                Some \<lparr>ex_raw = py_slice buf start (start + consumed), ex_consumed = consumed\<rparr> })"

definition try_extract_645 :: "bytes \<Rightarrow> extract_result option" where
  "try_extract_645 buf =
     (case try_extract_escaped buf of Some r \<Rightarrow> Some r | None \<Rightarrow> try_extract_plain buf)"

section \<open>Sniffing\<close>

definition logical_bytes :: "bytes \<Rightarrow> bytes" where
  "logical_bytes raw =
     (let lb = unescape raw in
      if 12 \<le> length lb \<and> lb ! 0 = 0x68 \<and> lb ! 7 = 0x68 \<and> last lb = 0x16
         \<and> unat (lb ! 9) \<le> 200 \<and> length lb = 12 + unat (lb ! 9)
      then lb else raw)"

definition confidence_645 :: "bytes \<Rightarrow> rat" where
  "confidence_645 raw =
     (let lb = logical_bytes raw in
      if length lb < 12 then 0
      else if lb ! 0 \<noteq> 0x68 \<or> lb ! 7 \<noteq> 0x68 \<or> last lb \<noteq> 0x16 then 0
      else if lb ! 3 = 0x68 then 0
      else if 200 < unat (lb ! 9) \<or> length lb \<noteq> 12 + unat (lb ! 9) then 0
      else if \<not> (1 \<le> unat (lb ! 8) AND 15 \<and> unat (lb ! 8) AND 15 \<le> 12) then 3/10
      else if byte_sum (take (length lb - 2) lb) mod 256 = unat (lb ! (length lb - 2)) then 1
      else 4/10)"

section \<open>Decoding\<close>

record 'm meta645 =
  md_bcd_compact :: bool
  md_scale :: nat
  md_text :: 'm

datatype value645 = Num rat | Hex bytes

datatype 'm item645 =
    CommAddress bytes
  | CalendarTime nat nat nat nat nat nat
  | CalendarRaw bytes
  | KnownDI 'm value645 bytes
  | UnknownDI string bytes
  | RawDomain bytes

datatype warning645 = ChecksumFailed nat nat | UnknownDIKey string

record 'm frame645 =
  f_addr :: string
  f_control :: nat
  f_up :: bool
  f_err :: bool
  f_more :: bool
  f_func :: nat
  f_len :: nat
  f_cs :: "(nat \<times> bool) option"
  f_items :: "'m item645 list"
  f_warnings :: "warning645 list"

text \<open>The data item of a frame and its warning, from the data field after decryption.\<close>

definition di_item :: "(string \<Rightarrow> 'm meta645 option) \<Rightarrow> bytes
    \<Rightarrow> py_exc + 'm item645 \<times> warning645 list" where
  "di_item lookup data =
     (if length data < 4 then Inl IndexError
      else
        let di_key = hex_upper [data ! 3, data ! 2, data ! 1, data ! 0];
            payload = drop 4 data
        in case lookup di_key of
             Some meta \<Rightarrow>
               (if md_bcd_compact meta \<and> payload \<noteq> []
                then Inr (KnownDI (md_text meta)
                       (Num (if md_scale meta \<noteq> 0
                             then of_nat (bcd_decode payload) / 10 ^ md_scale meta
                             else of_nat (bcd_decode payload))) payload, [])
                else Inr (KnownDI (md_text meta) (Hex payload) payload, []))
           | None \<Rightarrow> Inr (UnknownDI di_key payload, [UnknownDIKey di_key]))"

definition item_of :: "(string \<Rightarrow> 'm meta645 option) \<Rightarrow> nat \<Rightarrow> nat \<Rightarrow> bytes
    \<Rightarrow> py_exc + 'm item645 \<times> warning645 list" where
  "item_of lookup func l data =
     (if func = 3 \<and> 0 < l then Inr (CommAddress data, [])
      else if func = 8 \<and> 0 < l then
        (if 6 \<le> l
         then (case map unat (take 6 data) of
                 [sec, minute, hour, day, month, year] \<Rightarrow>
                   Inr (CalendarTime sec minute hour day month year, [])
               | _ \<Rightarrow> Inl ValueError)
         else Inr (CalendarRaw data, []))
      else if 4 \<le> l then di_item lookup data
      else Inr (RawDomain data, []))"

definition decode_645 :: "(string \<Rightarrow> 'm meta645 option) \<Rightarrow> bytes \<Rightarrow> py_exc + 'm frame645" where
  "decode_645 lookup raw =
     (let lb = logical_bytes raw in
      if length lb \<le> 9 then Inl IndexError
      else
        let addr = py_slice lb 1 7;
            c = unat (lb ! 8);
            l = unat (lb ! 9);
            data = py_slice lb 10 (10 + l);
            cs_idx = 10 + l;
            func = c AND 15;
            calc = byte_sum (take (length lb - 2) lb) mod 256;
            cs = (if cs_idx < length lb
                  then Some (unat (lb ! cs_idx), calc = unat (lb ! cs_idx)) else None);
            cs_warn = (case cs of Some (v, False) \<Rightarrow> [ChecksumFailed v calc] | _ \<Rightarrow> []);
            plain = (if 0 < l \<and> func \<noteq> 3 \<and> func \<noteq> 8 then map (\<lambda>b. b - 0x33) data else data)
        in case item_of lookup func l plain of
             Inl e \<Rightarrow> Inl e
           | Inr (it, ws) \<Rightarrow>
               Inr \<lparr>f_addr = hex_upper addr, f_control = c, f_up = (c AND 128 \<noteq> 0),
                    f_err = (c AND 64 \<noteq> 0), f_more = (c AND 32 \<noteq> 0), f_func = func,
                    f_len = l, f_cs = cs, f_items = [it], f_warnings = cs_warn @ ws\<rparr>)"

section \<open>The extractor meets the splitter's interface\<close>

lemma rb_shorter: "rb bs = Some (v, r) \<Longrightarrow> length r < length bs \<and> suffix r bs"
  by (cases bs rule: rb.cases) (auto split: if_splits list.splits intro: suffix_ConsI)

lemma rb_many_suffix: "rb_many n bs = Some (vs, r) \<Longrightarrow> suffix r bs"
proof (induction n arbitrary: bs vs)
  case 0
  then show ?case by simp
next
  case (Suc n)
  then obtain v b vs' where "rb bs = Some (v, b)" "rb_many n b = Some (vs', r)"
    by (auto split: Option.bind_splits)
  with Suc.IH rb_shorter show ?case by (metis suffix_order.trans)
qed

lemma parse_escaped_suffix:
  assumes "parse_escaped bs = Some r"
  shows "suffix r bs" and "length r < length bs"
proof -
  from assms obtain s r1 a r2 s2 r3 c r4 l r5 d r6 cs r7 e where p:
    "rb bs = Some (s, r1)" "rb_many 6 r1 = Some (a, r2)" "rb r2 = Some (s2, r3)"
    "rb r3 = Some (c, r4)" "rb r4 = Some (l, r5)" "rb_many (unat l) r5 = Some (d, r6)"
    "rb r6 = Some (cs, r7)" "rb r7 = Some (e, r)"
    by (auto simp: parse_escaped_def split: Option.bind_splits if_splits)
  have "suffix r r1"
    using p(2-8) rb_shorter rb_many_suffix by (meson suffix_order.trans)
  with rb_shorter [OF p(1)] show "suffix r bs" "length r < length bs"
    by (auto intro: suffix_order.trans dest: suffix_length_le)
qed

lemma esc_start_head: "bs \<noteq> [] \<Longrightarrow> hd bs = 0x68 \<Longrightarrow> esc_start i bs = Some i"
  by (cases bs) auto

lemma try_extract_escaped_Some:
  assumes "try_extract_escaped buf = Some x"
  shows "\<exists>r. parse_escaped buf = Some r \<and> suffix r buf \<and> length r < length buf
     \<and> x = \<lparr>ex_raw = take (length buf - length r) buf, ex_consumed = length buf - length r\<rparr>"
proof -
  have h: "buf \<noteq> []" "hd buf = 0x68"
    using assms by (auto simp: try_extract_escaped_def split: if_splits)
  note s = esc_start_head [OF h]
  from assms h obtain r where r: "parse_escaped buf = Some r"
    and x: "x = \<lparr>ex_raw = py_slice buf 0 (length buf - length r),
                 ex_consumed = length buf - length r\<rparr>"
    by (auto simp: try_extract_escaped_def s Let_def split: Option.bind_splits)
  with parse_escaped_suffix [OF r] show ?thesis by (simp add: slice_simps)
qed

lemma try_extract_plain_Some:
  assumes "try_extract_plain buf = Some x"
  shows "\<exists>n. 12 \<le> n \<and> n \<le> length buf \<and> x = \<lparr>ex_raw = take n buf, ex_consumed = n\<rparr>"
  using assms
  by (auto simp: try_extract_plain_def split: if_splits Option.bind_splits
      intro!: exI [of _ "12 + _"])

interpretation dlt645: frame_extractor try_extract_645
proof unfold_locales
  fix buf x
  assume x: "try_extract_645 buf = Some x"
  show "0 < ex_consumed x" "ex_consumed x \<le> length buf" "ex_raw x = take (ex_consumed x) buf"
    using x try_extract_escaped_Some [of buf x] try_extract_plain_Some [of buf x]
    by (auto simp: try_extract_645_def split: option.splits)
qed

section \<open>Round trips\<close>

lemma rb_escape1: "rb (escape1 b @ rest) = Some (b, rest)"
  by (auto simp: escape1_def ESCAPE_SET_def)

lemma rb_many_escape: "rb_many (length bs) (escape bs @ rest) = Some (bs, rest)"
  by (induction bs) (auto simp: rb_escape1)

lemma rb_many_plain: "0x1B \<notin> set bs \<Longrightarrow> rb_many (length bs) (bs @ rest) = Some (bs, rest)"
  by (induction bs) auto

text \<open>The shape of a frame, unescaped and escaped.\<close>

definition frame_sum :: "bytes \<Rightarrow> nat \<Rightarrow> bytes \<Rightarrow> byte" where
  "frame_sum addr control data =
     of_nat (byte_sum ([0x68] @ addr @ [0x68, of_nat control, of_nat (length data)] @ data) mod 256)"

lemma build_frame_eq:
  "control < 256 \<Longrightarrow> length data < 256 \<Longrightarrow>
     build_frame addr control data =
       Some ([0x68] @ addr @ [0x68, of_nat control, of_nat (length data)] @ data
             @ [frame_sum addr control data, 0x16])"
  by (simp add: build_frame_def frame_sum_def Let_def)

lemma build_frame_escaped_eq:
  assumes "length addr = 6" "control < 256" "length data < 256"
  shows "build_frame_escaped addr control data =
    Some ([0x68] @ addr @ [0x68]
       @ escape ([of_nat control, of_nat (length data)] @ data @ [frame_sum addr control data])
       @ [0x16])"
proof -
  let ?body = "[of_nat control, of_nat (length data)] @ data @ [frame_sum addr control data]"
  let ?f = "[0x68] @ addr @ [0x68] @ ?body @ [0x16]"
  have "build_frame addr control data = Some ?f"
    using assms by (simp add: build_frame_eq)
  moreover have "py_at ?f 0 = Some 0x68" "py_at ?f 7 = Some 0x68"
    using assms(1) by (simp_all add: nth_append)
  moreover have "py_slice ?f 1 7 = addr"
    using assms(1) by (simp add: py_slice_def)
  moreover have "py_slice (([0x68] @ addr @ [0x68]) @ ?body @ [0x16]) 8 (length ?f - 1) = ?body"
    by (rule py_slice_append) (use assms(1) in simp_all)
  moreover have "?f ! (length ?f - 1) = 0x16"
    by (simp add: nth_append)
  ultimately show ?thesis
    unfolding build_frame_escaped_def
    by (simp only: Option.bind.simps Let_def append.simps append_assoc)
qed

lemma parse_escaped_frame:
  assumes "length addr = 6" "0x1B \<notin> set addr" "unat l \<le> 200" "length data = unat l"
  shows "parse_escaped ([0x68] @ addr @ [0x68] @ escape ([c, l] @ data @ [cs]) @ [0x16] @ rest)
    = Some rest"
proof -
  have "rb_many 6 (addr @ r) = Some (addr, r)" for r
    using rb_many_plain [OF assms(2), of r] assms(1) by simp
  moreover have "rb_many (unat l) (escape data @ r) = Some (data, r)" for r
    using rb_many_escape [of data r] assms(4) by simp
  ultimately show ?thesis
    using assms(3) by (simp add: parse_escaped_def rb_escape1)
qed

lemma try_extract_escaped_frame:
  assumes "parse_escaped (f @ rest) = Some rest" "f \<noteq> []" "hd f = 0x68"
  shows "try_extract_645 (f @ rest) = Some \<lparr>ex_raw = f, ex_consumed = length f\<rparr>"
proof -
  have "esc_start 0 (f @ rest) = Some 0" using assms by (simp add: esc_start_head)
  with assms show ?thesis
    by (simp add: try_extract_645_def try_extract_escaped_def Let_def slice_simps)
qed

lemma frame_nths:
  assumes "length addr = 6"
  shows "([0x68] @ addr @ [0x68, c, l] @ data @ [s, 0x16]) ! 7 = 0x68"
    and "([0x68] @ addr @ [0x68, c, l] @ data @ [s, 0x16]) ! 8 = c"
    and "([0x68] @ addr @ [0x68, c, l] @ data @ [s, 0x16]) ! 9 = l"
    and "([0x68] @ addr @ [0x68, c, l] @ data @ [s, 0x16]) ! 3 = addr ! 2"
    and "([0x68] @ addr @ [0x68, c, l] @ data @ [s, 0x16]) ! (10 + length data) = s"
  using assms by (simp_all add: nth_append)

lemma unescape_frame:
  assumes "0x1B \<notin> set addr"
  shows "unescape ([0x68] @ addr @ [0x68] @ escape bs @ [0x16]) = [0x68] @ addr @ [0x68] @ bs @ [0x16]"
  using assms by (simp add: unescape_plain_append unescape_escape)

lemma logical_bytes_frame:
  assumes "length addr = 6" "unat l \<le> 200" "length data = unat l"
    and "unescape raw = [0x68] @ addr @ [0x68, c, l] @ data @ [s, 0x16]"
  shows "logical_bytes raw = [0x68] @ addr @ [0x68, c, l] @ data @ [s, 0x16]"
  using frame_nths [OF assms(1), of c l data s] assms
  by (simp add: logical_bytes_def Let_def)

lemma byte_count: "length (data :: bytes) \<le> 200 \<Longrightarrow> unat (of_nat (length data) :: byte) = length data"
  by (simp add: codec_simps)

text \<open>The escaped frame, spelled out.\<close>

definition escaped_frame :: "bytes \<Rightarrow> nat \<Rightarrow> bytes \<Rightarrow> bytes" where
  "escaped_frame addr control data =
     [0x68] @ addr @ [0x68]
     @ escape ([of_nat control, of_nat (length data)] @ data @ [frame_sum addr control data])
     @ [0x16]"

definition logical_frame :: "bytes \<Rightarrow> nat \<Rightarrow> bytes \<Rightarrow> bytes" where
  "logical_frame addr control data =
     [0x68] @ addr @ [0x68, of_nat control, of_nat (length data)] @ data
     @ [frame_sum addr control data, 0x16]"

lemma escaped_frame_cut:
  assumes "length addr = 6" "0x1B \<notin> set addr" "length data \<le> 200"
  shows "try_extract_645 (escaped_frame addr control data @ rest)
    = Some \<lparr>ex_raw = escaped_frame addr control data,
            ex_consumed = length (escaped_frame addr control data)\<rparr>"
proof (rule try_extract_escaped_frame)
  show "parse_escaped (escaped_frame addr control data @ rest) = Some rest"
    using parse_escaped_frame [OF assms(1,2), of "of_nat (length data)" data] assms(3)
    by (simp add: escaped_frame_def byte_count)
qed (simp_all add: escaped_frame_def)

lemma logical_bytes_escaped:
  assumes "length addr = 6" "0x1B \<notin> set addr" "length data \<le> 200"
  shows "logical_bytes (escaped_frame addr control data) = logical_frame addr control data"
  unfolding escaped_frame_def logical_frame_def
  using unescape_frame [OF assms(2),
      of "[of_nat control, of_nat (length data)] @ data @ [frame_sum addr control data]"] assms(1,3)
  by (intro logical_bytes_frame) (simp_all add: byte_count)

lemma build_frame_logical:
  "control < 256 \<Longrightarrow> length data < 256 \<Longrightarrow> build_frame addr control data = Some (logical_frame addr control data)"
  by (simp add: build_frame_eq logical_frame_def)

lemma build_frame_escaped_escaped:
  "length addr = 6 \<Longrightarrow> control < 256 \<Longrightarrow> length data < 256 \<Longrightarrow>
     build_frame_escaped addr control data = Some (escaped_frame addr control data)"
  by (simp add: build_frame_escaped_eq escaped_frame_def)

text \<open>
  C2. A frame built with transport escaping is cut out of a stream
  whatever follows it, and undoing the escaping gives the frame as it was before. The address
  must hold no byte 1BH: it is not escaped by the builder, yet it is unescaped by the reader (a
  BCD address never holds that byte).
\<close>

theorem escaped_frame_roundtrip:
  assumes "length addr = 6" "0x1B \<notin> set addr" "control < 256" "length data \<le> 200"
  shows "\<exists>logical e. build_frame addr control data = Some logical
     \<and> build_frame_escaped addr control data = Some e
     \<and> try_extract_645 (e @ rest) = Some \<lparr>ex_raw = e, ex_consumed = length e\<rparr>
     \<and> logical_bytes e = logical"
  using escaped_frame_cut [OF assms(1,2,4)] logical_bytes_escaped [OF assms(1,2,4)] assms
  by (simp add: build_frame_logical build_frame_escaped_escaped)

theorem escaped_frame_roundtrip_witness:
  "\<exists>logical e. build_frame [0x12, 0x16, 0x68, 0, 0, 1] 0x91 [0x1B, 0x68] = Some logical
     \<and> build_frame_escaped [0x12, 0x16, 0x68, 0, 0, 1] 0x91 [0x1B, 0x68] = Some e
     \<and> try_extract_645 (e @ [0xFE]) = Some \<lparr>ex_raw = e, ex_consumed = length e\<rparr>
     \<and> logical_bytes e = logical"
  by (rule escaped_frame_roundtrip) simp_all

section \<open>The sniffing score\<close>

lemma byte_sum_take_frame:
  "xs = b @ [s, t] \<Longrightarrow> byte_sum (take (length xs - 2) xs) = byte_sum b"
  by simp

lemma confidence_of_logical:
  assumes "logical_bytes raw = [0x68] @ addr @ [0x68, c, l] @ data @ [s, 0x16]"
    and "length addr = 6" "unat l \<le> 200" "length data = unat l"
    and "unat s = byte_sum ([0x68] @ addr @ [0x68, c, l] @ data) mod 256"
  shows "confidence_645 raw =
    (if addr ! 2 = 0x68 then 0
     else if 1 \<le> unat c mod 16 \<and> unat c mod 16 \<le> 12 then 1 else 3/10)"
proof -
  define lb where "lb = [0x68] @ addr @ [0x68, c, l] @ data @ [s, 0x16]"
  note nths = frame_nths [OF assms(2), of c l data s, folded lb_def]
  have len: "length lb = 12 + length data" using assms(2) by (simp add: lb_def)
  have idx: "length lb - 2 = 10 + length data" using len by simp
  have sum: "byte_sum (take (length lb - 2) lb) mod 256 = unat s"
    unfolding assms(5) lb_def by (subst byte_sum_take_frame) auto
  have ends: "last lb = 0x16" "lb ! 0 = 0x68" by (simp_all add: lb_def)
  show ?thesis
    unfolding confidence_645_def assms(1) lb_def [symmetric] Let_def sum ends nat_and_masks nths
    using assms(3,4) nths(5) len idx by auto
qed

text \<open>
  The score of a well-formed frame, as the builder makes it: 1 for a
  known function code, 0.3 for an unknown one, but 0 as soon as the third address byte is 68H,
  which is a legal pair of BCD digits.
\<close>

theorem confidence_of_built:
  assumes "length addr = 6" "0x1B \<notin> set addr" "control < 256" "length data \<le> 200"
    and "build_frame_escaped addr control data = Some e"
  shows "confidence_645 e =
    (if addr ! 2 = 0x68 then 0
     else if 1 \<le> control mod 16 \<and> control mod 16 \<le> 12 then 1 else 3/10)"
proof -
  have "e = escaped_frame addr control data"
    using assms by (simp add: build_frame_escaped_escaped)
  then have lb: "logical_bytes e = [0x68] @ addr @ [0x68, of_nat control, of_nat (length data)] @ data
      @ [frame_sum addr control data, 0x16]"
    using logical_bytes_escaped [OF assms(1,2,4)] by (simp add: logical_frame_def)
  have "unat (of_nat control :: byte) mod 16 = control mod 16"
    using assms(3) by (simp add: codec_simps)
  with confidence_of_logical [OF lb assms(1)] assms(4) show ?thesis
    by (simp add: byte_count frame_sum_def unat_of_nat_byte)
qed

theorem confidence_of_built_witness:
  "\<exists>e. build_frame_escaped [1, 0, 0x68, 0, 0, 0] 0x11 [0x33] = Some e \<and> confidence_645 e = 0"
  using build_frame_escaped_eq [of "[1, 0, 0x68, 0, 0, 0]" "0x11" "[0x33]"]
    confidence_of_built [where addr = "[1, 0, 0x68, 0, 0, 0]" and control = "0x11" and data = "[0x33]"]
  by simp

section \<open>Decoding what was built\<close>

lemma decrypt_encrypt: "map (\<lambda>b. b - (0x33::byte)) (map (\<lambda>b. b + 0x33) xs) = xs"
  by (induction xs) simp_all

text \<open>
  Decoding a built frame whose data field carries the +33H mask gives back the
  address, the control code with its flags, the checksum as correct, and the data item of the
  plain data field; no warning but that of the item.
\<close>

theorem decode_built:
  assumes "length addr = 6" "0x1B \<notin> set addr" "control < 256" "length plain \<le> 200"
    and "control mod 16 \<noteq> 3" "control mod 16 \<noteq> 8"
    and "build_frame_escaped addr control (map (\<lambda>b. b + 0x33) plain) = Some e"
    and "item_of lookup (control mod 16) (length plain) plain = Inr (it, ws)"
  shows "\<exists>cs. decode_645 lookup e = Inr \<lparr>f_addr = hex_upper addr, f_control = control,
     f_up = (control AND 128 \<noteq> 0), f_err = (control AND 64 \<noteq> 0), f_more = (control AND 32 \<noteq> 0),
     f_func = control mod 16, f_len = length plain, f_cs = Some (cs, True),
     f_items = [it], f_warnings = ws\<rparr>"
proof -
  let ?data = "map (\<lambda>b. b + 0x33) plain"
  let ?s = "frame_sum addr control ?data"
  let ?lb = "[0x68] @ addr @ [0x68, of_nat control, of_nat (length ?data)] @ ?data @ [?s, 0x16]"
  have "e = escaped_frame addr control ?data"
    using assms by (simp add: build_frame_escaped_escaped)
  then have lb: "logical_bytes e = ?lb"
    using logical_bytes_escaped [OF assms(1,2), of ?data] assms(4) by (simp add: logical_frame_def)
  have len: "length ?lb = 12 + length plain" using assms(1) by simp
  have c: "unat (of_nat control :: byte) = control" using assms(3) by (simp add: codec_simps)
  have l: "unat (of_nat (length ?data) :: byte) = length plain" using assms(4) by (simp add: byte_count)
  have addr: "py_slice ?lb 1 7 = addr" using assms(1) by (simp add: py_slice_def)
  have data: "py_slice ?lb 10 (10 + length plain) = ?data"
    using py_slice_append [of 10 "[0x68] @ addr @ [0x68, of_nat control, of_nat (length ?data)]"
        "10 + length plain" ?data "[?s, 0x16]"] assms(1) by simp
  have sum: "byte_sum (take (length ?lb - 2) ?lb)
      = byte_sum ([0x68] @ addr @ [0x68, of_nat control, of_nat (length ?data)] @ ?data)"
    by (rule byte_sum_take_frame) simp
  have s: "unat ?s = byte_sum (take (length ?lb - 2) ?lb) mod 256"
    by (subst sum) (simp only: frame_sum_def unat_of_nat_byte mod_mod_trivial)
  have nths: "?lb ! 8 = of_nat control" "?lb ! 9 = of_nat (length ?data)"
      "?lb ! (10 + length plain) = ?s"
    using frame_nths [OF assms(1), of "of_nat control" "of_nat (length ?data)" ?data ?s]
    by (simp_all only: length_map)
  have plain: "(if 0 < length plain \<and> control mod 16 \<noteq> 3 \<and> control mod 16 \<noteq> 8
      then map (\<lambda>b. b - 0x33) ?data else ?data) = plain"
    using assms(5,6) decrypt_encrypt [of plain] by (cases plain) simp_all
  show ?thesis
    unfolding decode_645_def lb Let_def nths c l addr data nat_and_masks plain
    using assms(8) len s nths by (simp only:) (simp add: nat_and_masks)
qed

theorem decode_built_witness:
  "\<exists>e cs. build_frame_escaped [1, 2, 3, 4, 5, 6] 0x91 (map (\<lambda>b. b + 0x33) [1, 2, 3, 4, 0x16]) = Some e
    \<and> decode_645 (\<lambda>_. None :: unit meta645 option) e = Inr \<lparr>f_addr = ''010203040506'', f_control = 0x91,
     f_up = True, f_err = False, f_more = False, f_func = 1, f_len = 5, f_cs = Some (cs, True),
     f_items = [UnknownDI ''04030201'' [0x16]], f_warnings = [UnknownDIKey ''04030201'']\<rparr>"
proof -
  let ?d = "map (\<lambda>b. b + 0x33) [1, 2, 3, 4, 0x16] :: bytes"
  have i: "item_of (\<lambda>_. None :: unit meta645 option) (0x91 mod 16) (length [1, 2, 3, 4, 0x16 :: byte])
      [1, 2, 3, 4, 0x16] = Inr (UnknownDI ''04030201'' [0x16], [UnknownDIKey ''04030201''])"
    by (simp add: item_of_def di_item_def hex_digit_def Let_def)
  have b: "build_frame_escaped [1, 2, 3, 4, 5, 6] 0x91 ?d = Some (escaped_frame [1, 2, 3, 4, 5, 6] 0x91 ?d)"
    by (rule build_frame_escaped_escaped) simp_all
  have m: "((0x91::nat) AND 128 \<noteq> 0) = True" "((0x91::nat) AND 64 \<noteq> 0) = False" "((0x91::nat) AND 32 \<noteq> 0) = False"
      "0x91 mod 16 = (1::nat)" "length [1, 2, 3, 4, 0x16 :: byte] = 5"
      "hex_upper [1, 2, 3, 4, 5, 6] = ''010203040506''" by (simp_all add: hex_digit_def)
  show ?thesis
    using decode_built [where addr = "[1, 2, 3, 4, 5, 6]" and control = "0x91" and plain = "[1, 2, 3, 4, 0x16]",
        OF _ _ _ _ _ _ b i] b
    unfolding m by simp
qed

section \<open>The adapter object\<close>

definition dlt645_adapter :: "string adapter" where
  "dlt645_adapter = \<lparr>protocol = ''645'', try_extract = try_extract_645,
     confidence = \<lambda>raw. Some (confidence_645 raw)\<rparr>"

end
