(* ===== verification/Adapter_698.thy ===== *)
theory Adapter_698
  imports Frame_Splitter
begin

text \<open>
  The DL/T 698.45 adapter, \<open>libs/parser_lib/adapters/adapter_698/__init__.py\<close>: the frame
  check sequence, frame construction, extraction, the sniffing score, the link part of the
  decoder and the recursive reader of A-XDR data. The frame check register is a 16-bit word:
  every value the source computes for it is below 65536.
\<close>

section \<open>The frame check sequence\<close>

definition FCSTAB :: "16 word list" where
  "FCSTAB =
    [0x0000, 0x1189, 0x2312, 0x329b, 0x4624, 0x57ad, 0x6536, 0x74bf,
     0x8c48, 0x9dc1, 0xaf5a, 0xbed3, 0xca6c, 0xdbe5, 0xe97e, 0xf8f7,
     0x1081, 0x0108, 0x3393, 0x221a, 0x56a5, 0x472c, 0x75b7, 0x643e,
     0x9cc9, 0x8d40, 0xbfdb, 0xae52, 0xdaed, 0xcb64, 0xf9ff, 0xe876,
     0x2102, 0x308b, 0x0210, 0x1399, 0x6726, 0x76af, 0x4434, 0x55bd,
     0xad4a, 0xbcc3, 0x8e58, 0x9fd1, 0xeb6e, 0xfae7, 0xc87c, 0xd9f5,
     0x3183, 0x200a, 0x1291, 0x0318, 0x77a7, 0x662e, 0x54b5, 0x453c,
     0xbdcb, 0xac42, 0x9ed9, 0x8f50, 0xfbef, 0xea66, 0xd8fd, 0xc974,
     0x4204, 0x538d, 0x6116, 0x709f, 0x0420, 0x15a9, 0x2732, 0x36bb,
     0xce4c, 0xdfc5, 0xed5e, 0xfcd7, 0x8868, 0x99e1, 0xab7a, 0xbaf3,
     0x5285, 0x430c, 0x7197, 0x601e, 0x14a1, 0x0528, 0x37b3, 0x263a,
     0xdecd, 0xcf44, 0xfddf, 0xec56, 0x98e9, 0x8960, 0xbbfb, 0xaa72,
     0x6306, 0x728f, 0x4014, 0x519d, 0x2522, 0x34ab, 0x0630, 0x17b9,
     0xef4e, 0xfec7, 0xcc5c, 0xddd5, 0xa96a, 0xb8e3, 0x8a78, 0x9bf1,
     0x7387, 0x620e, 0x5095, 0x411c, 0x35a3, 0x242a, 0x16b1, 0x0738,
     0xffcf, 0xee46, 0xdcdd, 0xcd54, 0xb9eb, 0xa862, 0x9af9, 0x8b70,
     0x8408, 0x9581, 0xa71a, 0xb693, 0xc22c, 0xd3a5, 0xe13e, 0xf0b7,
     0x0840, 0x19c9, 0x2b52, 0x3adb, 0x4e64, 0x5fed, 0x6d76, 0x7cff,
     0x9489, 0x8500, 0xb79b, 0xa612, 0xd2ad, 0xc324, 0xf1bf, 0xe036,
     0x18c1, 0x0948, 0x3bd3, 0x2a5a, 0x5ee5, 0x4f6c, 0x7df7, 0x6c7e,
     0xa50a, 0xb483, 0x8618, 0x9791, 0xe32e, 0xf2a7, 0xc03c, 0xd1b5,
     0x2942, 0x38cb, 0x0a50, 0x1bd9, 0x6f66, 0x7eef, 0x4c74, 0x5dfd,
     0xb58b, 0xa402, 0x9699, 0x8710, 0xf3af, 0xe226, 0xd0bd, 0xc134,
     0x39c3, 0x284a, 0x1ad1, 0x0b58, 0x7fe7, 0x6e6e, 0x5cf5, 0x4d7c,
     0xc60c, 0xd785, 0xe51e, 0xf497, 0x8028, 0x91a1, 0xa33a, 0xb2b3,
     0x4a44, 0x5bcd, 0x6956, 0x78df, 0x0c60, 0x1de9, 0x2f72, 0x3efb,
     0xd68d, 0xc704, 0xf59f, 0xe416, 0x90a9, 0x8120, 0xb3bb, 0xa232,
     0x5ac5, 0x4b4c, 0x79d7, 0x685e, 0x1ce1, 0x0d68, 0x3ff3, 0x2e7a,
     0xe70e, 0xf687, 0xc41c, 0xd595, 0xa12a, 0xb0a3, 0x8238, 0x93b1,
     0x6b46, 0x7acf, 0x4854, 0x59dd, 0x2d62, 0x3ceb, 0x0e70, 0x1ff9,
     0xf78f, 0xe606, 0xd49d, 0xc514, 0xb1ab, 0xa022, 0x92b9, 0x8330,
     0x7bc7, 0x6a4e, 0x58d5, 0x495c, 0x3de3, 0x2c6a, 0x1ef1, 0x0f78]"

definition fcs_step :: "16 word \<Rightarrow> byte \<Rightarrow> 16 word" where
  "fcs_step fcs b = drop_bit 8 fcs XOR FCSTAB ! unat ((fcs XOR ucast b) AND 0xFF)"

definition crc16 :: "bytes \<Rightarrow> 16 word" where
  "crc16 data = foldl fcs_step 0xFFFF data"

definition fcs_bytes :: "bytes \<Rightarrow> bytes" where
  "fcs_bytes data = (let v = crc16 data XOR 0xFFFF in [ucast (v AND 0xFF), ucast (drop_bit 8 v AND 0xFF)])"

definition check_fcs :: "bytes \<Rightarrow> bytes \<Rightarrow> bool" where
  "check_fcs data_without_fcs fcs \<longleftrightarrow> crc16 (data_without_fcs @ fcs) = 0xF0B8"

text \<open>
  The reference: the PPP frame check sequence shifted bit by bit, lowest bit first, with the
  reversed polynomial 8408H.
\<close>

definition lfsr :: "16 word \<Rightarrow> 16 word" where
  "lfsr r = (if bit r 0 then drop_bit 1 r XOR 0x8408 else drop_bit 1 r)"

definition lfsr8 :: "16 word \<Rightarrow> 16 word" where
  "lfsr8 r = lfsr (lfsr (lfsr (lfsr (lfsr (lfsr (lfsr (lfsr r)))))))"

definition crc16_bits :: "bytes \<Rightarrow> 16 word" where
  "crc16_bits data = foldl (\<lambda>r b. lfsr8 (r XOR ucast b)) 0xFFFF data"

subsection \<open>The table is the bitwise definition\<close>

lemma lfsr_linear: "lfsr (a XOR b) = lfsr a XOR lfsr b"
  by (cases "bit a 0"; cases "bit b 0"; simp add: lfsr_def bit_simps; rule bit_word_eqI;
      auto simp: bit_simps)

lemma lfsr8_linear: "lfsr8 (a XOR b) = lfsr8 a XOR lfsr8 b"
  by (simp add: lfsr8_def lfsr_linear)

lemma lfsr_eval:
  "lfsr 0 = 0" "lfsr 1 = 0x8408"
  "lfsr (numeral (Num.Bit0 n)) = drop_bit 1 (numeral (Num.Bit0 n))"
  "lfsr (numeral (Num.Bit1 n)) = drop_bit 1 (numeral (Num.Bit1 n)) XOR 0x8408"
  by (simp_all add: lfsr_def)

definition low_nibble :: "16 word list" where
  "low_nibble =
    [0x0000, 0x1189, 0x2312, 0x329b, 0x4624, 0x57ad, 0x6536, 0x74bf,
     0x8c48, 0x9dc1, 0xaf5a, 0xbed3, 0xca6c, 0xdbe5, 0xe97e, 0xf8f7]"

definition high_nibble :: "16 word list" where
  "high_nibble =
    [0x0000, 0x1081, 0x2102, 0x3183, 0x4204, 0x5285, 0x6306, 0x7387,
     0x8408, 0x9489, 0xa50a, 0xb58b, 0xc60c, 0xd68d, 0xe70e, 0xf78f]"

lemma low_nibble_lfsr8:
  "low_nibble = map lfsr8 [0, 1, 2, 3, 4, 5, 6, 7, 8, 9, 10, 11, 12, 13, 14, 15]"
  by (simp add: low_nibble_def lfsr8_def lfsr_eval)

lemma high_nibble_lfsr8:
  "high_nibble = map lfsr8 [0x00, 0x10, 0x20, 0x30, 0x40, 0x50, 0x60, 0x70, 0x80, 0x90, 0xA0, 0xB0,
     0xC0, 0xD0, 0xE0, 0xF0]"
  by (simp add: high_nibble_def lfsr8_def lfsr_eval)

lemma FCSTAB_nibbles: "FCSTAB = concat (map (\<lambda>h. map (\<lambda>l. h XOR l) low_nibble) high_nibble)"
  by (simp add: FCSTAB_def low_nibble_def high_nibble_def)

lemma concat_blocks:
  "(\<And>x. x \<in> set xs \<Longrightarrow> length (f x) = k) \<Longrightarrow> i < length xs \<Longrightarrow> j < k \<Longrightarrow>
     concat (map f xs) ! (k * i + j) = f (xs ! i) ! j"
proof (induction xs arbitrary: i)
  case Nil
  then show ?case by simp
next
  case (Cons x xs)
  then show ?case by (cases i) (simp_all add: nth_append add.assoc)
qed

lemma of_nat_nibbles:
  assumes "l < 16"
  shows "(of_nat (push_bit 4 h) XOR of_nat l :: 16 word) = of_nat (16 * h + l)"
proof -
  have low: "\<not> bit l k" if "4 \<le> k" for k
  proof -
    have "take_bit 4 l = l" using assms by (simp add: take_bit_nat_eq_self)
    then have "bit l k \<longleftrightarrow> k < 4 \<and> bit l k" by (metis bit_take_bit_iff)
    with that show ?thesis by simp
  qed
  have "16 * h + l = push_bit 4 h OR l"
    using or_push_bit_add [of l 4 h] assms by (simp add: or.commute)
  moreover have "(of_nat (push_bit 4 h) XOR of_nat l :: 16 word) = of_nat (push_bit 4 h OR l)"
    by (rule bit_word_eqI)
      (use low in \<open>auto simp: bit_simps simp del: of_nat_or_eq of_nat_push_bit\<close>)
  ultimately show ?thesis by (simp only:)
qed

lemma low_nibble_nth:
  assumes "l < 16"
  shows "low_nibble ! l = lfsr8 (of_nat l)"
proof -
  have e: "low_nibble = map (\<lambda>l. lfsr8 (of_nat l)) [0..<16]"
    unfolding low_nibble_lfsr8 by (simp add: upt_conv_Cons)
  show ?thesis unfolding e by (subst nth_map) (use assms in \<open>simp_all del: upt_rec_numeral\<close>)
qed

lemma high_nibble_nth:
  assumes "h < 16"
  shows "high_nibble ! h = lfsr8 (of_nat (push_bit 4 h))"
proof -
  have e: "high_nibble = map (\<lambda>h. lfsr8 (of_nat (push_bit 4 h))) [0..<16]"
    unfolding high_nibble_lfsr8 by (simp add: upt_conv_Cons push_bit_eq_mult)
  show ?thesis unfolding e by (subst nth_map) (use assms in \<open>simp_all del: upt_rec_numeral\<close>)
qed

lemma FCSTAB_nth:
  assumes "n < 256"
  shows "FCSTAB ! n = lfsr8 (of_nat n)"
proof -
  let ?h = "n div 16" and ?l = "n mod 16"
  have hl: "?h < 16" "?l < 16" "16 * ?h + ?l = n" using assms by auto
  have len: "length high_nibble = 16" "length low_nibble = 16"
    by (simp_all add: high_nibble_def low_nibble_def)
  have "FCSTAB ! (16 * ?h + ?l) = high_nibble ! ?h XOR low_nibble ! ?l"
    unfolding FCSTAB_nibbles using hl len by (subst concat_blocks) simp_all
  then show ?thesis
    unfolding hl(3) low_nibble_nth [OF hl(2)] high_nibble_nth [OF hl(1)]
    by (simp only: lfsr8_linear [symmetric] of_nat_nibbles [OF hl(2)] hl(3))
qed

lemma lfsr_even: "\<not> bit r 0 \<Longrightarrow> lfsr r = drop_bit 1 r"
  by (simp add: lfsr_def)

lemma lfsr8_high:
  assumes "\<And>k. k < 8 \<Longrightarrow> \<not> bit y k"
  shows "lfsr8 y = drop_bit 8 y"
proof -
  have s: "lfsr (drop_bit k y) = drop_bit (Suc k) y" if "k < 8" for k
    using lfsr_even [of "drop_bit k y"] assms [OF that] by (simp add: bit_simps)
  from s [of 0] have "lfsr y = drop_bit (Suc 0) y" by simp
  then show ?thesis unfolding lfsr8_def by (simp only: s numeral_less_iff) (simp add: s eval_nat_numeral)
qed

lemma and_FF: "(x :: 16 word) AND 0xFF = take_bit 8 x"
  by (simp add: take_bit_eq_mask mask_eq_exp_minus_1)

lemma low_byte_less: "unat (take_bit 8 (x :: 16 word)) < 256"
  using take_bit_nat_less_exp [of 8 "unat x"] by (simp add: unsigned_take_bit_eq)

lemma byte_bit_high [simp]: "8 \<le> n \<Longrightarrow> \<not> bit (b::byte) n"
  using bit_imp_le_length [of b n] by auto

lemma word16_bit_high [simp]: "16 \<le> n \<Longrightarrow> \<not> bit (x :: 16 word) n"
  using bit_imp_le_length [of x n] by auto

lemma split_word: "(x :: 16 word) = (x AND 0xFF) XOR push_bit 8 (drop_bit 8 x)"
  unfolding and_FF by (rule bit_word_eqI) (auto simp: bit_simps)

lemma fcs_step_bits: "fcs_step fcs b = lfsr8 (fcs XOR ucast b)"
proof -
  let ?x = "fcs XOR ucast b"
  have "unat (?x AND 0xFF) < 256"
    unfolding and_FF by (rule low_byte_less)
  then have "FCSTAB ! unat (?x AND 0xFF) = lfsr8 (?x AND 0xFF)" by (simp add: FCSTAB_nth)
  moreover have "lfsr8 (push_bit 8 (drop_bit 8 ?x)) = drop_bit 8 (push_bit 8 (drop_bit 8 ?x))"
    by (rule lfsr8_high) (simp add: bit_simps)
  moreover have "drop_bit 8 (push_bit 8 (drop_bit 8 ?x)) = drop_bit 8 fcs"
    by (rule bit_word_eqI) (auto simp: bit_simps not_less)
  moreover have "lfsr8 ?x = lfsr8 (?x AND 0xFF) XOR lfsr8 (push_bit 8 (drop_bit 8 ?x))"
    unfolding lfsr8_linear [symmetric] split_word [symmetric] ..
  ultimately show ?thesis unfolding fcs_step_def by (simp only: xor.commute)
qed

lemma crc16_reference: "crc16 data = crc16_bits data"
proof -
  have "fcs_step = (\<lambda>r b. lfsr8 (r XOR ucast b))" by (intro ext) (rule fcs_step_bits)
  then show ?thesis by (simp add: crc16_def crc16_bits_def)
qed

text \<open>
  C6. The table-driven frame check sequence is the bitwise one, for all data.
\<close>

theorem crc16_bitwise: "crc16 data = crc16_bits data"
  by (rule crc16_reference)

subsection \<open>The residue\<close>

lemma lfsr8_const: "lfsr8 0xFF = 0x0F78" "lfsr8 0x0F87 = 0xF0B8"
  by (simp_all add: lfsr8_def lfsr_eval)

lemma mask16: "mask 16 = (0xFFFF :: 16 word)" "mask 8 = (0xFF :: 16 word)"
  by (simp_all add: mask_eq_exp_minus_1)

lemma residue_step:
  fixes v :: "16 word"
  defines "n \<equiv> v XOR 0xFFFF"
  shows "foldl fcs_step v [ucast (n AND 0xFF), ucast (drop_bit 8 n AND 0xFF)] = 0xF0B8"
proof -
  have 1: "v XOR ucast (ucast (n AND 0xFF) :: byte) = mask 8 XOR push_bit 8 (drop_bit 8 v)"
    unfolding and_FF n_def mask16(1) [symmetric] by (rule bit_word_eqI) (auto simp: bit_simps not_less)
  have 2: "lfsr8 (push_bit 8 (drop_bit 8 v)) = drop_bit 8 v"
  proof -
    have "lfsr8 (push_bit 8 (drop_bit 8 v)) = drop_bit 8 (push_bit 8 (drop_bit 8 v))"
      by (rule lfsr8_high) (simp add: bit_simps)
    also have "\<dots> = drop_bit 8 v"
      by (rule bit_word_eqI) (auto simp: bit_simps dest: bit_imp_le_length)
    finally show ?thesis .
  qed
  have 3: "drop_bit 8 v XOR ucast (ucast (drop_bit 8 n AND 0xFF) :: byte) = mask 8"
    unfolding and_FF n_def mask16(1) [symmetric] by (rule bit_word_eqI) (auto simp: bit_simps not_less)
  have "lfsr8 (v XOR ucast (ucast (n AND 0xFF) :: byte)) XOR ucast (ucast (drop_bit 8 n AND 0xFF) :: byte)
      = 0x0F78 XOR (drop_bit 8 v XOR ucast (ucast (drop_bit 8 n AND 0xFF) :: byte))"
    unfolding 1 lfsr8_linear 2 mask16(2) lfsr8_const by (simp only: xor.assoc)
  also have "\<dots> = 0x0F87" unfolding 3 mask16(2) by simp
  finally show ?thesis by (simp only: foldl.simps fcs_step_bits lfsr8_const)
qed

lemma check_fcs_bytes: "check_fcs data (fcs_bytes data)"
  using residue_step [of "crc16 data"]
  by (simp add: check_fcs_def fcs_bytes_def crc16_def Let_def del: foldl_Cons)

lemma length_fcs_bytes [simp]: "length (fcs_bytes data) = 2"
  by (simp add: fcs_bytes_def Let_def)

subsection \<open>What the check detects\<close>

lemma lfsr_zero: "lfsr r = 0 \<Longrightarrow> r = 0"
proof -
  assume z: "lfsr r = 0"
  have b: "\<not> bit r 0"
  proof
    assume "bit r 0"
    then have "drop_bit 1 r XOR 0x8408 = 0" using z by (simp add: lfsr_def)
    then have "bit (drop_bit 1 r XOR 0x8408) 15 = bit (0 :: 16 word) 15" by simp
    then show False by (simp add: bit_simps)
  qed
  with z have d: "drop_bit 1 r = 0" by (simp add: lfsr_def)
  show "r = 0"
  proof (rule bit_word_eqI)
    fix n assume "n < LENGTH(16)"
    show "bit r n = bit 0 n"
    proof (cases n)
      case 0
      with b show ?thesis by simp
    next
      case (Suc m)
      have "bit (drop_bit 1 r) m = bit (0 :: 16 word) m" by (simp only: d)
      with Suc show ?thesis by (simp add: bit_simps)
    qed
  qed
qed

lemma xor_self_left: "(a :: 16 word) XOR (a XOR b) = b"
  by (simp only: xor.assoc [symmetric] xor_self_eq xor.left_neutral)

lemma xor_left_cancel: "(a :: 16 word) XOR b = a XOR c \<longleftrightarrow> b = c"
  by (metis xor_self_left)

lemma xor_zero_eq: "(a :: 16 word) XOR b = 0 \<Longrightarrow> a = b"
  by (metis xor_self_left xor.right_neutral xor.commute)

lemma lfsr8_inj: "lfsr8 a = lfsr8 b \<Longrightarrow> a = b"
proof -
  assume "lfsr8 a = lfsr8 b"
  then have "lfsr8 (a XOR b) = 0" by (simp add: lfsr8_linear)
  then have "a XOR b = 0" unfolding lfsr8_def by (blast dest: lfsr_zero)
  then show "a = b" by (rule xor_zero_eq)
qed

lemma fcs_step_inj_state: "fcs_step r b = fcs_step r' b \<Longrightarrow> r = r'"
  unfolding fcs_step_bits by (drule lfsr8_inj) (simp only: xor.commute [of _ "ucast b"] xor_left_cancel)

lemma fcs_fold_inj: "foldl fcs_step r bs = foldl fcs_step r' bs \<Longrightarrow> r = r'"
  by (induction bs arbitrary: r r') (auto dest: fcs_step_inj_state)

lemma lfsr8_byte: "lfsr8 (push_bit 8 (ucast (b::byte))) = ucast b"
proof -
  have "lfsr8 (push_bit 8 (ucast b)) = drop_bit 8 (push_bit 8 (ucast b) :: 16 word)"
    by (rule lfsr8_high) (simp add: bit_simps)
  also have "\<dots> = ucast b"
    by (rule bit_word_eqI) (auto simp: bit_simps not_less dest: bit_imp_le_length)
  finally show ?thesis .
qed

lemma two_steps: "fcs_step (fcs_step r a) b = lfsr8 (lfsr8 (r XOR ucast a XOR push_bit 8 (ucast b)))"
  by (simp only: fcs_step_bits lfsr8_linear lfsr8_byte xor.assoc)

lemma pair_inj:
  assumes "ucast a XOR push_bit 8 (ucast b) = (ucast a' XOR push_bit 8 (ucast b') :: 16 word)"
  shows "(a::byte) = a'" "(b::byte) = b'"
proof -
  have e: "bit (ucast a XOR push_bit 8 (ucast b) :: 16 word) k = bit (ucast a' XOR push_bit 8 (ucast b') :: 16 word) k" for k
    by (simp only: assms)
  show "a = a'"
  proof (rule bit_word_eqI)
    fix n assume "n < LENGTH(8)"
    with e [of n] show "bit a n = bit a' n" by (simp add: bit_simps)
  qed
  show "b = b'"
  proof (rule bit_word_eqI)
    fix n assume "n < LENGTH(8)"
    with e [of "8 + n"] show "bit b n = bit b' n" by (simp add: bit_simps)
  qed
qed

lemma crc16_burst:
  assumes "crc16 (pre @ [a, b] @ post) = crc16 (pre @ [a', b'] @ post)"
  shows "a = a' \<and> b = b'"
proof -
  define r where "r = foldl fcs_step 0xFFFF pre"
  from assms have "foldl fcs_step (fcs_step (fcs_step r a) b) post
      = foldl fcs_step (fcs_step (fcs_step r a') b') post"
    by (simp add: crc16_def r_def)
  from fcs_fold_inj [OF this] have
    "lfsr8 (lfsr8 (r XOR (ucast a XOR push_bit 8 (ucast b)))) = lfsr8 (lfsr8 (r XOR (ucast a' XOR push_bit 8 (ucast b'))))"
    by (simp only: two_steps xor.assoc)
  then have "r XOR (ucast a XOR push_bit 8 (ucast b)) = r XOR (ucast a' XOR push_bit 8 (ucast b'))"
    by (blast dest: lfsr8_inj)
  then have "ucast a XOR push_bit 8 (ucast b) = (ucast a' XOR push_bit 8 (ucast b') :: 16 word)"
    by (simp only: xor_left_cancel)
  from pair_inj [OF this] show ?thesis by simp
qed

text \<open>
  C7. The check accepts data with its own check bytes, and rejects them after any
  change that is confined to two neighbouring bytes of the data.
\<close>

theorem fcs_detects:
  "check_fcs (pre @ [a, b] @ post) (fcs_bytes (pre @ [a, b] @ post))
   \<and> (check_fcs (pre @ [a', b'] @ post) (fcs_bytes (pre @ [a, b] @ post)) = (a' = a \<and> b' = b))"
proof -
  let ?d = "pre @ [a, b] @ post" and ?d' = "pre @ [a', b'] @ post"
  have "a' = a \<and> b' = b" if "check_fcs ?d' (fcs_bytes ?d)"
  proof -
    have "crc16 (pre @ [a', b'] @ (post @ fcs_bytes ?d)) = crc16 (pre @ [a, b] @ (post @ fcs_bytes ?d))"
      using that check_fcs_bytes [of ?d] by (simp add: check_fcs_def)
    from crc16_burst [OF this] show ?thesis .
  qed
  with check_fcs_bytes [of ?d] show ?thesis by auto
qed

section \<open>Building and cutting frames\<close>

definition build_frame_698 :: "bytes \<Rightarrow> bytes \<Rightarrow> nat \<Rightarrow> nat \<Rightarrow> bytes option" where
  "build_frame_698 apdu addr_bytes ca control =
     (let L = 2 + 1 + length addr_bytes + 1 + 2 + length apdu + 2 in
      if control < 256 \<and> ca < 256
      then
        let body = [0x68] @ [of_nat (L AND 255), of_nat (drop_bit 8 L AND 255)] @ [of_nat control]
                   @ addr_bytes @ [of_nat ca];
            body = body @ fcs_bytes (drop 1 body) @ apdu
        in Some (body @ fcs_bytes (drop 1 body) @ [0x16])
      else None)"

definition try_extract_698 :: "bytes \<Rightarrow> extract_result option" where
  "try_extract_698 buf =
     (let n = length buf in
      if n < 4 \<or> buf ! 0 \<noteq> 0x68 then None
      else if 3 < n \<and> buf ! 3 = 0x68 then None
      else let L = pair16 (buf ! 1) (buf ! 2) in
      if L < 12 \<or> 2000 < L then None
      else let frame_end = L + 1 in
      if n \<le> frame_end \<or> buf ! frame_end \<noteq> 0x16 then None
      else let raw = take (frame_end + 1) buf;
               SA_len = (unat (raw ! 4) AND 15) + 2
      in if length raw < 4 + SA_len + 8 then None
         else Some \<lparr>ex_raw = raw, ex_consumed = frame_end + 1\<rparr>)"

definition APDU_NAMES :: "nat list" where
  "APDU_NAMES = [0x01, 0x81, 0x02, 0x82, 0x03, 0x83, 0x05, 0x85, 0x06, 0x86, 0x07, 0x87,
     0x08, 0x88, 0x09, 0x89, 0x84, 0x10, 0x90]"

definition confidence_698 :: "bytes \<Rightarrow> rat" where
  "confidence_698 raw =
     (if length raw < 12 \<or> raw ! 0 \<noteq> 0x68 \<or> last raw \<noteq> 0x16 then 0
      else if raw ! 3 = 0x68 then 0
      else if raw ! 7 = 0x68 \<and> unat (raw ! 9) \<le> 200 \<and> length raw = 12 + unat (raw ! 9) then 0
      else let L = pair16 (raw ! 1) (raw ! 2) in
      if length raw \<noteq> L + 2 then 0
      else let SA_len = (unat (raw ! 4) AND 15) + 2 in
      if length raw < 4 + SA_len + 3 then 0
      else
        let hcs_pos = 4 + SA_len + 1;
            fcs_pos = length raw - 3;
            known_apdu = (hcs_pos + 2 < fcs_pos \<and> unat (raw ! (hcs_pos + 2)) \<in> set APDU_NAMES)
        in if \<not> check_fcs (py_slice raw 1 (4 + SA_len + 1)) (py_slice raw hcs_pos (hcs_pos + 2))
           then 3/10
           else if \<not> check_fcs (py_slice raw 1 fcs_pos) (py_slice raw fcs_pos (fcs_pos + 2)) then 5/10
           else if known_apdu then 1 else 85/100)"

record link698 =
  lk_length :: nat
  lk_control :: nat
  lk_sa :: bytes
  lk_ca :: nat
  lk_hcs_ok :: bool
  lk_fcs_ok :: bool
  lk_apdu :: bytes

text \<open>
  The link part of \<open>decode\<close>; \<open>None\<close> is the IndexError of a frame that ends before the
  client address. An empty APDU gets a warning in the source and is the empty list here.
\<close>

definition decode_698 :: "bytes \<Rightarrow> link698 option" where
  "decode_698 raw =
     do { b1 \<leftarrow> py_at raw 1; b2 \<leftarrow> py_at raw 2; c \<leftarrow> py_at raw 3; sa \<leftarrow> py_at raw 4;
          let SA_len = (unat sa AND 15) + 2;
          ca \<leftarrow> py_at raw (4 + SA_len);
          let hcs_pos = 4 + SA_len + 1;
          let fcs_pos = length raw - 3;
          Some \<lparr>lk_length = pair16 b1 b2, lk_control = unat c, lk_sa = py_slice raw 4 (4 + SA_len),
            lk_ca = unat ca,
            lk_hcs_ok = check_fcs (py_slice raw 1 (4 + SA_len + 1)) (py_slice raw hcs_pos (hcs_pos + 2)),
            lk_fcs_ok = check_fcs (py_slice raw 1 fcs_pos) (py_slice raw fcs_pos (fcs_pos + 2)),
            lk_apdu = py_slice raw (hcs_pos + 2) fcs_pos\<rparr> }"

lemma try_extract_698_Some:
  assumes "try_extract_698 buf = Some r"
  shows "\<exists>k. 14 \<le> k \<and> k \<le> length buf \<and> r = \<lparr>ex_raw = take k buf, ex_consumed = k\<rparr>"
  using assms
  by (intro exI [of _ "pair16 (buf ! 1) (buf ! 2) + 2"])
    (auto simp: try_extract_698_def Let_def split: if_splits)

interpretation dlt698: frame_extractor try_extract_698
  by unfold_locales (auto dest!: try_extract_698_Some)

definition dlt698_adapter :: "string adapter" where
  "dlt698_adapter = \<lparr>protocol = ''698.45'', try_extract = try_extract_698,
     confidence = \<lambda>raw. Some (confidence_698 raw)\<rparr>"

subsection \<open>Round trip\<close>

definition head698 :: "nat \<Rightarrow> bytes \<Rightarrow> nat \<Rightarrow> nat \<Rightarrow> bytes" where
  "head698 L addr ca control = [of_nat (L AND 255), of_nat (drop_bit 8 L AND 255), of_nat control] @ addr @ [of_nat ca]"

lemma build_frame_698_eq:
  assumes "control < 256" "ca < 256" "L = 2 + 1 + length addr + 1 + 2 + length apdu + 2"
    and "h = head698 L addr ca control"
  shows "build_frame_698 apdu addr ca control =
    Some ([0x68] @ h @ fcs_bytes h @ apdu @ fcs_bytes (h @ fcs_bytes h @ apdu) @ [0x16])"
  unfolding build_frame_698_def assms(3) [symmetric] assms(4) head698_def Let_def
  using assms(1,2) by simp

lemma length_field: "n < 65536 \<Longrightarrow> pair16 (of_nat (n AND 255)) (of_nat (drop_bit 8 n AND 255)) = n"
  using pair16_of_nat [of n] by (simp only: nat_and_masks nat_drop_bits power_numeral) simp

text \<open>The fixed positions of a frame laid out as the builder lays it out.\<close>

lemma frame698_parts:
  assumes "addr \<noteq> []" "length addr = (unat (hd addr) AND 15) + 2" "length c1 = 2" "length c2 = 2"
    and raw_def: "raw = [0x68] @ ([lo, hi, c] @ addr @ [ca]) @ c1 @ apdu @ c2 @ [0x16]"
  shows "raw ! 0 = 0x68" "raw ! 1 = lo" "raw ! 2 = hi" "raw ! 3 = c" "raw ! 4 = hd addr"
    "(unat (hd addr) AND 15) + 2 = length addr" "raw ! (4 + length addr) = ca" "last raw = 0x16"
    "length raw = 10 + length addr + length apdu"
    "py_slice raw 4 (4 + length addr) = addr"
    "py_slice raw 1 (4 + length addr + 1) = [lo, hi, c] @ addr @ [ca]"
    "py_slice raw (4 + length addr + 1) (4 + length addr + 1 + 2) = c1"
    "py_slice raw (4 + length addr + 1 + 2) (length raw - 3) = apdu"
    "py_slice raw 1 (length raw - 3) = ([lo, hi, c] @ addr @ [ca]) @ c1 @ apdu"
    "py_slice raw (length raw - 3) (length raw - 3 + 2) = c2"
proof -
  show "raw ! 4 = hd addr" using assms(1) by (cases addr) (simp_all add: raw_def)
  have len: "length raw = 10 + length addr + length apdu" using assms(3,4) by (simp add: raw_def)
  then show "length raw = 10 + length addr + length apdu" .
  show "py_slice raw 4 (4 + length addr) = addr"
    using py_slice_append [of 4 "[0x68, lo, hi, c]" "4 + length addr" addr "[ca] @ c1 @ apdu @ c2 @ [0x16]"]
    by (simp add: raw_def)
  show "py_slice raw 1 (4 + length addr + 1) = [lo, hi, c] @ addr @ [ca]"
    using py_slice_append [of 1 "[0x68]" "4 + length addr + 1" "[lo, hi, c] @ addr @ [ca]" "c1 @ apdu @ c2 @ [0x16]"]
    by (simp add: raw_def)
  show "py_slice raw (4 + length addr + 1) (4 + length addr + 1 + 2) = c1"
    using py_slice_append [of "4 + length addr + 1" "[0x68, lo, hi, c] @ addr @ [ca]"
        "4 + length addr + 1 + 2" c1 "apdu @ c2 @ [0x16]"] assms(3)
    by (simp add: raw_def)
  show "py_slice raw (4 + length addr + 1 + 2) (length raw - 3) = apdu"
    unfolding len
    using py_slice_append [of "4 + length addr + 1 + 2" "[0x68, lo, hi, c] @ addr @ [ca] @ c1"
        "7 + length addr + length apdu" apdu "c2 @ [0x16]"] assms(3)
    by (simp add: raw_def add.assoc)
  show "py_slice raw 1 (length raw - 3) = ([lo, hi, c] @ addr @ [ca]) @ c1 @ apdu"
    unfolding len
    using py_slice_append [of 1 "[0x68]" "7 + length addr + length apdu"
        "([lo, hi, c] @ addr @ [ca]) @ c1 @ apdu" "c2 @ [0x16]"] assms(3)
    by (simp add: raw_def add.assoc)
  show "py_slice raw (length raw - 3) (length raw - 3 + 2) = c2"
    unfolding len
    using py_slice_append [of "7 + length addr + length apdu" "[0x68] @ ([lo, hi, c] @ addr @ [ca]) @ c1 @ apdu"
        "9 + length addr + length apdu" c2 "[0x16]"] assms(3,4)
    by (simp add: raw_def add.assoc)
qed (use assms in \<open>simp_all add: nth_append\<close>)

lemma try_extract_698_prefix:
  assumes "length raw = L + 2" "raw ! 0 = 0x68" "raw ! 3 \<noteq> 0x68" "pair16 (raw ! 1) (raw ! 2) = L"
    "raw ! (L + 1) = 0x16" "12 \<le> L" "L \<le> 2000" "(unat (raw ! 4) AND 15) + 2 + 12 \<le> L + 2"
  shows "try_extract_698 (raw @ rest) = Some \<lparr>ex_raw = raw, ex_consumed = length raw\<rparr>"
proof -
  have nths: "(raw @ rest) ! 0 = raw ! 0" "(raw @ rest) ! 1 = raw ! 1" "(raw @ rest) ! 2 = raw ! 2"
      "(raw @ rest) ! 3 = raw ! 3" "(raw @ rest) ! (L + 1) = raw ! (L + 1)"
    using assms(1,6) by (simp_all add: nth_append)
  have t: "take (L + 1 + 1) (raw @ rest) = raw" using assms(1) by simp
  have g: "\<not> length (raw @ rest) < 4" "\<not> length (raw @ rest) \<le> L + 1" "\<not> L < 12" "\<not> 2000 < L"
      "\<not> length raw < 4 + ((unat (raw ! 4) AND 15) + 2) + 8" "L + 1 + 1 = length raw"
    using assms(1,6-8) by simp_all
  show ?thesis
    unfolding try_extract_698_def Let_def nths assms(2,4,5) t
    using g assms(3) by (simp only: simp_thms if_False)
qed

lemma decode_698_layout:
  assumes "addr \<noteq> []" "length addr = (unat (hd addr) AND 15) + 2"
    and h: "h = [lo, hi, c] @ addr @ [ca]"
    and raw: "raw = [0x68] @ ([lo, hi, c] @ addr @ [ca]) @ fcs_bytes h @ apdu
      @ fcs_bytes (h @ fcs_bytes h @ apdu) @ [0x16]"
  shows "decode_698 raw = Some \<lparr>lk_length = pair16 lo hi, lk_control = unat c, lk_sa = addr,
    lk_ca = unat ca, lk_hcs_ok = True, lk_fcs_ok = True, lk_apdu = apdu\<rparr>"
proof -
  note p = frame698_parts [OF assms(1,2) length_fcs_bytes length_fcs_bytes raw]
  have a: "py_at raw 1 = Some lo" "py_at raw 2 = Some hi" "py_at raw 3 = Some c"
      "py_at raw 4 = Some (hd addr)" "py_at raw (4 + length addr) = Some ca"
    using p(1-9) by (simp_all add: py_at_def)
  have 1: "check_fcs ([lo, hi, c] @ addr @ [ca]) (fcs_bytes h) = True"
    using check_fcs_bytes [of h] by (simp only: h)
  have 2: "check_fcs (([lo, hi, c] @ addr @ [ca]) @ fcs_bytes h @ apdu) (fcs_bytes (h @ fcs_bytes h @ apdu)) = True"
    using check_fcs_bytes [of "h @ fcs_bytes h @ apdu"] by (simp only: h append_assoc)
  show ?thesis
    unfolding decode_698_def Let_def a(1-4) Option.bind.simps p(6) a(5)
    by (simp only: Option.bind.simps p(10-15) 1 2)
qed

lemma built_frame_698:
  assumes "addr \<noteq> []" "length addr = (unat (hd addr) AND 15) + 2" "control < 256" "control \<noteq> 0x68"
    "ca < 256" "2 \<le> length apdu" "12 \<le> L" "L \<le> 2000" and L: "L = 8 + length addr + length apdu"
  shows "\<exists>f. build_frame_698 apdu addr ca control = Some f \<and> length f = L + 2
    \<and> try_extract_698 (f @ rest) = Some \<lparr>ex_raw = f, ex_consumed = length f\<rparr>
    \<and> decode_698 f = Some \<lparr>lk_length = L, lk_control = control, lk_sa = addr, lk_ca = ca,
        lk_hcs_ok = True, lk_fcs_ok = True, lk_apdu = apdu\<rparr>"
proof -
  define h where "h = head698 L addr ca control"
  obtain lo hi c cb where h: "h = [lo, hi, c] @ addr @ [cb]" and f: "pair16 lo hi = L"
      and c: "unat c = control" and cb: "unat cb = ca"
  proof
    show "h = [of_nat (L AND 255), of_nat (drop_bit 8 L AND 255), of_nat control] @ addr @ [of_nat ca]"
      by (simp add: h_def head698_def)
    show "pair16 (of_nat (L AND 255)) (of_nat (drop_bit 8 L AND 255)) = L"
      using assms(8) by (intro length_field) simp
    show "unat (of_nat control :: byte) = control" "unat (of_nat ca :: byte) = ca"
      using assms(3,5) by (simp_all add: unat_of_nat_byte)
  qed
  define raw where "raw = [0x68] @ ([lo, hi, c] @ addr @ [cb]) @ fcs_bytes h @ apdu
      @ fcs_bytes (h @ fcs_bytes h @ apdu) @ [0x16]"
  note p = frame698_parts [OF assms(1,2) length_fcs_bytes length_fcs_bytes raw_def]
  have L': "L = 2 + 1 + length addr + 1 + 2 + length apdu + 2" using L by simp
  have b: "build_frame_698 apdu addr ca control = Some raw"
    using build_frame_698_eq [OF assms(3,5) L' h_def] by (simp only: raw_def h)
  have len: "length raw = L + 2" using p(9) L by simp
  have c68: "c \<noteq> 0x68" using c assms(4) by auto
  have e: "raw ! (L + 1) = 0x16"
    using p(8) len last_conv_nth [of raw] by (cases "raw = []") simp_all
  have "try_extract_698 (raw @ rest) = Some \<lparr>ex_raw = raw, ex_consumed = length raw\<rparr>"
  proof (rule try_extract_698_prefix [OF len])
    show "(unat (raw ! 4) AND 15) + 2 + 12 \<le> L + 2" unfolding p(5,6) using assms(6) L by linarith
    show "raw ! 3 \<noteq> 0x68" unfolding p(4) by (rule c68)
    show "pair16 (raw ! 1) (raw ! 2) = L" unfolding p(2,3) by (rule f)
  qed (rule p(1) e assms(7) assms(8))+
  with b len decode_698_layout [OF assms(1,2) h raw_def] show ?thesis
    unfolding f c cb by blast
qed

text \<open>
  C4. A frame built from an APDU of at least two bytes and a server address of
  the length its first byte announces is cut out of a stream whatever follows it, and decoded
  into the same parts with both check sequences correct.
\<close>

theorem frame698_roundtrip:
  assumes "addr \<noteq> []" "length addr = (unat (hd addr) AND 15) + 2" "control < 256" "control \<noteq> 0x68"
    "ca < 256" "2 \<le> length apdu" "12 \<le> L" "L \<le> 2000" "L = 8 + length addr + length apdu"
  shows "\<exists>f. build_frame_698 apdu addr ca control = Some f \<and> length f = L + 2
    \<and> try_extract_698 (f @ rest) = Some \<lparr>ex_raw = f, ex_consumed = length f\<rparr>
    \<and> decode_698 f = Some \<lparr>lk_length = L, lk_control = control, lk_sa = addr, lk_ca = ca,
        lk_hcs_ok = True, lk_fcs_ok = True, lk_apdu = apdu\<rparr>"
  using assms by (rule built_frame_698)

theorem frame698_roundtrip_witness:
  "\<exists>f. build_frame_698 [5, 1, 1] [0x05, 1, 2, 3, 4, 5, 6] 0 0x43 = Some f \<and> length f = 18 + 2
    \<and> try_extract_698 (f @ [0x68]) = Some \<lparr>ex_raw = f, ex_consumed = length f\<rparr>
    \<and> decode_698 f = Some \<lparr>lk_length = 18, lk_control = 0x43, lk_sa = [0x05, 1, 2, 3, 4, 5, 6], lk_ca = 0,
        lk_hcs_ok = True, lk_fcs_ok = True, lk_apdu = [5, 1, 1]\<rparr>"
  by (rule frame698_roundtrip) (simp_all add: nat_and_masks)

end
