(* ===== verification/Adapter_Dualmode.thy ===== *)
theory Adapter_Dualmode
  imports Adapter_645 Adapter_698
begin

text \<open>
  The adapter of the dual-mode application layer (4-3),
  \<open>libs/parser_lib/adapters/adapter_dualmode/__init__.py\<close>: the header check, extraction by
  the first nested 645 or 698 frame (or by the lengths of a minute report), the score, the header
  of the meter-reading messages and the scans for nested frames. It is a client of the other two
  adapters through \<open>try_extract\<close> and \<open>confidence\<close> only.
\<close>

section \<open>Header\<close>

definition PORT_NAMES :: "nat list" where
  "PORT_NAMES = [0x11, 0x12, 0x1A]"

definition SECURITY_NAMES :: "nat list" where
  "SECURITY_NAMES = [0, 1, 2, 3]"

definition MESSAGE_NAMES :: "nat list" where
  "MESSAGE_NAMES = [0x0001, 0x0002, 0x0003, 0x0004, 0x0006, 0x0008, 0x0011, 0x0012, 0x0013, 0x0020,
     0x0030, 0x0031, 0x0032, 0x0033, 0x0034, 0x0035, 0x0036, 0x0040, 0x0041, 0x00A0, 0x00A1, 0x00A2,
     0x00A3, 0x00A4, 0x00E2, 0x00E3, 0x00E4]"

definition message_parts :: "nat \<Rightarrow> nat \<times> nat" where
  "message_parts raw_msg_id = (raw_msg_id AND 0x0FFF, drop_bit 12 raw_msg_id AND 15)"

definition valid_header :: "bytes \<Rightarrow> bool" where
  "valid_header buf =
     (if length buf < 4 \<or> unat (buf ! 0) \<notin> set PORT_NAMES then False
      else
        let (msg_id, security) = message_parts (pair16 (buf ! 1) (buf ! 2));
            upgrade_ids = set [0x0030..<0x0037]
        in if security \<notin> set SECURITY_NAMES \<or> msg_id \<notin> set MESSAGE_NAMES then False
           else if buf ! 0 = 0x12 then msg_id \<in> upgrade_ids
           else if buf ! 0 = 0x1A then msg_id = 0x00A0
           else msg_id \<notin> upgrade_ids \<and> msg_id \<noteq> 0x00A0)"

section \<open>Nested frames\<close>

type_synonym reader = "string \<times> (bytes \<Rightarrow> extract_result option) \<times> (bytes \<Rightarrow> rat)"

definition nested_readers :: "reader list" where
  "nested_readers = [(''698.45'', try_extract_698, confidence_698), (''645'', try_extract_645, confidence_645)]"

text \<open>The best-scoring frame at the start of a buffer; a score of 0 does not count.\<close>

fun nested_best :: "reader list \<Rightarrow> bytes \<Rightarrow> (string \<times> extract_result \<times> rat) option
    \<Rightarrow> (string \<times> extract_result \<times> rat) option" where
  "nested_best [] buf best = best"
| "nested_best ((p, extr, conf) # rs) buf best =
     (case extr buf of
        None \<Rightarrow> nested_best rs buf best
      | Some res \<Rightarrow>
          let sc = conf (ex_raw res) in
          if sc \<le> 0 then nested_best rs buf best
          else (case best of
                  None \<Rightarrow> nested_best rs buf (Some (p, res, sc))
                | Some (p', res', s') \<Rightarrow>
                    if s' < sc then nested_best rs buf (Some (p, res, sc))
                    else nested_best rs buf best))"

text \<open>The loop of \<open>_find_first_nested\<close> from index \<open>i\<close>, where the buffer goes on with \<open>bs\<close>.\<close>

fun find_nested :: "nat \<Rightarrow> bytes \<Rightarrow> (nat \<times> nat \<times> string \<times> extract_result \<times> rat) option" where
  "find_nested i [] = None"
| "find_nested i (b # r) =
     (if b \<noteq> 0x68 then find_nested (Suc i) r
      else case nested_best nested_readers (b # r) None of
             Some (p, res, sc) \<Rightarrow> Some (i, i + ex_consumed res, p, res, sc)
           | None \<Rightarrow> find_nested (Suc i) r)"

definition find_first_nested :: "bytes \<Rightarrow> nat \<Rightarrow> (nat \<times> nat \<times> string \<times> extract_result \<times> rat) option" where
  "find_first_nested buf start = find_nested start (drop start buf)"

lemma nested_best_step:
  "\<exists>b'. nested_best ((p, extr, conf) # rs) buf best = nested_best rs buf b' \<and>
     (b' = best \<or> (\<exists>res. b' = Some (p, res, conf (ex_raw res)) \<and> extr buf = Some res \<and> 0 < conf (ex_raw res)))"
  by (cases "extr buf"; cases best) (auto simp: Let_def not_le)

lemma nested_best_Some:
  "nested_best rs buf best = Some (p, res, s) \<Longrightarrow>
     best = Some (p, res, s) \<or> (\<exists>extr conf. (p, extr, conf) \<in> set rs \<and> extr buf = Some res
        \<and> s = conf (ex_raw res) \<and> 0 < s)"
proof (induction rs arbitrary: best)
  case Nil
  then show ?case by simp
next
  case (Cons x rs)
  obtain q extr conf where x: "x = (q, extr, conf)" by (cases x)
  from nested_best_step [of q extr conf rs buf best] obtain b' where
    b': "nested_best (x # rs) buf best = nested_best rs buf b'"
      "b' = best \<or> (\<exists>res. b' = Some (q, res, conf (ex_raw res)) \<and> extr buf = Some res \<and> 0 < conf (ex_raw res))"
    unfolding x by blast
  from Cons.IH [of b'] Cons.prems b'(1) have
    "b' = Some (p, res, s) \<or> (\<exists>extr conf. (p, extr, conf) \<in> set rs \<and> extr buf = Some res
        \<and> s = conf (ex_raw res) \<and> 0 < s)" by simp
  with b'(2) show ?case unfolding x by fastforce
qed

lemma reader_laws:
  assumes "(p, extr, conf) \<in> set nested_readers"
  shows "frame_extractor extr"
  using assms dlt698.frame_extractor_axioms dlt645.frame_extractor_axioms
  by (auto simp: nested_readers_def)

lemma nested_best_bounds:
  assumes "nested_best nested_readers buf None = Some (p, res, s)"
  shows "0 < ex_consumed res" "ex_consumed res \<le> length buf" "ex_raw res = take (ex_consumed res) buf" "0 < s"
  using nested_best_Some [OF assms] reader_laws
  by (auto dest: frame_extractor.extract_pos frame_extractor.extract_le frame_extractor.extract_raw)

lemma find_nested_Some:
  "find_nested i bs = Some (j, e, p, res, s) \<Longrightarrow> i \<le> j \<and> j < e \<and> e \<le> i + length bs \<and> 0 < s
     \<and> ex_raw res = take (e - j) (drop (j - i) bs) \<and> e = j + ex_consumed res"
proof (induction bs arbitrary: i)
  case Nil
  then show ?case by simp
next
  case (Cons b r)
  show ?case
  proof (cases "b = 0x68 \<and> nested_best nested_readers (b # r) None \<noteq> None")
    case True
    with Cons.prems nested_best_bounds [of "b # r" p res s] show ?thesis by auto
  next
    case False
    with Cons.prems have "find_nested (Suc i) r = Some (j, e, p, res, s)"
      by (auto split: if_splits option.splits)
    from Cons.IH [OF this] have ih: "Suc i \<le> j" "j < e" "e \<le> Suc i + length r" "0 < s"
        "ex_raw res = take (e - j) (drop (j - Suc i) r)" "e = j + ex_consumed res" by auto
    moreover from ih(1) have "j - i = Suc (j - Suc i)" by linarith
    ultimately show ?thesis by simp
  qed
qed

section \<open>Extraction and score\<close>

definition try_extract_43 :: "bytes \<Rightarrow> extract_result option" where
  "try_extract_43 buf =
     (if \<not> valid_header buf then None
      else
        let msg_id = fst (message_parts (pair16 (buf ! 1) (buf ! 2)));
            business = drop 4 buf;
            header_len = drop_bit 6 (unat (business ! 0)) OR push_bit 2 (unat (business ! 1) AND 15);
            start_flag = drop_bit 5 (unat (business ! 1)) AND 1;
            forward_len = pair16 (business ! 6) (business ! 7);
            fin = 4 + header_len + forward_len
        in if msg_id = 0x00E4 \<and> 8 \<le> length business \<and> start_flag = 1 \<and> 4 \<le> header_len
              \<and> 8 \<le> fin \<and> fin \<le> length buf
           then Some \<lparr>ex_raw = take fin buf, ex_consumed = fin\<rparr>
           else map_option (\<lambda>(_, e, _, _, _). \<lparr>ex_raw = take e buf, ex_consumed = e\<rparr>)
                  (find_first_nested buf 4))"

definition confidence_43 :: "bytes \<Rightarrow> rat" where
  "confidence_43 raw =
     (if \<not> valid_header raw then 0
      else if find_first_nested raw 4 = None then 4/10
      else if fst (message_parts (pair16 (raw ! 1) (raw ! 2))) \<in> set MESSAGE_NAMES then 1
      else 85/100)"

lemma try_extract_43_Some:
  assumes "try_extract_43 buf = Some r"
  shows "valid_header buf \<and> (\<exists>k. 4 < k \<and> k \<le> length buf \<and> r = \<lparr>ex_raw = take k buf, ex_consumed = k\<rparr>)"
proof -
  have v: "valid_header buf" using assms by (simp add: try_extract_43_def split: if_splits)
  then have len: "4 \<le> length buf" by (simp add: valid_header_def split: if_splits)
  have n: "4 < e \<and> e \<le> length buf" if "find_first_nested buf 4 = Some (j, e, p, res, s)" for j e p res s
    using find_nested_Some [of 4 "drop 4 buf" j e p res s] that len
    by (auto simp: find_first_nested_def)
  from assms v show ?thesis
    by (auto simp: try_extract_43_def Let_def dest: n split: if_splits)
qed

interpretation dual43: frame_extractor try_extract_43
  by unfold_locales (auto dest!: try_extract_43_Some)

definition dual43_adapter :: "string adapter" where
  "dual43_adapter = \<lparr>protocol = ''dualmode-4-3'', try_extract = try_extract_43,
     confidence = \<lambda>raw. Some (confidence_43 raw)\<rparr>"

section \<open>Meter-reading messages\<close>

record meter_head =
  mh_version :: nat
  mh_header_len :: nat
  mh_direction :: nat
  mh_config :: nat
  mh_proto :: nat
  mh_fwd_len :: nat
  mh_seq :: nat
  mh_timeout :: nat
  mh_option :: nat
  mh_header_over :: bool
  mh_data :: bytes

text \<open>\<open>None\<close> is the warning that the message is too short for its header.\<close>

definition meter_business :: "bytes \<Rightarrow> meter_head option" where
  "meter_business b =
     (if length b < 8 then None
      else
        let u = \<lambda>i. unat (b ! i);
            header_len = drop_bit 6 (u 0) OR push_bit 2 (u 1 AND 15)
        in Some \<lparr>mh_version = u 0 AND 63, mh_header_len = header_len, mh_direction = u 7 AND 1,
             mh_config = drop_bit 4 (u 1) AND 15, mh_proto = u 2 AND 15,
             mh_fwd_len = push_bit 4 (u 3) OR drop_bit 4 (u 2), mh_seq = pair16 (b ! 4) (b ! 5),
             mh_timeout = u 6, mh_option = u 7, mh_header_over = (length b < header_len),
             mh_data = (if length b < header_len then [] else drop header_len b)\<rparr>)"

text \<open>The frames of one protocol that \<open>_recurse_data\<close> finds in the data.\<close>

definition reader_of :: "nat \<Rightarrow> (bytes \<Rightarrow> extract_result option) \<times> (bytes \<Rightarrow> rat)" where
  "reader_of proto = (if proto = 3 then (try_extract_698, confidence_698)
     else (try_extract_645, confidence_645))"

lemma reader_of_law: "frame_extractor (fst (reader_of proto))"
  using dlt698.frame_extractor_axioms dlt645.frame_extractor_axioms by (simp add: reader_of_def)

function (sequential) recurse_scan :: "nat \<Rightarrow> bytes \<Rightarrow> bytes list" where
  "recurse_scan proto [] = []"
| "recurse_scan proto (b # r) =
     (case fst (reader_of proto) (b # r) of
        None \<Rightarrow> recurse_scan proto r
      | Some res \<Rightarrow>
          if snd (reader_of proto) (ex_raw res) \<le> 0 then recurse_scan proto r
          else ex_raw res # recurse_scan proto (drop (ex_consumed res) (b # r)))"
  by pat_completeness auto

termination
  by (relation "measure (\<lambda>(proto, bs). length bs)")
    (auto dest: frame_extractor.extract_pos [OF reader_of_law])

definition recurse_data :: "bytes \<Rightarrow> nat \<Rightarrow> (string \<times> bytes list) option" where
  "recurse_data data proto =
     (if proto = 3 then Some (''698.45'', recurse_scan proto data)
      else if proto \<in> {1, 2} then Some (''645'', recurse_scan proto data)
      else None)"

end
