(* ===== verification/Parser_Stack.thy ===== *)
theory Parser_Stack
  imports Adapter_Dualmode Adapter_10376
begin

text \<open>
  The parser library put together (\<open>libs/parser_lib/adapters/__init__.py\<close>): the registered
  adapters are lawful, so everything the splitter and the router promise for lawful adapters
  holds of the library's own list.
\<close>

definition build_adapters :: "string adapter list" where
  "build_adapters = [dual43_adapter, dlt645_adapter, dlt698_adapter, qgdw_adapter]"

interpretation stack: lawful_adapters build_adapters
proof (rule lawful_adapters.intro)
  fix a :: "string adapter"
  assume "a \<in> set build_adapters"
  then show "frame_extractor (try_extract a)"
    using dual43.frame_extractor_axioms dlt645.frame_extractor_axioms dlt698.frame_extractor_axioms
      qgdw10376.frame_extractor_axioms
    by (auto simp: build_adapters_def dual43_adapter_def dlt645_adapter_def dlt698_adapter_def
        qgdw_adapter_def)
qed

lemma new_splitter_simps [simp]:
  "sp_adapters (new_splitter ads) = ads" "sp_buf (new_splitter ads) = []"
  by (simp_all add: new_splitter_def)

text \<open>
  C1. Reading any byte stream in any chunks through a fresh splitter always
  returns; what it delivers are disjoint segments of the stream in their order, each a frame its
  protocol's adapter extracted; and what it keeps is at most 4096 bytes that start like a frame.
\<close>

theorem feed_all_delivers:
  "\<exists>out rest. feed_all (new_splitter build_adapters) chunks
       = Some (out, \<lparr>sp_adapters = build_adapters, sp_buf = rest\<rparr>)
     \<and> cuts (concat chunks) (map snd out) rest
     \<and> length rest \<le> MAX_FRAME \<and> (rest = [] \<or> hd rest \<in> set FRAME_START_BYTES)
     \<and> list_all stack.genuine out"
  using stack.feed_all_total [of "new_splitter build_adapters" chunks]
  by (auto simp: settled_def new_splitter_def list_all_iff)

lemma scores: "scores_total build_adapters"
  by (simp add: scores_total_def build_adapters_def dual43_adapter_def dlt645_adapter_def
      dlt698_adapter_def qgdw_adapter_def)

text \<open>The two adapters of \<open>_scan_nested\<close>, in its order.\<close>

definition nested_candidates :: "string adapter list" where
  "nested_candidates = [dlt645_adapter, dlt698_adapter]"

interpretation nested: lawful_adapters nested_candidates
proof (rule lawful_adapters.intro)
  fix a :: "string adapter"
  assume "a \<in> set nested_candidates"
  then show "frame_extractor (try_extract a)"
    by (intro stack.lawful) (auto simp: nested_candidates_def build_adapters_def)
qed

lemma nested_scores: "scores_total nested_candidates"
  by (simp add: scores_total_def nested_candidates_def dlt645_adapter_def dlt698_adapter_def)

lemma nested_scan_returns: "scan_nested nested_candidates payload [] \<noteq> None"
  using nested.scan_nested_total [OF nested_scores, of payload "[]"] by auto

text \<open>
  The scan of a forwarded payload for 645 and 698 frames returns on every
  payload, with disjoint frames in order, each cut out by the adapter of its protocol.
\<close>

theorem nested_scan_delivers:
  "\<exists>fs rest. scan_nested nested_candidates payload [] = Some fs \<and> cuts payload (map snd fs) rest
    \<and> list_all nested.genuine fs"
  using nested.scan_nested_total [OF nested_scores, of payload "[]"] by (auto simp: list_all_iff)

subsection \<open>Chunking\<close>

definition f645 :: bytes where
  "f645 = [0x68, 0x0C, 0, 1, 2, 3, 4, 0x68, 0x91, 4, 1, 0x16, 2, 3, 0, 0x16]"

lemma f645_steps:
  "first_hit build_adapters f645 = Some (''645'', \<lparr>ex_raw = f645, ex_consumed = 16\<rparr>)"
  "first_hit build_adapters [] = None" "resync [] = None"
  "first_hit build_adapters (take 13 f645) = None" "resync (take 13 f645) = Some [2]"
  "first_hit build_adapters [2] = None" "resync [2] = Some []"
  "first_hit build_adapters [3, 0, 0x16] = None" "resync [3, 0, 0x16] = Some []"
  by code_simp+


text \<open>Two frames of the local module interface read in one chunk.\<close>

definition q1 :: bytes where
  "q1 = the (build_13762_frame 3 1 [] Down 3 Map.empty no_address)"

definition q2 :: bytes where
  "q2 = the (build_13762_frame 3 4 [] Down 3 Map.empty no_address)"

lemma glued_steps:
  "first_hit build_adapters (q1 @ q2) = None" "resync (q1 @ q2) = Some q2"
  "first_hit build_adapters q2 = Some (''1376.2'', \<lparr>ex_raw = q2, ex_consumed = length q2\<rparr>)"
  "first_hit build_adapters q1 = Some (''1376.2'', \<lparr>ex_raw = q1, ex_consumed = length q1\<rparr>)"
  by code_simp+


subsection \<open>Routing\<close>

lemma scores_nonneg:
  "0 \<le> confidence_43 raw" "0 \<le> confidence_645 raw" "0 \<le> confidence_698 raw" "0 \<le> confidence_10376 raw"
  by (simp_all add: confidence_43_def confidence_645_def confidence_698_def confidence_10376_def Let_def)

lemma stack_scores_nonneg: "\<forall>a \<in> set build_adapters. 0 \<le> score raw a"
  by (simp add: build_adapters_def score_def dual43_adapter_def dlt645_adapter_def dlt698_adapter_def
      qgdw_adapter_def scores_nonneg)

lemma stack_router:
  "new_router build_adapters = map (\<lambda>a. (protocol a, a)) build_adapters"
  by (simp add: new_router_def build_adapters_def dual43_adapter_def dlt645_adapter_def dlt698_adapter_def
      qgdw_adapter_def)

text \<open>
  The router over the library's adapters always selects one: without a preference the
  one with the highest score, the earliest registered among equals, also when every score is 0;
  with a registered protocol as preference that protocol's adapter, whatever the scores.
\<close>

theorem routing:
  "(\<exists>pre a post. select (new_router build_adapters) raw None = Some a \<and> build_adapters = pre @ a # post
        \<and> list_all (\<lambda>x. score raw x < score raw a) pre \<and> list_all (\<lambda>x. score raw x \<le> score raw a) post)
   \<and> list_all (\<lambda>a. map_option protocol (select (new_router build_adapters) raw (Some (protocol a)))
                 = Some (protocol a)) build_adapters"
proof
  have ne: "new_router build_adapters \<noteq> []"
    unfolding stack_router by (simp add: build_adapters_def)
  have m: "map snd (new_router build_adapters) = build_adapters" by (simp add: stack_router comp_def)
  from select_auto [OF ne, of raw] stack_scores_nonneg [of raw]
  show "\<exists>pre a post. select (new_router build_adapters) raw None = Some a \<and> build_adapters = pre @ a # post
        \<and> list_all (\<lambda>x. score raw x < score raw a) pre \<and> list_all (\<lambda>x. score raw x \<le> score raw a) post"
    unfolding m list_all_iff by blast
  show "list_all (\<lambda>a. map_option protocol (select (new_router build_adapters) raw (Some (protocol a)))
                 = Some (protocol a)) build_adapters"
    unfolding stack_router select_def
    by (simp add: build_adapters_def dual43_adapter_def dlt645_adapter_def dlt698_adapter_def
      qgdw_adapter_def)
qed

end
