(* ===== verification/App_Data.thy ===== *)
theory App_Data
  imports App_Encode Parser_Stack
begin

text \<open>
  The encoder of \<open>App_Encode\<close> against the reader of \<open>App_Items\<close>: what a decoded frame shows of
  the parameters it was built from, which functions the encoder knows, and where the two
  disagree.
\<close>

section \<open>Joining pieces\<close>

lemma cat_append: "cat (xs @ ys) = andThen (cat xs) (\<lambda>a. andThen (cat ys) (\<lambda>b. Inr (a @ b)))"
  by (induction xs) (auto simp: andThen_def split: sum.splits)

lemma cat_map: "(\<And>x. x \<in> set xs \<Longrightarrow> f x = Inr (g x)) \<Longrightarrow> cat (map f xs) = Inr (concat (map g xs))"
  by (induction xs) simp_all

lemma not_space_hex: "n < 16 \<Longrightarrow> hex_digit n \<noteq> CHR '' ''"
  using hex_digit_facts [of n] by (auto simp: is_space_def)

lemma no_space_hex_upper: "CHR '' '' \<notin> set (hex_upper bs)"
  by (induction bs) (auto dest: sym simp: not_space_hex)

lemma hex_bytes_upper [simp]: "hex_bytes (PStr (hex_upper bs)) = Inr bs"
  by (simp add: hex_bytes_def to_str_def remove_char_id no_space_hex_upper from_hex_upper)

text \<open>Every text of twelve digits has its six bytes.\<close>

definition bcd6 :: "string \<Rightarrow> bytes" where
  "bcd6 s = the (str_to_bcd s 6)"

lemma bcd6: "bcd12 s \<Longrightarrow> str_to_bcd s 6 = Some (bcd6 s) \<and> length (bcd6 s) = 6 \<and> bcd_to_str (bcd6 s) = s"
  using str_to_bcd_text [of s] by (auto simp: bcd6_def)

lemma bcd12_strip: "bcd12 s \<Longrightarrow> py_strip s = s"
proof (rule py_strip_id, rule ballI)
  fix c assume "bcd12 s" "c \<in> set s"
  then have "is_digit c" by (auto simp: bcd12_def list_all_iff)
  then obtain d where "d < 10" "c = hex_digit d" using is_digit_hex by blast
  then show "\<not> is_space c" using hex_digit_facts [of d] by simp
qed

lemma bcd_bytes_text [simp]: "bcd12 s \<Longrightarrow> bcd_bytes (PStr s) = Inr (bcd6 s)"
  using bcd6 [of s] bcd12_strip [of s] by (auto simp: bcd_bytes_def to_str_def bcd12_def Let_def)

lemma b_in_int [simp]: "lo \<le> n \<Longrightarrow> n \<le> hi \<Longrightarrow> 0 \<le> lo \<Longrightarrow> hi \<le> 255 \<Longrightarrow> b_in (Inr (PInt n)) lo hi = Inr [of_int n]"
  by (simp add: b_in_def u8_in_def byte1_def of_nat_nat)

lemma b8_int [simp]: "0 \<le> n \<Longrightarrow> n \<le> 255 \<Longrightarrow> b8 (Inr (PInt n)) = Inr [of_int n]"
  by (simp add: b8_def)

lemma w16_int [simp]: "0 \<le> n \<Longrightarrow> n < 65536 \<Longrightarrow> w16 (Inr (PInt n)) = Inr [of_nat (nat n mod 256), of_nat (nat n div 256)]"
  by (simp add: w16_def u16_def le2_def nat_less_iff)

lemma byte1_ok [simp]: "n < 256 \<Longrightarrow> byte1 n = Inr [of_nat n]"
  by (simp add: byte1_def)

lemma unat_of_int_small: "0 \<le> n \<Longrightarrow> n < 256 \<Longrightarrow> unat (of_int n :: byte) = nat n"
  using nat_uint_eq [of "of_int n :: byte"] by (simp add: uint_of_int_byte del: nat_uint_eq)

lemma unat_of_nat_small: "n < 256 \<Longrightarrow> unat (of_nat n :: byte) = n"
  by (simp add: unat_of_nat_byte)

lemma word_at_le2: "n < 65536 \<Longrightarrow> word_at (of_nat (n mod 256) # of_nat (n div 256) # r) 0 = Some n"
  by (simp add: word_at_eq pair16_eq unat_of_nat_byte)

section \<open>Reading back records\<close>

text \<open>What a loop shows of records that are all there.\<close>

fun numbered :: "(nat \<Rightarrow> 'a \<Rightarrow> 'b list) \<Rightarrow> nat \<Rightarrow> 'a list \<Rightarrow> 'b list" where
  "numbered g i [] = []"
| "numbered g i (x # xs) = g i x @ numbered g (Suc i) xs"

lemma recs_concat:
  assumes "\<And>x. x \<in> set xs \<Longrightarrow> length (e x) = w" "\<And>k x. x \<in> set xs \<Longrightarrow> f k (e x) = Some (g k x)"
  shows "recs w f i (length xs) (concat (map e xs) @ rest) = Some (numbered g i xs, rest)"
  using assms
proof (induction xs arbitrary: i)
  case (Cons x xs)
  from Cons.prems have l: "length (e x) = w" "f i (e x) = Some (g i x)" by simp_all
  from Cons.IH [of "Suc i"] Cons.prems
  have "recs w f (Suc i) (length xs) (concat (map e xs) @ rest) = Some (numbered g (Suc i) xs, rest)" by simp
  with l show ?case by simp
qed simp

lemma records_concat:
  assumes "\<And>x. x \<in> set xs \<Longrightarrow> length (e x) = w" "\<And>k x. x \<in> set xs \<Longrightarrow> f k (e x) = Some (g k x)"
  shows "records w f (length xs) (concat (map e xs)) = Some (numbered g 1 xs)"
  using assms recs_concat [of xs e w f g 1 "[]"] by (simp add: records_def)

text \<open>Name, running number and value of the fields.\<close>

definition shows_fields :: "item list \<Rightarrow> (string \<times> nat list \<times> shown) list" where
  "shows_fields = map (\<lambda>it. (it_name it, it_index it, it_value it))"

lemma shows_fields_simps [simp]:
  "shows_fields [] = []" "shows_fields (it # its) = (it_name it, it_index it, it_value it) # shows_fields its"
  "shows_fields (xs @ ys) = shows_fields xs @ shows_fields ys"
  by (simp_all add: shows_fields_def)

lemma shows_numbered: "shows_fields (numbered g i xs) = numbered (\<lambda>k x. shows_fields (g k x)) i xs"
  by (induction xs arbitrary: i) simp_all

lemmas item_defs = num_item_def qty_item_def bcd_item_def hex_item_def word_item_def proto_item_def

section \<open>Messages to sub-nodes (13H-F1)\<close>

definition monitor_params :: "int \<Rightarrow> int \<Rightarrow> string list \<Rightarrow> bytes \<Rightarrow> pdict" where
  "monitor_params proto delay subs payload =
     [(''protocol'', PInt proto), (''delay_flag'', PInt delay), (''subs'', PList (map PStr subs)),
      (''payload'', PStr (hex_upper payload))]"

definition monitor_bytes :: "int \<Rightarrow> int \<Rightarrow> string list \<Rightarrow> bytes \<Rightarrow> bytes" where
  "monitor_bytes proto delay subs payload =
     [of_int proto, of_int delay, of_nat (length subs)] @ concat (map bcd6 subs)
     @ [of_nat (length payload)] @ payload"

lemma monitor_encoded:
  assumes "0 \<le> proto" "proto \<le> 3" "0 \<le> delay" "delay \<le> 1" "list_all bcd12 subs" "length subs < 256"
    "length payload < 256"
  shows "encode_app_data 0x13 1 (Some (monitor_params proto delay subs payload)) Down
     = Inr (monitor_bytes proto delay subs payload)"
proof -
  have subs: "cat (map bcd_bytes (map PStr subs)) = Inr (concat (map bcd6 subs))"
    unfolding map_map using assms(5) by (intro cat_map) (simp add: list_all_iff)
  have l: "get_list (monitor_params proto delay subs payload) ''subs'' = PList (map PStr subs)"
    by (simp add: get_list_def pget_def monitor_params_def)
  have p: "short_payload (monitor_params proto delay subs payload) = Inr payload"
    using assms(7) by (simp add: short_payload_def req_def pget_def monitor_params_def)
  have "enc_down_13_F1 0x13 1 (monitor_params proto delay subs payload)
      = Some (Inr (monitor_bytes proto delay subs payload))"
    using assms subs l p
    by (simp add: enc_down_13_F1_def cat_append req_def pget_def getd_def monitor_params_def monitor_bytes_def)
  then show ?thesis
    by (simp add: encode_app_data_def enc_common_def enc_down_03_05_def NO_UNIT_DOWN_def enc_down_10_11_def
        nat_and_masks int_and_masks)
qed

lemma monitor_read:
  assumes "0 \<le> proto" "proto \<le> 3" "0 \<le> delay" "delay \<le> 1" "list_all bcd12 subs" "length subs < 256"
    "length payload < 256"
  shows "map_option shows_fields (items_13 False (monitor_bytes proto delay subs payload)) =
     Some ([(''protocol'', [], CodedX (nat proto) (PROTOCOL_TYPE_NAMES (nat proto))),
            (''delay'', [], Txt (if delay \<noteq> 0 then ''related'' else ''unrelated'')),
            (''attached nodes'', [], Dec (length subs))]
           @ numbered (\<lambda>k s. [(''attached node address'', [k], Bcd s)]) 1 subs
           @ [(''message length'', [], Qty (length payload) ''B''), (''message'', [], HexT payload)])"
proof -
  let ?g = "\<lambda>k s. [Item ''attached node address'' [k] (Bcd s) (Hs (bcd6 s)) []]"
  have r: "recs 6 (address_record ''attached node address'') 1 (length subs)
      (concat (map bcd6 subs) @ of_nat (length payload) # payload)
    = Some (numbered ?g 1 subs, of_nat (length payload) # payload)"
    using assms(5) bcd6 by (intro recs_concat) (auto simp: list_all_iff address_record_def bcd_item_def)
  have d: "(of_int delay :: byte) = 0 \<longleftrightarrow> delay = 0"
    using assms(3,4) unat_of_int_small [of delay] by (auto simp: word_unat_eq_iff)
  have u: "unat (of_nat (length subs) :: byte) = length subs"
    "unat (of_nat (length payload) :: byte) = length payload" "unat (of_int proto :: byte) = nat proto"
    "unat (of_int delay :: byte) = nat delay"
    using assms by (simp_all add: unat_of_nat_small unat_of_int_small)
  show ?thesis
    by (simp add: items_13_def monitor_bytes_def py_at_def u r [unfolded One_nat_def] item_defs flag_item_def d shows_numbered
        py_slice_def)
qed

section \<open>A frame's fields\<close>

text \<open>
  The items that \<open>decode\<close> collects and the nested frames it finds; the name of the AFN and the
  texts of the nested frames are left out. \<open>decode\<close> raises where \<open>_app_items\<close> does.
\<close>

definition decode_items :: "'p adapter list \<Rightarrow> bytes \<Rightarrow> (item list \<times> ('p \<times> bytes) list) option" where
  "decode_items candidates raw =
     do { d \<leftarrow> decode_10376 raw;
          (case dl_unit d of
             None \<Rightarrow> Some ([], [])
           | Some u \<Rightarrow>
               let head = Item ''AFN'' [] (X2 (au_afn u)) (H2 (au_afn u)) []
               in if au_data u \<noteq> []
                  then do { xs \<leftarrow> app_items (au_afn u) (au_fn u) (au_data u) (ctl_direction (dl_control d));
                            ns \<leftarrow> (if au_scan u then scan_nested candidates (au_data u) [] else Some []);
                            Some (head # xs, ns) }
                  else Some ([head, Item ''application data'' [] (Txt ''none'') NoHex []], [])) }"

text \<open>Where the encoder succeeds its bytes are long enough for the reader.\<close>

lemma w16_length: "w16 v = Inr bs \<Longrightarrow> length bs = 2"
  by (auto simp: w16_def andThen_Inr le2_def split: if_splits)

lemma byte1_length: "byte1 n = Inr bs \<Longrightarrow> length bs = 1"
  by (auto simp: byte1_def split: if_splits)

lemma node_list_from_length: "node_list_from f params = Inr bs \<Longrightarrow> 5 \<le> length bs"
  by (auto simp: node_list_from_def andThen_Inr dest!: w16_length byte1_length)

lemma encoded_length:
  assumes "encode_app_data 0x10 fn params Up = Inr bs" "fn \<in> {21, 31, 112}"
  shows "5 \<le> length bs"
  using assms by (auto simp: encode_app_data_def enc_common_def enc_up_03_def CONFIRMED_def enc_up_06_def
      enc_up_10a_def enc_up_10b_def int_and_masks dest: node_list_from_length)

lemma encoded_230: "encode_app_data 0x06 230 params dir = Inl UnsupportedFn"
  by (cases dir) (simp_all add: encode_app_data_def enc_common_def enc_up_03_def CONFIRMED_def enc_up_06_def
      enc_up_10a_def enc_up_10b_def enc_up_13_F1_def enc_down_03_05_def NO_UNIT_DOWN_def enc_down_10_11_def
      enc_down_13_F1_def int_and_masks)

lemma encodable_readable:
  assumes "encode_app_data (int afn) (int fn) params dir = Inr bs" "afn < 256"
  shows "app_items afn fn bs dir \<noteq> None"
proof
  assume "app_items afn fn bs dir = None"
  then have "afn = 0x10 \<and> dir = Up \<and> fn \<in> {21, 31, 112} \<and> length bs < 5 \<or> afn = 0x06 \<and> fn = 230"
    unfolding app_items_None by auto
  then show False
  proof (elim disjE conjE)
    assume "afn = 0x10" "dir = Up" "fn \<in> {21, 31, 112}" "length bs < 5"
    with assms(1) encoded_length [of "int fn" params bs] show False by auto
  next
    assume "afn = 0x06" "fn = 230"
    with assms(1) encoded_230 [of params dir] show False by simp
  qed
qed



text \<open>
  What goes into a message for a sub-node comes out: of a protocol up to 3, a
  delay flag, up to 255 twelve-digit addresses of attached nodes and a message of up to 255
  bytes, given as parameters, the reader shows protocol, flag, count, every address under its
  number, the message's length and the message.
\<close>

theorem monitor_roundtrip:
  assumes "0 \<le> proto" "proto \<le> 3" "0 \<le> delay" "delay \<le> 1" "list_all bcd12 subs" "length subs < 256"
    "length payload < 256"
  shows "\<exists>bs. encode_app_data 0x13 1 (Some (monitor_params proto delay subs payload)) Down = Inr bs
    \<and> map_option shows_fields (app_items 0x13 1 bs Down) =
     Some ([(''protocol'', [], CodedX (nat proto) (PROTOCOL_TYPE_NAMES (nat proto))),
            (''delay'', [], Txt (if delay \<noteq> 0 then ''related'' else ''unrelated'')),
            (''attached nodes'', [], Dec (length subs))]
           @ numbered (\<lambda>k s. [(''attached node address'', [k], Bcd s)]) 1 subs
           @ [(''message length'', [], Qty (length payload) ''B''), (''message'', [], HexT payload)])"
  using monitor_encoded [OF assms] monitor_read [OF assms] by (simp add: app_items_def)

theorem monitor_roundtrip_witness:
  "\<exists>bs. encode_app_data 0x13 1 (Some (monitor_params 2 1 [''000000000001'', ''112233445566''] [0x68])) Down = Inr bs
    \<and> map_option shows_fields (app_items 0x13 1 bs Down) =
     Some [(''protocol'', [], CodedX 2 (Some ''DL/T 645-2007'')), (''delay'', [], Txt ''related''),
           (''attached nodes'', [], Dec 2), (''attached node address'', [1], Bcd ''000000000001''),
           (''attached node address'', [2], Bcd ''112233445566''), (''message length'', [], Qty 1 ''B''),
           (''message'', [], HexT [0x68])]"
  using monitor_roundtrip [of 2 1 "[''000000000001'', ''112233445566'']" "[0x68]"]
  by (simp add: bcd12_def is_digit_def PROTOCOL_TYPE_NAMES_def numeral_2_eq_2)

section \<open>Supported functions (03H-F11)\<close>

definition fn_bit :: "bytes \<Rightarrow> nat \<Rightarrow> bool" where
  "fn_bit bm i \<longleftrightarrow> bit (bm ! (i div 8)) (i mod 8)"

lemma nat_bit_div: "bit (n::nat) k \<longleftrightarrow> n div 2 ^ k mod 2 \<noteq> 0"
  unfolding bit_iff_odd by presburger

lemma supported_fns_eq: "supported_fns bm = map Suc (filter (fn_bit bm) [0..<255])"
proof -
  have "(drop_bit (i AND 7) (unat (bm ! drop_bit 3 i)) AND 1 \<noteq> 0) = fn_bit bm i" for i
  proof -
    have "drop_bit (i AND 7) (unat (bm ! drop_bit 3 i)) AND 1 = unat (bm ! (i div 8)) div 2 ^ (i mod 8) mod 2"
      by (simp add: nat_and_masks nat_drop_bits)
    moreover have "bit (unat (bm ! (i div 8))) (i mod 8) = bit (bm ! (i div 8)) (i mod 8)"
      by (simp add: bit_unsigned_iff)
    ultimately show ?thesis by (simp only: fn_bit_def nat_bit_div)
  qed
  then show ?thesis by (simp add: supported_fns_def)
qed

lemma set_fn_bit:
  assumes "length bm = 32" "1 \<le> f" "f \<le> 255" "i < 255"
  shows "fn_bit (set_fn bm f) i \<longleftrightarrow> fn_bit bm i \<or> Suc i = f"
proof -
  have l: "(f - 1) div 8 < 32" "i div 8 < 32" using assms by auto
  have p: "bit (of_nat (push_bit ((f - 1) mod 8) 1) :: byte) m \<longleftrightarrow> m = (f - 1) mod 8" if "m < 8" for m
    using that by (auto simp: bit_simps of_nat_push_bit)
  have "i div 8 = (f - 1) div 8 \<and> i mod 8 = (f - 1) mod 8 \<longleftrightarrow> i = f - 1"
    by (metis div_mult_mod_eq)
  also have "\<dots> \<longleftrightarrow> Suc i = f" using assms(2) by auto
  finally have "i div 8 = (f - 1) div 8 \<and> i mod 8 = (f - 1) mod 8 \<longleftrightarrow> Suc i = f" .
  moreover have "fn_bit (set_fn bm f) i \<longleftrightarrow>
      fn_bit bm i \<or> (i div 8 = (f - 1) div 8 \<and> i mod 8 = (f - 1) mod 8)"
  proof (cases "i div 8 = (f - 1) div 8")
    case True
    have "bit (bm ! ((f - 1) div 8) OR of_nat (push_bit ((f - 1) mod 8) 1)) (i mod 8)
        \<longleftrightarrow> bit (bm ! ((f - 1) div 8)) (i mod 8) \<or> i mod 8 = (f - 1) mod 8"
      unfolding bit_or_iff by (simp only: p mod_less_divisor zero_less_numeral)
    with True l show ?thesis
      by (simp add: fn_bit_def set_fn_def nat_and_masks nat_drop_bits Let_def assms(1))
  next
    case False
    with l show ?thesis
      by (simp add: fn_bit_def set_fn_def nat_and_masks nat_drop_bits Let_def assms(1))
  qed
  ultimately show ?thesis by simp
qed

lemma support_map_ok:
  "length bm = 32 \<Longrightarrow> list_all (\<lambda>f. 1 \<le> f \<and> f \<le> 255) fs \<Longrightarrow>
     \<exists>bm'. support_map bm (map PInt fs) = Inr bm' \<and> length bm' = 32
       \<and> (\<forall>i < 255. fn_bit bm' i \<longleftrightarrow> fn_bit bm i \<or> int (Suc i) \<in> set fs)"
proof (induction fs arbitrary: bm)
  case (Cons f fs)
  have l: "length (set_fn bm (nat f)) = 32" using Cons.prems by (simp add: set_fn_def Let_def)
  from Cons.IH [OF l] Cons.prems obtain bm' where ih:
    "support_map (set_fn bm (nat f)) (map PInt fs) = Inr bm'" "length bm' = 32"
    "\<forall>i < 255. fn_bit bm' i \<longleftrightarrow> fn_bit (set_fn bm (nat f)) i \<or> int (Suc i) \<in> set fs" by auto
  have "fn_bit (set_fn bm (nat f)) i \<longleftrightarrow> fn_bit bm i \<or> int (Suc i) = f" if "i < 255" for i
  proof -
    have "1 \<le> nat f" "nat f \<le> 255" "int (Suc i) = f \<longleftrightarrow> Suc i = nat f" using Cons.prems by auto
    with set_fn_bit [of bm "nat f" i] Cons.prems that show ?thesis by simp
  qed
  with ih Cons.prems show ?case by auto
qed simp

lemma support_facts:
  assumes "0 \<le> a" "a \<le> 255" "list_all (\<lambda>f. 1 \<le> f \<and> f \<le> 255) fs"
  shows "\<exists>bs. encode_app_data 0x03 11 (Some [(''afn'', PInt a), (''support'', PList (map PInt fs))]) Up = Inr bs
    \<and> map_option shows_fields (app_items 0x03 11 bs Up) =
      Some [(''AFN'', [], X2 (nat a)), (''supported units'', [], Fns (sorted_list_of_set (nat ` set fs)))]"
proof -
  have bit0: "\<not> fn_bit (replicate 32 0) i" if "i < 255" for i
    using that by (simp add: fn_bit_def)
  from support_map_ok [of "replicate 32 0" fs] assms(3) obtain bm where
    bm: "support_map (replicate 32 0) (map PInt fs) = Inr bm" "length bm = 32"
      "\<forall>i < 255. fn_bit bm i \<longleftrightarrow> int (Suc i) \<in> set fs" using bit0 by auto
  have l: "elements (get_list [(''afn'', PInt a), (''support'', PList (map PInt fs))] ''support'')
      = Inr (map PInt fs)" by (simp add: get_list_def pget_def)
  have e: "encode_app_data 0x03 11 (Some [(''afn'', PInt a), (''support'', PList (map PInt fs))]) Up
      = Inr (of_int a # bm)"
    using assms l bm
    by (simp add: encode_app_data_def enc_common_def enc_up_03_def CONFIRMED_def int_and_masks req_def pget_def)
  have s: "supported_fns bm = sorted_list_of_set (nat ` set fs)"
  proof (rule sorted_distinct_set_unique)
    show "set (supported_fns bm) = set (sorted_list_of_set (nat ` set fs))"
    proof -
      have "n \<in> set (supported_fns bm) \<longleftrightarrow> n \<in> nat ` set fs" for n
      proof -
        have "n \<in> set (supported_fns bm) \<longleftrightarrow> (\<exists>i < 255. int (Suc i) \<in> set fs \<and> n = Suc i)"
          using bm(3) by (auto simp: supported_fns_eq)
        also have "\<dots> \<longleftrightarrow> n \<in> nat ` set fs"
        proof
          assume "n \<in> nat ` set fs"
          then obtain f where f: "f \<in> set fs" "n = nat f" by blast
          with assms(3) have "1 \<le> f" "f \<le> 255" by (auto simp: list_all_iff)
          then have "n - 1 < 255" "int (Suc (n - 1)) = f" "n = Suc (n - 1)" using f(2) by auto
          with f(1) show "\<exists>i < 255. int (Suc i) \<in> set fs \<and> n = Suc i" by metis
        qed (auto intro: rev_image_eqI)
        finally show ?thesis .
      qed
      then show ?thesis by auto
    qed
  qed (simp_all add: supported_fns_eq distinct_map sorted_map sorted_wrt_filter)
  have "app_items 0x03 11 (of_int a # bm) Up
      = Some [Item ''AFN'' [] (X2 (nat a)) (H2 (nat a)) [],
              Item ''supported units'' [] (Fns (supported_fns bm)) (Hs bm) []]"
    using bm(2) assms(1,2)
    by (simp add: app_items_def items_03_def items_03b_def py_at_def py_slice_def unat_of_int_small)
  with e s show ?thesis by simp
qed

text \<open>
  The bitmap of supported functions: from any list of function numbers from 1
  to 255, in any order and with repetitions, the encoder sets bits from which the reader shows
  exactly these numbers, ascending and once each.
\<close>

theorem support_roundtrip:
  assumes "0 \<le> a" "a \<le> 255" "list_all (\<lambda>f. 1 \<le> f \<and> f \<le> 255) fs"
  shows "\<exists>bs. encode_app_data 0x03 11 (Some [(''afn'', PInt a), (''support'', PList (map PInt fs))]) Up = Inr bs
    \<and> map_option shows_fields (app_items 0x03 11 bs Up) =
      Some [(''AFN'', [], X2 (nat a)), (''supported units'', [], Fns (sorted_list_of_set (nat ` set fs)))]"
  by (rule support_facts [OF assms])

theorem support_roundtrip_witness:
  "\<exists>bs. encode_app_data 0x03 11 (Some [(''afn'', PInt 6), (''support'', PList (map PInt [255, 1, 9, 1]))]) Up = Inr bs
    \<and> map_option shows_fields (app_items 0x03 11 bs Up) =
      Some [(''AFN'', [], X2 6), (''supported units'', [], Fns (sorted_list_of_set (nat ` set [255, 1, 9, 1])))]"
  using support_roundtrip [of 6 "[255, 1, 9, 1]"] by simp

section \<open>Attached nodes (06H-F4)\<close>

definition bare_node :: "string \<Rightarrow> pv" where
  "bare_node addr = PDict [(''addr'', PStr addr)]"

lemma bare_unit: "bcd12 a \<Longrightarrow> with_dict topology_unit (bare_node a) = Inr (bcd6 a @ [2, 0, 0, 1, 0, 0])"
  by (simp add: with_dict_def bare_node_def as_dict_def topology_unit_def node_addr_def getd_def pget_def
      get_list_def)

lemma two_addresses: "bcd12 ''112233445566''" "bcd12 ''112233445577''"
  "bcd6 ''112233445566'' = [0x11, 0x22, 0x33, 0x44, 0x55, 0x66]"
  "bcd6 ''112233445577'' = [0x11, 0x22, 0x33, 0x44, 0x55, 0x77]"
  by (simp_all add: bcd12_def is_digit_def) code_simp+

text \<open>
  The report of the network's nodes does not survive when a node has no
  attached nodes: the encoder writes its count of attached nodes in this frame even then, the
  reader skips that byte only when there are any, and takes it for the first byte of the next
  node's address. Two reported nodes 112233445566 and 112233445577 are shown as the first and
  001122334455, whose protocol is 77H.
\<close>

theorem topology_misread:
  "\<exists>bs. encode_app_data 0x06 4
        (Some [(''nodes'', PList [bare_node ''112233445566'', bare_node ''112233445577''])]) Up = Inr bs
    \<and> map_option (filter (\<lambda>f. fst f \<in> {''node address'', ''node protocol''}) \<circ> shows_fields)
        (app_items 0x06 4 bs Up)
      = Some [(''node address'', [1], Bcd ''112233445566''),
              (''node protocol'', [1], CodedX 2 (Some ''DL/T 645-2007'')),
              (''node address'', [2], Bcd ''001122334455''),
              (''node protocol'', [2], CodedX 0x77 None)]"
proof -
  let ?bs = "[2, 0x11, 0x22, 0x33, 0x44, 0x55, 0x66, 2, 0, 0, 1, 0, 0,
              0x11, 0x22, 0x33, 0x44, 0x55, 0x77, 2, 0, 0, 1, 0, 0] :: bytes"
  have "encode_app_data 0x06 4
        (Some [(''nodes'', PList [bare_node ''112233445566'', bare_node ''112233445577''])]) Up = Inr ?bs"
    by (simp add: encode_app_data_def enc_common_def enc_up_03_def CONFIRMED_def enc_up_06_def int_and_masks
        nodes_list_def pget_def bare_unit two_addresses)
  moreover have "map_option (filter (\<lambda>f. fst f \<in> {''node address'', ''node protocol''}) \<circ> shows_fields)
        (app_items 0x06 4 ?bs Up)
      = Some [(''node address'', [1], Bcd ''112233445566''),
              (''node protocol'', [1], CodedX 2 (Some ''DL/T 645-2007'')),
              (''node address'', [2], Bcd ''001122334455''),
              (''node protocol'', [2], CodedX 0x77 None)]"
    by code_simp
  ultimately show ?thesis by blast
qed

section \<open>The functions that can be built\<close>

text \<open>Function codes with their Fn, downward and upward.\<close>

definition downward_fns :: "(nat \<times> int list) list" where
  "downward_fns =
     [(0x00, [1, 2]),
      (0x01, [1, 2, 3]),
      (0x02, [1]),
      (0x03, [1, 2, 3, 4, 5, 6, 7, 8, 9, 10, 11, 12, 16, 100]),
      (0x04, [1, 2, 3]),
      (0x05, [1, 2, 3, 4, 5, 6, 16, 100, 101, 200]),
      (0x10, [1, 2, 3, 4, 5, 6, 7, 9, 21, 31, 40, 100, 101, 104, 111, 112, 230, 231]),
      (0x11, [1, 2, 3, 4, 5, 6, 100, 101, 102, 231, 232]),
      (0x12, [1, 2, 3]),
      (0x13, [1]),
      (0x14, [1, 2, 3, 4]),
      (0x15, [1]),
      (0xF1, [1])]"

definition upward_fns :: "(nat \<times> int list) list" where
  "upward_fns =
     [(0x00, [1, 2]),
      (0x02, [1]),
      (0x03, [1, 2, 3, 4, 5, 6, 7, 8, 9, 10, 11, 12, 16, 100]),
      (0x06, [1, 2, 3, 4, 5]),
      (0x10, [1, 2, 3, 4, 5, 6, 7, 9, 21, 31, 40, 100, 101, 111, 112]),
      (0x13, [1]),
      (0x14, [1, 2, 3, 4]),
      (0x15, [1]),
      (0xF1, [1])]"

definition buildable :: "direction \<Rightarrow> (nat \<times> int) list" where
  "buildable dir = concat (map (\<lambda>(afn, fns). map (Pair afn) fns) (if dir = Up then upward_fns else downward_fns))"

text \<open>A result that is no UnsupportedFn, taken apart along its structure.\<close>

definition plain :: "'a res \<Rightarrow> bool" where
  "plain r \<longleftrightarrow> r \<noteq> Inl UnsupportedFn"

definition plain_group :: "bytes res option \<Rightarrow> bool" where
  "plain_group g = (case g of None \<Rightarrow> True | Some r \<Rightarrow> plain r)"

lemma plain_simps [simp]: "plain (Inr v)" "plain (Inl e) \<longleftrightarrow> e \<noteq> UnsupportedFn"
  by (simp_all add: plain_def)

lemma plain_andThen: "plain x \<Longrightarrow> (\<And>v. plain (f v)) \<Longrightarrow> plain (andThen x f)"
  by (cases x) auto

lemma plain_cat: "list_all plain xs \<Longrightarrow> plain (cat xs)"
  by (induction xs) (auto intro!: plain_andThen)

lemma plain_if: "plain x \<Longrightarrow> plain y \<Longrightarrow> plain (if c then x else y)"
  by simp

lemma plain_let: "plain (f x) \<Longrightarrow> plain (let y = x in f y)"
  by simp

lemma plain_option: "plain x \<Longrightarrow> (\<And>a. plain (f a)) \<Longrightarrow> plain (case y of None \<Rightarrow> x | Some a \<Rightarrow> f a)"
  by (cases y) simp_all

lemma plain_map: "(\<And>x. plain (f x)) \<Longrightarrow> list_all plain (map f xs)"
  by (induction xs) simp_all

lemma plain_Cons: "plain x \<Longrightarrow> list_all plain xs \<Longrightarrow> list_all plain (x # xs)"
  by simp

lemma plain_append: "list_all plain xs \<Longrightarrow> list_all plain ys \<Longrightarrow> list_all plain (xs @ ys)"
  by simp

lemma plain_Nil: "list_all plain []"
  by simp

lemmas plain_parts = plain_andThen plain_cat plain_if plain_let plain_option plain_map plain_Cons plain_append
  plain_Nil

lemma plain_pv:
  "plain a \<Longrightarrow> (\<And>b. plain (f b)) \<Longrightarrow> (\<And>n. plain (g n)) \<Longrightarrow> (\<And>s. plain (h s)) \<Longrightarrow> (\<And>l. plain (k l)) \<Longrightarrow>
     (\<And>d. plain (m d)) \<Longrightarrow>
     plain (case v of PNone \<Rightarrow> a | PBool b \<Rightarrow> f b | PInt n \<Rightarrow> g n | PStr s \<Rightarrow> h s | PList l \<Rightarrow> k l | PDict d \<Rightarrow> m d)"
  by (cases v) simp_all

lemma plain_leaves [simp]:
  "plain (to_int v)" "plain (elements v)" "plain (as_dict v)" "plain (le2 n)" "plain (byte1 n)" "plain (req d k)"
  "plain (bcd_bytes v)" "plain (hex_bytes v)" "plain (nodes_list d k)" "plain (action_code s v)" "plain (ascii2 v)"
  by (auto simp: le2_def byte1_def req_def bcd_bytes_def hex_bytes_def nodes_list_def action_code_def ascii2_def
      as_dict_def Let_def split: pv.splits option.splits)
    (cases v; auto split: option.splits)+

lemma plain_ranges [simp]: "plain (u8_in v lo hi)" "plain (u16 v)" "plain (int_to_bcd v h)" "plain (rate_word v n)"
  unfolding u8_in_def u16_def int_to_bcd_def rate_word_def by (intro plain_parts; simp)+

lemma plain_fields [simp]:
  "plain v \<Longrightarrow> plain (b_in v lo hi)" "plain v \<Longrightarrow> plain (b8 v)" "plain v \<Longrightarrow> plain (w16 v)"
  unfolding b_in_def b8_def w16_def by (intro plain_parts; simp)+

lemma plain_params [simp]:
  "plain (hex_param d k)" "plain (bcd_param d k)" "plain (short_payload d)" "plain (optional_hex d k)"
  "plain (hex_of d k n)" "plain (hex_dflt d k s n)" "plain (nibbles v w)" "plain (time6_bytes d)" "plain (range_unit d)"
  unfolding hex_param_def bcd_param_def short_payload_def optional_hex_def hex_of_def hex_dflt_def nibbles_def
    time6_bytes_def range_unit_def by (intro plain_parts; simp)+

lemma plain_with_dict: "(\<And>d. plain (f d)) \<Longrightarrow> plain (with_dict f v)"
  unfolding with_dict_def by (intro plain_parts) simp_all

lemma plain_nid3 [simp]: "plain (nid3 v)"
  unfolding nid3_def by (intro plain_parts plain_pv; simp)

lemma plain_typed_items [simp]: "plain (typed_items vs)"
proof (induction vs)
  case (Cons v vs)
  then show ?case unfolding typed_items.simps by (intro plain_parts) simp_all
qed simp

lemma plain_sum_reply [simp]: "plain (sum_reply g)"
proof -
  have "plain (foldl (\<lambda>acc it. andThen acc (\<lambda>a. andThen (u16 (getd it ''reply_len'' (PInt 0))) (\<lambda>n. Inr (a + n)))) s g)"
    if "plain s" for s
    using that by (induction g arbitrary: s) (simp_all add: plain_andThen)
  then show ?thesis unfolding sum_reply_def by simp
qed

lemma plain_list_if: "list_all plain xs \<Longrightarrow> list_all plain ys \<Longrightarrow> list_all plain (if c then xs else ys)"
  by simp

lemma plain_task_parts [simp]: "plain (task_item d)" "plain (task_group items mt)"
  unfolding task_group_def task_item_def
  by (intro plain_parts; simp) (intro plain_parts plain_list_if; simp add: task_item_def [symmetric])

lemma plain_tasks [simp]: "plain (encode_11f231 d)" "plain (encode_11f232 d)"
  unfolding encode_11f231_def encode_11f232_def by (intro plain_parts; simp)+

lemma plain_records [simp]:
  "plain (list_node d)" "plain (rate_bytes d)" "plain (listened_unit d)" "plain (reported_unit d)"
  "plain (attached_unit v)" "plain (power_cut_unit d)" "plain (refused_unit d)" "plain (info_unit d)"
  "plain (route_unit d)" "plain (id_unit d)" "plain (hplc_unit d)" "plain (phase_unit d)" "plain (version_unit d)"
  "plain (chip_unit d)"
  unfolding list_node_def rate_bytes_def listened_unit_def reported_unit_def attached_unit_def power_cut_unit_def
    refused_unit_def info_unit_def info_word_def route_unit_def id_unit_def hplc_unit_def phase_unit_def
    version_unit_def chip_unit_def
  by (intro plain_parts plain_pv; simp)+

lemma plain_topology_unit [simp]: "plain (topology_unit d)"
  unfolding topology_unit_def by (intro plain_parts; simp)

lemma plain_support_map [simp]: "plain (support_map bm vs)"
proof (induction vs arbitrary: bm)
  case (Cons v vs)
  then show ?case unfolding support_map.simps by (intro plain_parts) simp_all
qed simp

lemma plain_whole [simp]:
  "plain (status_unit d)" "plain (add_nodes d)" "plain (remove_nodes d)" "plain (mode_unit d)"
  "plain (event_content t p d)" "plain (route_state_unit d)"
  "(\<And>d. plain (f d)) \<Longrightarrow> plain (node_list_unit f d)" "(\<And>d. plain (f d)) \<Longrightarrow> plain (node_list_from f d)"
  unfolding status_unit_def add_nodes_def mode_unit_def event_content_def route_state_unit_def node_list_unit_def
    node_list_from_def
        apply (intro plain_parts; simp)
       apply (intro plain_parts plain_with_dict; simp)
      apply (auto simp: remove_nodes_def split: pv.splits option.splits intro!: plain_parts)[1]
     apply (intro plain_parts plain_with_dict; simp)
    apply (intro plain_parts plain_with_dict; simp)
   apply (intro plain_parts plain_with_dict; simp)
  by (intro plain_parts plain_with_dict; simp)+

lemma plain_group_if: "plain_group x \<Longrightarrow> plain_group y \<Longrightarrow> plain_group (if c then x else y)"
  by simp

lemma plain_group_Some: "plain r \<Longrightarrow> plain_group (Some r)"
  by (simp add: plain_group_def)

lemma plain_group_None: "plain_group None"
  by (simp add: plain_group_def)

lemmas plain_groups = plain_group_if plain_group_Some plain_group_None plain_parts plain_with_dict

lemma plain_common: "plain_group (enc_common afn fn d)"
  unfolding enc_common_def by (intro plain_groups; simp)

lemma plain_down: "plain_group (enc_down_03_05 afn fn d)" "plain_group (enc_down_10_11 afn fn d)"
  "plain_group (enc_down_13_F1 afn fn d)"
  unfolding enc_down_03_05_def enc_down_10_11_def enc_down_13_F1_def by (intro plain_groups; simp)+

lemma plain_up: "plain_group (enc_up_06 afn fn d)" "plain_group (enc_up_10a afn fn d)"
  "plain_group (enc_up_10b afn fn d)" "plain_group (enc_up_13_F1 afn fn d)"
  unfolding enc_up_06_def enc_up_10a_def enc_up_10b_def enc_up_13_F1_def by (intro plain_groups; simp)+

lemma plain_up_03: "(afn, fn) \<notin> CONFIRMED \<Longrightarrow> (afn, fn) \<noteq> (0x10, 104) \<Longrightarrow> plain_group (enc_up_03 afn fn d)"
  unfolding enc_up_03_def by (simp only: if_False) (intro plain_groups; simp)

lemma first_group_plain:
  "list_all plain_group gs \<Longrightarrow> list_ex (\<lambda>g. g \<noteq> None) gs \<Longrightarrow> first_group gs \<noteq> Inl UnsupportedFn"
  by (induction gs rule: first_group.induct) (auto simp: plain_group_def plain_def)

lemma first_group_unknown: "list_all (\<lambda>g. g = None) gs \<Longrightarrow> first_group gs = Inl UnsupportedFn"
  by (induction gs rule: first_group.induct) auto

lemma group_if: "(if c then Some x else y) = None \<longleftrightarrow> \<not> c \<and> y = None"
  by simp

lemmas group_None = group_if insert_iff empty_iff list.set simp_thms NO_UNIT_DOWN_def CONFIRMED_def
  de_Morgan_disj conj_assoc

definition common_fns :: "(nat \<times> int) set" where
  "common_fns = {(0x00, 1), (0x00, 2), (0x02, 1)}"

definition down_a :: "(nat \<times> int) set" where
  "down_a = NO_UNIT_DOWN \<union> {(0x03, 3), (0x03, 6), (0x03, 9), (0x03, 11), (0x04, 1), (0x04, 3), (0x05, 1), (0x05, 2), (0x05, 3),
     (0x05, 4), (0x05, 5), (0x05, 6), (0x05, 16), (0x05, 100), (0x05, 101), (0x05, 200)}"

definition down_b :: "(nat \<times> int) set" where
  "down_b = {(0x10, 2), (0x10, 3), (0x10, 5), (0x10, 6), (0x10, 7), (0x10, 21), (0x10, 31), (0x10, 101), (0x10,
     112), (0x10, 40), (0x10, 230), (0x10, 231), (0x11, 1), (0x11, 2), (0x11, 3), (0x11, 4), (0x11, 5),
     (0x11, 100), (0x11, 231), (0x11, 232)}"

definition down_c :: "(nat \<times> int) set" where
  "down_c = {(0x13, 1), (0x14, 1), (0x14, 2), (0x14, 3), (0x14, 4), (0x15, 1), (0xF1, 1)}"

definition up_a :: "(nat \<times> int) set" where
  "up_a = CONFIRMED \<union> {(0x10, 104), (0x03, 1), (0x03, 2), (0x03, 3), (0x03, 4), (0x03, 5), (0x03, 6), (0x03, 7), (0x03, 8),
     (0x03, 9), (0x03, 10), (0x03, 11), (0x03, 12), (0x03, 16), (0x03, 100)}"

definition up_b :: "(nat \<times> int) set" where
  "up_b = {(0x06, 1), (0x06, 2), (0x06, 3), (0x06, 4), (0x06, 5)}"

definition up_c :: "(nat \<times> int) set" where
  "up_c = {(0x10, 1), (0x10, 2), (0x10, 5), (0x10, 6), (0x10, 3), (0x10, 4), (0x10, 7), (0x10, 9), (0x10, 100)}"

definition up_d :: "(nat \<times> int) set" where
  "up_d = {(0x10, 21), (0x10, 31), (0x10, 40), (0x10, 101), (0x10, 111), (0x10, 112)}"

definition up_e :: "(nat \<times> int) set" where
  "up_e = {(0x13, 1), (0x14, 1), (0x14, 2), (0x14, 3), (0x14, 4), (0x15, 1), (0xF1, 1)}"

lemma groups_None:
  "enc_common afn fn d = None \<longleftrightarrow> (afn, fn) \<notin> common_fns"
  "enc_down_03_05 afn fn d = None \<longleftrightarrow> (afn, fn) \<notin> down_a"
  "enc_down_10_11 afn fn d = None \<longleftrightarrow> (afn, fn) \<notin> down_b"
  "enc_down_13_F1 afn fn d = None \<longleftrightarrow> (afn, fn) \<notin> down_c"
  "enc_up_03 afn fn d = None \<longleftrightarrow> (afn, fn) \<notin> up_a"
  "enc_up_06 afn fn d = None \<longleftrightarrow> (afn, fn) \<notin> up_b"
  "enc_up_10a afn fn d = None \<longleftrightarrow> (afn, fn) \<notin> up_c"
  "enc_up_10b afn fn d = None \<longleftrightarrow> (afn, fn) \<notin> up_d"
  "enc_up_13_F1 afn fn d = None \<longleftrightarrow> (afn, fn) \<notin> up_e"
  by (simp_all only: group_None Un_iff enc_common_def enc_down_03_05_def enc_down_10_11_def enc_down_13_F1_def enc_up_03_def enc_up_06_def enc_up_10a_def enc_up_10b_def enc_up_13_F1_def
    common_fns_def down_a_def down_b_def down_c_def up_a_def up_b_def up_c_def up_d_def up_e_def)

lemma buildable_Down: "set (buildable Down) = common_fns \<union> down_a \<union> down_b \<union> down_c"
  by code_simp

lemma buildable_Up: "set (buildable Up) = (common_fns \<union> up_a \<union> up_b \<union> up_c \<union> up_d \<union> up_e) - CONFIRMED - {(0x10, 104)}"
  by code_simp

lemma confirmed_unknown: "common_fns \<inter> (CONFIRMED \<union> {(0x10, 104)}) = {}"
  by code_simp

lemma first_group_iff:
  "list_all plain_group gs \<Longrightarrow> first_group gs = Inl UnsupportedFn \<longleftrightarrow> list_all (\<lambda>g. g = None) gs"
proof
  assume "list_all plain_group gs" "first_group gs = Inl UnsupportedFn"
  with first_group_plain [of gs] have "\<not> list_ex (\<lambda>g. g \<noteq> None) gs" by blast
  then show "list_all (\<lambda>g. g = None) gs" by (auto simp: list_ex_iff list_all_iff)
qed (rule first_group_unknown)

lemma encode_Down:
  "encode_app_data afn fn params Down =
     (let a = nat (afn AND 0xFF); d = (case params of None \<Rightarrow> [] | Some d \<Rightarrow> d)
      in first_group [enc_common a fn d, enc_down_03_05 a fn d, enc_down_10_11 a fn d, enc_down_13_F1 a fn d])"
  by (simp add: encode_app_data_def Let_def)

lemma encode_Up:
  "encode_app_data afn fn params Up =
     (let a = nat (afn AND 0xFF); d = (case params of None \<Rightarrow> [] | Some d \<Rightarrow> d)
      in first_group [enc_common a fn d, enc_up_03 a fn d, enc_up_06 a fn d, enc_up_10a a fn d,
                      enc_up_10b a fn d, enc_up_13_F1 a fn d])"
  by (simp add: encode_app_data_def Let_def)

lemma unsupported_down:
  "encode_app_data afn fn params Down = Inl UnsupportedFn \<longleftrightarrow> (nat (afn AND 0xFF), fn) \<notin> set (buildable Down)"
  unfolding encode_Down Let_def buildable_Down
  by (subst first_group_iff) (simp_all add: plain_common plain_down groups_None)

lemma unsupported_up:
  "encode_app_data afn fn params Up = Inl UnsupportedFn \<longleftrightarrow> (nat (afn AND 0xFF), fn) \<notin> set (buildable Up)"
proof (cases "(nat (afn AND 0xFF), fn) \<in> CONFIRMED \<union> {(0x10, 104)}")
  case True
  then have "(nat (afn AND 0xFF), fn) \<notin> common_fns" using confirmed_unknown by blast
  then have "enc_common (nat (afn AND 0xFF)) fn d = None" for d by (simp add: groups_None)
  moreover from True have "enc_up_03 (nat (afn AND 0xFF)) fn d = Some (Inl UnsupportedFn)" for d
    by (auto simp: enc_up_03_def)
  moreover from True have "(nat (afn AND 0xFF), fn) \<notin> set (buildable Up)" unfolding buildable_Up by blast
  ultimately show ?thesis unfolding encode_Up Let_def by simp
next
  case False
  then have "plain_group (enc_up_03 (nat (afn AND 0xFF)) fn d)" for d by (intro plain_up_03) auto
  with False show ?thesis unfolding encode_Up Let_def buildable_Up
    by (subst first_group_iff) (simp_all add: plain_common plain_up groups_None)
qed

lemma unsupported_facts:
  "encode_app_data afn fn params dir = Inl UnsupportedFn \<longleftrightarrow> (nat (afn AND 0xFF), fn) \<notin> set (buildable dir)"
  by (cases dir) (simp_all only: unsupported_down unsupported_up)

text \<open>
  Which functions can be built: the encoder refuses a function as unsupported
  exactly when it is not in the table of its direction, whatever the parameters, so every listed
  function either builds or objects to a parameter. The two tables hold 77 functions, the 73 of
  the standard and four extensions (10H-F230, 10H-F231, 11H-F231, 11H-F232).
\<close>

theorem unsupported_exactly:
  "(encode_app_data afn fn params dir = Inl UnsupportedFn \<longleftrightarrow> (nat (afn AND 0xFF), fn) \<notin> set (buildable dir))
   \<and> length (remdups (buildable Down @ buildable Up)) = 77"
proof
  show "length (remdups (buildable Down @ buildable Up)) = 77" by code_simp
qed (rule unsupported_facts)

end
