(* ===== verification/Mac_Frame.thy ===== *)
theory Mac_Frame
  imports Py_Values
begin

text \<open>
  Frames of the dual-mode link layer as a listening station records them,
  \<open>libs/parser_lib/adapters/adapter_dualmac\<close>: \<open>gw.py\<close> (the envelope and the check sequences),
  \<open>fch.py\<close> (the frame control header) and \<open>mac_header.py\<close> (the MAC header and the message in it).

  Reads beyond the end are \<open>None\<close> (IndexError). The fields of a header that the source keeps in a
  dict are an association list under the same keys; names for display are left out.
\<close>

unbundle bit_operations_syntax

section \<open>Reading\<close>

definition u8 :: "bytes \<Rightarrow> nat \<Rightarrow> nat option" where
  "u8 b i = map_option unat (py_at b i)"

definition le24 :: "bytes \<Rightarrow> nat \<Rightarrow> nat option" where
  "le24 b off = do { x \<leftarrow> u8 b off;
                     y \<leftarrow> u8 b (off + 1);
                     z \<leftarrow> u8 b (off + 2);
                     Some (x OR push_bit 8 y OR push_bit 16 z) }"

definition le32 :: "bytes \<Rightarrow> nat \<Rightarrow> nat option" where
  "le32 b off = do { x \<leftarrow> u8 b off;
                     y \<leftarrow> u8 b (off + 1);
                     z \<leftarrow> u8 b (off + 2);
                     w \<leftarrow> u8 b (off + 3);
                     Some (x OR push_bit 8 y OR push_bit 16 z OR push_bit 24 w) }"

definition get_tei :: "bytes \<Rightarrow> nat \<Rightarrow> nat option" where
  "get_tei b off = do { x \<leftarrow> u8 b off;
                        y \<leftarrow> u8 b (off + 1);
                        Some (x OR push_bit 8 (y AND 0x0F)) }"

definition tei_pair_hi_lo :: "bytes \<Rightarrow> nat \<Rightarrow> nat \<Rightarrow> nat option" where
  "tei_pair_hi_lo b lo_off hi_off = do { x \<leftarrow> u8 b lo_off;
                                         y \<leftarrow> u8 b hi_off;
                                         Some ((drop_bit 4 x AND 0x0F) OR push_bit 4 y) }"

text \<open>A dict display: the first read that fails ends it.\<close>

fun display :: "(string \<times> pv option) list \<Rightarrow> pdict option" where
  "display [] = Some []"
| "display ((k, v) # kvs) = do { x \<leftarrow> v;
                                r \<leftarrow> display kvs;
                                Some ((k, x) # r) }"

definition num :: "nat option \<Rightarrow> pv option" where
  "num n = map_option (\<lambda>x. PInt (int x)) n"

definition flag :: "nat option \<Rightarrow> pv option" where
  "flag n = map_option (\<lambda>x. PBool (x \<noteq> 0)) n"

definition part :: "bytes \<Rightarrow> nat \<Rightarrow> nat \<Rightarrow> nat \<Rightarrow> nat option" where
  "part b i sh m = map_option (\<lambda>x. drop_bit sh x AND m) (u8 b i)"

section \<open>The envelope\<close>

text \<open>\<open>zlib.crc32\<close>, bit by bit.\<close>

definition crc32_shift :: "32 word \<Rightarrow> 32 word" where
  "crc32_shift c = (if bit c 0 then drop_bit 1 c XOR 0xEDB88320 else drop_bit 1 c)"

definition crc32 :: "bytes \<Rightarrow> 32 word" where
  "crc32 bs = NOT (foldl (\<lambda>c b. (crc32_shift ^^ 8) (c XOR ucast b)) (NOT 0) bs)"

definition GW_PREFIX :: bytes where "GW_PREFIX = [0x7E, 0xFF, 0x02]"
definition GW_TAIL_SIZE :: nat where "GW_TAIL_SIZE = 4"
definition GW_HDR_SIZE :: nat where "GW_HDR_SIZE = 20"
definition FCH_SIZE :: nat where "FCH_SIZE = 16"

text \<open>\<open>strip_gw\<close> on bytes and on text.\<close>

definition long_enough :: "bytes \<Rightarrow> bytes res" where
  "long_enough data = (if length data < GW_HDR_SIZE + FCH_SIZE then Inl ValueError else Inr data)"

definition strip_gw :: "bytes \<Rightarrow> bytes res" where
  "strip_gw raw = long_enough
     (if take 3 raw = GW_PREFIX
      then (let data = drop 3 raw in if data \<noteq> [] \<and> last data = 0x7E then butlast data else data)
      else raw)"

fun without_marks :: "string \<Rightarrow> string" where
  "without_marks [] = []"
| "without_marks [c] = (if is_space c then [] else [c])"
| "without_marks (c # d # cs) =
     (if c = CHR ''0'' \<and> (d = CHR ''x'' \<or> d = CHR ''X'') then without_marks cs
      else if is_space c then without_marks (d # cs)
      else c # without_marks (d # cs))"

fun find_sub :: "string \<Rightarrow> string \<Rightarrow> nat option" where
  "find_sub pat [] = (if pat = [] then Some 0 else None)"
| "find_sub pat (c # cs) = (if prefix pat (c # cs) then Some 0 else map_option Suc (find_sub pat cs))"

definition rfind_sub :: "string \<Rightarrow> string \<Rightarrow> nat option" where
  "rfind_sub pat s = map_option (\<lambda>i. length s - length pat - i) (find_sub (rev pat) (rev s))"

definition strip_gw_text :: "string \<Rightarrow> bytes res" where
  "strip_gw_text raw =
     (let text = map upper_char (without_marks raw);
          body = (case find_sub ''7EFF02'' text of
                    None \<Rightarrow> text
                  | Some i \<Rightarrow>
                      (let b = drop (i + 6) text in
                       case rfind_sub ''7E'' b of None \<Rightarrow> b | Some j \<Rightarrow> take j b))
      in case from_hex body of None \<Rightarrow> Inl ValueError | Some data \<Rightarrow> long_enough data)"

text \<open>
  \<open>split_gw_stream\<close>: the regular expression finds the first prefix from which the rest of the
  stripped text, without a line break, ends with \<open>7E\<close>.
\<close>

fun split_from :: "string \<Rightarrow> string option" where
  "split_from [] = None"
| "split_from (c # cs) =
     (if prefix ''7E FF 02 '' (c # cs)
         \<and> (let rest = drop 9 (c # cs) in 4 \<le> length rest \<and> suffix '' 7E'' rest
              \<and> CHR 0x0A \<notin> set (take (length rest - 3) rest))
      then (let rest = drop 9 (c # cs) in Some (take (length rest - 3) rest))
      else split_from cs)"

definition split_gw_stream :: "string \<Rightarrow> bytes option" where
  "split_gw_stream text =
     (case split_from (py_strip text) of None \<Rightarrow> None | Some body \<Rightarrow> from_hex (remove_char CHR '' '' body))"

datatype delimiter = Beacon_Frame | Sof_Frame | Sack_Frame | Coord_Frame | Reserved_Frame nat

definition delimiter_of :: "nat \<Rightarrow> delimiter" where
  "delimiter_of d = (if d = 0 then Beacon_Frame else if d = 1 then Sof_Frame else if d = 2 then Sack_Frame
     else if d = 3 then Coord_Frame else Reserved_Frame d)"

datatype mac_warning =
  Sack_Payload | Network_Type nat | Variable_Cut | Single_Hop | Address_Cut | Payload_Cut | Icv_Failed
| Sof_Failed py_exc | Beacon_Failed py_exc | Table_Failed | Items_Short | Item_Length_Cut
| Item_Length nat nat | Item_Failed nat | Schedule_Failed

record gw_frame =
  gw_header :: bytes
  gw_fch :: bytes
  gw_region :: bytes
  gw_tail :: bytes
  gw_delimiter :: delimiter
  gw_nid :: nat
  gw_warnings :: "mac_warning list"

definition parse_gw_frame :: "bytes \<Rightarrow> gw_frame res" where
  "parse_gw_frame data = andThen (long_enough data) (\<lambda>data.
     let fch = py_slice data GW_HDR_SIZE (GW_HDR_SIZE + FCH_SIZE);
         rest = drop (GW_HDR_SIZE + FCH_SIZE) data;
         (region, tail) = (if GW_TAIL_SIZE \<le> length rest
           then (take (length rest - GW_TAIL_SIZE) rest, drop (length rest - GW_TAIL_SIZE) rest) else ([], rest))
     in case (u8 fch 0, le24 fch 1) of
          (Some d, Some nid) \<Rightarrow>
            (let dl = delimiter_of (d AND 7) in
             Inr \<lparr>gw_header = take GW_HDR_SIZE data, gw_fch = fch, gw_region = region, gw_tail = tail,
               gw_delimiter = dl, gw_nid = nid,
               gw_warnings = (if dl = Sack_Frame \<and> region \<noteq> [] then [Sack_Payload] else [])\<rparr>)
        | _ \<Rightarrow> Inl IndexError)"


section \<open>The frame control header\<close>

record fch_header =
  fch_delimiter :: nat
  nwk_type :: nat
  fch_nid :: nat
  fch_version :: nat
  fccs :: nat
  fch_variable :: pdict
  fch_warnings :: "mac_warning list"

definition var_sof :: "bytes \<Rightarrow> pdict option" where
  "var_sof f = display
     [(''teis'', num (get_tei f 4)),
      (''teid'', num (tei_pair_hi_lo f 5 6)),
      (''lid'', num (u8 f 7)),
      (''frame_time_10us'', num (get_tei f 8)),
      (''pbcnt'', num (part f 9 4 0x0F)),
      (''symbols'', num (do { x \<leftarrow> u8 f 10; y \<leftarrow> part f 11 0 1; Some (x + y * 256) })),
      (''broadcast'', flag (part f 11 1 1)),
      (''retrans'', flag (part f 11 2 1)),
      (''encrypt'', flag (part f 11 3 1)),
      (''base_tmi'', num (part f 11 4 0x0F)),
      (''expand_tmi'', num (part f 12 0 0x0F))]"

definition var_sack :: "bytes \<Rightarrow> pdict option" where
  "var_sack f = display
     [(''recv_result'', num (part f 4 0 0x0F)),
      (''recv_state'', num (part f 4 4 0x0F)),
      (''teis'', num (get_tei f 5)),
      (''teid'', num (tei_pair_hi_lo f 6 7)),
      (''pbcnt'', num (part f 8 0 0x07)),
      (''lqi'', num (u8 f 9)),
      (''sta_load'', num (u8 f 10)),
      (''expand_frame_type'', num (part f 12 0 0x0F))]"

definition var_beacon :: "bytes \<Rightarrow> pdict option" where
  "var_beacon f = display
     [(''ntb'', num (le32 f 4)),
      (''teis'', num (get_tei f 8)),
      (''base_tmi'', num (part f 9 4 0x0F)),
      (''mcs'', num (part f 9 4 0x0F)),
      (''symbols'', num (do { x \<leftarrow> u8 f 10; y \<leftarrow> part f 11 0 1; Some (x + y * 256) })),
      (''phase'', num (part f 11 1 0x03)),
      (''pbsz_index'', num (part f 10 0 0x0F))]"

definition var_coord :: "bytes \<Rightarrow> pdict option" where
  "var_coord f = display
     [(''duration_ms'', num (le16 f 4)),
      (''offset_ms'', num (le16 f 6)),
      (''neighbor_nid'', num (le24 f 8)),
      (''rf_chnl'', num (u8 f 11)),
      (''rf_option'', num (part f 12 0 0x03))]"

definition fch_vars :: "nat \<Rightarrow> bytes \<Rightarrow> pdict option" where
  "fch_vars d f = (if d = 1 then var_sof f else if d = 2 then var_sack f else if d = 0 then var_beacon f
     else if d = 3 then var_coord f else Some [])"

definition parse_fch :: "bytes \<Rightarrow> fch_header res" where
  "parse_fch f =
     (if length f < 16 then Inl ValueError
      else case (part f 0 0 0x07, part f 0 3 0x1F, le24 f 1, part f 12 4 0x0F, le24 f 13) of
             (Some d, Some ty, Some nid, Some ver, Some cs) \<Rightarrow>
               (let w = (if ty \<noteq> 0 then [Network_Type ty] else [])
                in Inr \<lparr>fch_delimiter = d, nwk_type = ty, fch_nid = nid, fch_version = ver, fccs = cs,
                     fch_variable = (case fch_vars d f of Some v \<Rightarrow> v | None \<Rightarrow> []),
                     fch_warnings = w @ (if fch_vars d f = None then [Variable_Cut] else [])\<rparr>)
           | _ \<Rightarrow> Inl IndexError)"

section \<open>The MAC header and its message\<close>

record mac_header =
  mac_version :: nat
  teis :: nat
  teid :: nat
  send_type :: nat
  send_times :: nat
  msdu_sqn :: nat
  msdu_type :: nat
  msdu_len :: nat
  restart_times :: nat
  proxy_path_flag :: bool
  hops :: nat
  remain_hops :: nat
  broadcast_dir :: nat
  path_repair :: bool
  macaddr_flag :: bool
  net_form_no :: nat
  os_mac :: bytes
  od_mac :: bytes
  header_len :: nat
  mac_warnings :: "mac_warning list"

text \<open>All reads are below the sixteen bytes of the guard.\<close>

definition rd :: "bytes \<Rightarrow> nat \<Rightarrow> nat" where
  "rd b i = unat (b ! i)"

definition parse_mac_header :: "bytes \<Rightarrow> mac_header res" where
  "parse_mac_header h =
     (if length h < 16 then Inl ValueError
      else let address = (drop_bit 3 (rd h 11) AND 1 \<noteq> 0);
               version = rd h 0 AND 0x0F
           in Inr \<lparr>mac_version = version,
                teis = drop_bit 4 (rd h 0) OR push_bit 4 (rd h 1),
                teid = rd h 2 OR push_bit 8 (rd h 3 AND 0x0F),
                send_type = drop_bit 4 (rd h 3) AND 0x0F,
                send_times = rd h 4 AND 0x1F,
                msdu_sqn = pair16 (h ! 5) (h ! 6),
                msdu_type = rd h 7,
                msdu_len = push_bit 8 (rd h 9 AND 0x07) OR rd h 8,
                restart_times = drop_bit 3 (rd h 9) AND 0x0F,
                proxy_path_flag = (rd h 9 AND 0x80 \<noteq> 0),
                hops = rd h 10 AND 0x0F,
                remain_hops = drop_bit 4 (rd h 10) AND 0x0F,
                broadcast_dir = rd h 11 AND 0x03,
                path_repair = (drop_bit 2 (rd h 11) AND 1 \<noteq> 0),
                macaddr_flag = address,
                net_form_no = rd h 13,
                os_mac = (if address \<and> 28 \<le> length h then py_slice h 16 22 else []),
                od_mac = (if address \<and> 28 \<le> length h then py_slice h 22 28 else []),
                header_len = (if rd h 11 AND 0x08 \<noteq> 0 then 28 else 16),
                mac_warnings = (if version = 1 then [Single_Hop] else [])
                  @ (if address \<and> length h < 28 then [Address_Cut] else [])\<rparr>)"

record msdu =
  msdu_data :: bytes
  msdu_truncated :: bool
  icv_ok :: "bool option"
  msdu_icv :: bytes

definition verify_icv :: "bytes \<Rightarrow> bytes \<Rightarrow> bool" where
  "verify_icv content icv = (if length icv < 4 then False else le32 (take 4 icv) 0 = Some (unat (crc32 content)))"

definition verify_bpcs :: "bytes \<Rightarrow> bytes \<Rightarrow> bool" where
  "verify_bpcs content bpcs = (if length bpcs < 4 then False else le32 (take 4 bpcs) 0 = Some (unat (crc32 content)))"

definition extract_msdu :: "bytes \<Rightarrow> mac_header \<Rightarrow> msdu" where
  "extract_msdu region h =
     (let start = header_len h; finish = start + msdu_len h; available = length region in
      if finish + 4 \<le> available then
        (let content = py_slice region start finish; icv = py_slice region finish (finish + 4) in
         \<lparr>msdu_data = content, msdu_truncated = False, icv_ok = Some (verify_icv content icv), msdu_icv = icv\<rparr>)
      else if finish \<le> available then
        \<lparr>msdu_data = py_slice region start finish, msdu_truncated = False, icv_ok = None, msdu_icv = []\<rparr>
      else \<lparr>msdu_data = py_slice region start available, msdu_truncated = True, icv_ok = None, msdu_icv = []\<rparr>)"

section \<open>The check sequence\<close>

lemma crc32_xor_left: "(a::32 word) XOR b = a XOR c \<longleftrightarrow> b = c"
proof
  assume "a XOR b = a XOR c"
  then have "a XOR (a XOR b) = a XOR (a XOR c)" by simp
  then show "b = c" by (simp add: xor.assoc [symmetric])
qed simp

lemma crc32_xor_right: "(b::32 word) XOR a = c XOR a \<longleftrightarrow> b = c"
  using crc32_xor_left [of a b c] by (simp add: xor.commute)

lemma crc32_shift_bit31: "bit (crc32_shift c) 31 = bit c 0"
  using bit_imp_le_length [of c 32] by (auto simp: crc32_shift_def bit_simps)

lemma crc32_shift_inj:
  assumes eq: "crc32_shift c = crc32_shift d"
  shows "c = d"
proof -
  have low: "bit c 0 = bit d 0"
    using arg_cong [OF eq, of "\<lambda>x. bit x 31"] by (simp only: crc32_shift_bit31)
  have high: "drop_bit 1 c = drop_bit 1 d"
    using eq low by (simp add: crc32_shift_def crc32_xor_right split: if_splits)
  show ?thesis
  proof (rule bit_word_eqI)
    fix n
    assume "n < LENGTH(32)"
    show "bit c n = bit d n"
    proof (cases n)
      case (Suc m)
      then show ?thesis using arg_cong [OF high, of "\<lambda>x. bit x m"] by (simp add: bit_simps)
    qed (use low in simp)
  qed
qed

lemma crc32_shifts_inj: "(crc32_shift ^^ n) c = (crc32_shift ^^ n) d \<Longrightarrow> c = d"
  by (induction n) (auto dest: crc32_shift_inj)

definition crc32_step :: "32 word \<Rightarrow> byte \<Rightarrow> 32 word" where
  "crc32_step c b = (crc32_shift ^^ 8) (c XOR ucast b)"

lemma crc32_step_inj: "crc32_step c b = crc32_step d b \<longleftrightarrow> c = d"
  by (auto simp: crc32_step_def crc32_xor_right dest!: crc32_shifts_inj)

lemma crc32_step_byte: "crc32_step c x = crc32_step c y \<longleftrightarrow> x = y"
proof
  assume "crc32_step c x = crc32_step c y"
  then have "(ucast x :: 32 word) = ucast y"
    by (auto simp: crc32_step_def crc32_xor_left dest!: crc32_shifts_inj)
  then have "unat (ucast x :: 32 word) = unat (ucast y :: 32 word)" by simp
  then have "unat x = unat y"
    using unat_byte_less [of x] unat_byte_less [of y] by (simp add: unsigned_ucast_eq take_bit_nat_eq_self)
  then show "x = y" by (rule unsigned_word_eqI)
qed simp

lemma crc32_fold_inj: "foldl crc32_step c bs = foldl crc32_step d bs \<Longrightarrow> c = d"
  by (induction bs arbitrary: c d) (auto simp: crc32_step_inj dest: iffD1 [OF crc32_step_inj])

lemma crc32_eq: "crc32 bs = NOT (foldl crc32_step (NOT 0) bs)"
  by (simp add: crc32_def crc32_step_def [abs_def])

lemma crc32_one_byte:
  "crc32 (xs @ x # ys) = crc32 (xs @ y # ys) \<longleftrightarrow> x = y"
  by (auto simp: crc32_eq crc32_step_byte dest!: crc32_fold_inj)

section \<open>A sender's side\<close>

text \<open>
  The layout of a link frame's payload as the documentation of the source gives it: the header's
  bit fields, the message, its check sequence, padding to the block.
\<close>

definition le32_bytes :: "nat \<Rightarrow> bytes" where
  "le32_bytes n = map (\<lambda>i. of_nat (n div 256 ^ i)) [0..<4]"

definition header_codes :: "mac_header \<Rightarrow> nat list" where
  "header_codes h =
     [mac_version h + 16 * (teis h mod 16), teis h div 16, teid h mod 256,
      teid h div 256 + 16 * send_type h, send_times h,
      msdu_sqn h mod 256, msdu_sqn h div 256, msdu_type h, msdu_len h mod 256,
      msdu_len h div 256 + 8 * restart_times h + 128 * of_bool (proxy_path_flag h),
      hops h + 16 * remain_hops h,
      broadcast_dir h + 4 * of_bool (path_repair h) + 8 * of_bool (macaddr_flag h),
      0, net_form_no h, 0, 0]"

definition header_bytes :: "mac_header \<Rightarrow> bytes" where
  "header_bytes h = map of_nat (header_codes h) @ os_mac h @ od_mac h"

definition region_bytes :: "mac_header \<Rightarrow> bytes \<Rightarrow> bytes \<Rightarrow> bytes" where
  "region_bytes h message padding =
     header_bytes h @ message @ le32_bytes (unat (crc32 message)) @ padding"

definition sendable :: "mac_header \<Rightarrow> bytes \<Rightarrow> bool" where
  "sendable h message \<longleftrightarrow>
     mac_version h < 16 \<and> teis h < 4096 \<and> teid h < 4096 \<and> send_type h < 16 \<and> send_times h < 32
     \<and> msdu_sqn h < 65536 \<and> msdu_type h < 256 \<and> msdu_len h < 2048 \<and> restart_times h < 16
     \<and> hops h < 16 \<and> remain_hops h < 16 \<and> broadcast_dir h < 4 \<and> net_form_no h < 256
     \<and> length (os_mac h) = (if macaddr_flag h then 6 else 0)
     \<and> length (od_mac h) = (if macaddr_flag h then 6 else 0)
     \<and> header_len h = (if macaddr_flag h then 28 else 16)
     \<and> mac_warnings h = (if mac_version h = 1 then [Single_Hop] else [])
     \<and> msdu_len h = length message"

lemma or_bytes:
  assumes "(x::nat) < 256" "y < 256" "z < 256"
  shows "x OR push_bit 8 y = x + 256 * y"
    "x OR push_bit 8 y OR push_bit 16 z = x + 256 * y + 65536 * z"
    "x OR push_bit 8 y OR push_bit 16 z OR push_bit 24 w = x + 256 * y + 65536 * z + 16777216 * w"
proof -
  show a: "x OR push_bit 8 y = x + 256 * y" using or_push_bit_add [of x 8 y] assms by simp
  have b: "(x OR push_bit 8 y) OR push_bit 16 z = x + 256 * y + 65536 * z"
    using or_push_bit_add [of "x + 256 * y" 16 z] assms by (simp add: a)
  have "((x OR push_bit 8 y) OR push_bit 16 z) OR push_bit 24 w = x + 256 * y + 65536 * z + 16777216 * w"
    using or_push_bit_add [of "x + 256 * y + 65536 * z" 24 w] assms by (simp add: b)
  then show "x OR push_bit 8 y OR push_bit 16 z OR push_bit 24 w = x + 256 * y + 65536 * z + 16777216 * w"
    by (simp only: or.assoc)
  show "x OR push_bit 8 y OR push_bit 16 z = x + 256 * y + 65536 * z"
    using b by (simp only: or.assoc)
qed

lemma u8_eq: "u8 b i = (if i < length b then Some (unat (b ! i)) else None)"
  by (simp add: u8_def py_at_def)

lemma or_bytes_word:
  "unat (x::byte) OR push_bit 8 (unat (y::byte)) = unat x + 256 * unat y"
  "unat (x::byte) OR push_bit 8 (unat (y::byte)) OR push_bit 16 (unat (z::byte)) = unat x + 256 * unat y + 65536 * unat z"
  "unat (x::byte) OR push_bit 8 (unat (y::byte)) OR push_bit 16 (unat (z::byte)) OR push_bit 24 (unat (w::byte))
     = unat x + 256 * unat y + 65536 * unat z + 16777216 * unat w"
  by (simp_all only: or_bytes [of "unat x" "unat y" "unat z"] unat_byte_less)

lemma le24_eq: "le24 b i = (if i + 2 < length b
    then Some (unat (b ! i) + 256 * unat (b ! (i + 1)) + 65536 * unat (b ! (i + 2))) else None)"
  by (auto simp: le24_def u8_eq or_bytes_word)

lemma le32_eq: "le32 b i = (if i + 3 < length b
    then Some (unat (b ! i) + 256 * unat (b ! (i + 1)) + 65536 * unat (b ! (i + 2)) + 16777216 * unat (b ! (i + 3)))
    else None)"
  by (auto simp: le32_def u8_eq or_bytes_word)

lemma div_mod_split: "(n::nat) mod (a * b) = n mod a + a * (n div a mod b)"
  by (simp add: mod_mult2_eq)

lemma le32_bytes_list: "le32_bytes n = [of_nat n, of_nat (n div 256), of_nat (n div 65536), of_nat (n div 16777216)]"
  by (simp add: le32_bytes_def upt_rec numeral_3_eq_3 numeral_2_eq_2)

lemma le32_bytes_length [simp]: "length (le32_bytes n) = 4"
  by (simp add: le32_bytes_list)

lemma le32_le32_bytes:
  assumes "n < 4294967296"
  shows "le32 (le32_bytes n) 0 = Some n"
proof -
  have "n mod 256 + 256 * (n div 256 mod 256) + 65536 * (n div 65536 mod 256) + 16777216 * (n div 16777216 mod 256) = n"
    using assms div_mod_split [of n 256 256] div_mod_split [of n 65536 256] div_mod_split [of n 16777216 256]
    by simp
  moreover have "le32 (le32_bytes n) 0 = Some (n mod 256 + 256 * (n div 256 mod 256)
      + 65536 * (n div 65536 mod 256) + 16777216 * (n div 16777216 mod 256))"
    by (simp add: le32_eq le32_bytes_list unat_of_nat_byte)
  ultimately show ?thesis by (simp only:)
qed

lemma crc32_check: "le32 (le32_bytes (unat (crc32 c))) 0 = Some (unat (crc32 c))"
  by (rule le32_le32_bytes) (use unsigned_less [of "crc32 c", where ?'a = nat] in simp)

lemma icv_of_sender: "verify_icv c (le32_bytes (unat (crc32 c)))"
  by (simp add: verify_icv_def crc32_check)

lemma icv_detects:
  assumes "verify_icv c icv" "crc32 d \<noteq> crc32 c"
  shows "\<not> verify_icv d icv"
  using assms by (auto simp: verify_icv_def dest: unsigned_word_eqI split: if_splits)

lemma header_bytes_length: "sendable h m \<Longrightarrow> length (header_bytes h) = header_len h"
  by (simp add: sendable_def header_bytes_def header_codes_def)

text \<open>Fields packed into one byte.\<close>

lemma or_nibble: "(a::nat) < 16 \<Longrightarrow> a OR push_bit 4 b = a + 16 * b"
  using or_push_bit_add [of a 4 b] by simp

lemma push_or: "(b::nat) < 256 \<Longrightarrow> push_bit 8 a OR b = b + 256 * a"
  using or_push_bit_add [of b 8 a] by (simp add: or.commute)

lemma sent_codes:
  assumes "sendable h m"
  shows "\<forall>n \<in> set (header_codes h). n < 256"
proof -
  have "teis h div 16 < 256" "teid h div 256 < 16" "msdu_sqn h div 256 < 256" "msdu_len h div 256 < 8"
    using assms by (simp_all add: sendable_def less_mult_imp_div_less)
  moreover have "teis h mod 16 < 16" "teid h mod 256 < 256" "msdu_sqn h mod 256 < 256" "msdu_len h mod 256 < 256"
    by simp_all
  ultimately show ?thesis using assms
    unfolding header_codes_def sendable_def of_bool_def by (simp del: mod_less_divisor)
qed

lemma sent_code:
  assumes "sendable h m" "i < 16"
  shows "rd (region_bytes h m p) i = header_codes h ! i"
proof -
  have len: "length (header_codes h) = 16" by (simp add: header_codes_def)
  have "region_bytes h m p ! i = of_nat (header_codes h ! i)"
    using assms(2) len by (simp add: region_bytes_def header_bytes_def nth_append)
  moreover have "header_codes h ! i < 256"
    using sent_codes [OF assms(1)] assms(2) len by (simp add: all_set_conv_all_nth)
  ultimately show ?thesis by (simp add: rd_def codec_simps)
qed

lemma sent_bytes:
  fixes p :: bytes
  assumes "sendable h m"
  defines "r \<equiv> region_bytes h m p"
  shows "rd r 0 = mac_version h + 16 * (teis h mod 16)" "rd r 1 = teis h div 16"
    "rd r 2 = teid h mod 256" "rd r 3 = teid h div 256 + 16 * send_type h" "rd r 4 = send_times h"
    "pair16 (r ! 5) (r ! 6) = msdu_sqn h" "rd r 7 = msdu_type h" "rd r 8 = msdu_len h mod 256"
    "rd r 9 = msdu_len h div 256 + 8 * restart_times h + 128 * of_bool (proxy_path_flag h)"
    "rd r 10 = hops h + 16 * remain_hops h"
    "rd r 11 = broadcast_dir h + 4 * of_bool (path_repair h) + 8 * of_bool (macaddr_flag h)"
    "rd r 13 = net_form_no h"
proof -
  note c = sent_code [OF assms(1)] header_codes_def
  have "rd r 5 = msdu_sqn h mod 256" "rd r 6 = msdu_sqn h div 256" by (simp_all add: r_def c)
  then show "pair16 (r ! 5) (r ! 6) = msdu_sqn h" by (simp add: pair16_eq rd_def [symmetric])
qed (simp_all add: r_def sent_code [OF assms(1)] header_codes_def)

lemma flag_bit: "(x::nat) AND 128 \<noteq> 0 \<longleftrightarrow> x div 128 mod 2 = 1" "(x::nat) AND 8 \<noteq> 0 \<longleftrightarrow> x div 8 mod 2 = 1"
proof -
  have "(x AND 2 ^ n \<noteq> 0) = odd (x div 2 ^ n)" for n
    by (simp add: and_exp_eq_0_iff_not_bit bit_iff_odd)
  from this [of 7] this [of 3] show "(x::nat) AND 128 \<noteq> 0 \<longleftrightarrow> x div 128 mod 2 = 1" "(x::nat) AND 8 \<noteq> 0 \<longleftrightarrow> x div 8 mod 2 = 1"
    by (simp_all add: odd_iff_mod_2_eq_one)
qed

lemma low_bits:
  "(a::nat) < 16 \<Longrightarrow> (a + 16 * b) mod 16 = a" "(a::nat) < 16 \<Longrightarrow> (a + 16 * b) div 16 = b"
  by simp_all

lemma direction_bits:
  assumes "(a::nat) < 4"
  shows "(a + 4 * of_bool x + 8 * of_bool y) mod 4 = a"
    "(a + 4 * of_bool x + 8 * of_bool y) div 4 mod 2 = of_bool x"
    "(a + 4 * of_bool x + 8 * of_bool y) div 8 mod 2 = of_bool y"
proof -
  have "a \<in> {0, 1, 2, 3}" using assms by auto
  then show "(a + 4 * of_bool x + 8 * of_bool y) mod 4 = a"
    "(a + 4 * of_bool x + 8 * of_bool y) div 4 mod 2 = of_bool x"
    "(a + 4 * of_bool x + 8 * of_bool y) div 8 mod 2 = of_bool y"
    by (cases x; cases y; auto)+
qed

lemma length_bits:
  fixes x :: bool
  assumes "(a::nat) < 8" "b < 16"
  defines "n \<equiv> a + 8 * b + 128 * of_bool x"
  shows "n mod 8 = a" "n div 8 mod 16 = b" "n div 128 mod 2 = of_bool x"
proof -
  have n: "n = a + 8 * (b + 16 * of_bool x)" by (simp add: n_def)
  show "n mod 8 = a" unfolding n using assms(1) by (simp only: mod_mult_self2 mod_less)
  have "n div 8 = b + 16 * of_bool x" unfolding n using assms(1) by (subst div_mult_self2) simp_all
  then show "n div 8 mod 16 = b" using assms(2) by simp
  have "(a + 8 * b) div 128 = 0" using assms by simp
  then show "n div 128 mod 2 = of_bool x" by (simp add: n_def)
qed

lemmas header_field_arith = low_bits direction_bits length_bits

lemma parse_sent_header:
  fixes p :: bytes
  assumes "sendable h m"
  shows "parse_mac_header (region_bytes h m p) = Inr h"
proof -
  note s = sent_bytes [OF assms, of p]
  let ?r = "region_bytes h m p"
  have len: "length ?r = header_len h + length m + 4 + length p"
    using header_bytes_length [OF assms] by (simp add: region_bytes_def)
  have w: "mac_version h < 16" "teis h < 4096" "teid h < 4096" "send_type h < 16" "send_times h < 32"
     "msdu_len h < 2048" "restart_times h < 16" "hops h < 16" "remain_hops h < 16" "broadcast_dir h < 4"
    using assms by (simp_all add: sendable_def)
  have m: "os_mac h = (if macaddr_flag h then py_slice ?r 16 22 else [])"
    "od_mac h = (if macaddr_flag h then py_slice ?r 22 28 else [])"
    using assms by (auto simp: sendable_def region_bytes_def header_bytes_def header_codes_def py_slice_def)
  have f: "mac_warnings h = (if mac_version h = 1 then [Single_Hop] else [])"
    "header_len h = (if macaddr_flag h then 28 else 16)"
    using assms by (simp_all add: sendable_def)
  have guards: "(length ?r < 16) = False" "(macaddr_flag h \<and> 28 \<le> length ?r) = macaddr_flag h"
    "(macaddr_flag h \<and> length ?r < 28) = False"
    using len f(2) by auto
  have fields: "rd ?r 0 AND 0x0F = mac_version h"
    "drop_bit 4 (rd ?r 0) OR push_bit 4 (rd ?r 1) = teis h"
    "rd ?r 2 OR push_bit 8 (rd ?r 3 AND 0x0F) = teid h"
    "drop_bit 4 (rd ?r 3) AND 0x0F = send_type h"
    "rd ?r 4 AND 0x1F = send_times h"
    "push_bit 8 (rd ?r 9 AND 0x07) OR rd ?r 8 = msdu_len h"
    "drop_bit 3 (rd ?r 9) AND 0x0F = restart_times h"
    "rd ?r 10 AND 0x0F = hops h" "drop_bit 4 (rd ?r 10) AND 0x0F = remain_hops h"
    "rd ?r 11 AND 0x03 = broadcast_dir h"
    using w or_push_bit_add [of "teid h mod 256" 8 "teid h div 256"]
      push_or [of "msdu_len h mod 256" "msdu_len h div 256"]
    by (simp_all add: s s(2) [unfolded One_nat_def] codec_simps header_field_arith or_nibble div_less_iff_less_mult)
  have flags: "(rd ?r 9 AND 0x80 \<noteq> 0) = proxy_path_flag h"
    "(drop_bit 2 (rd ?r 11) AND 1 \<noteq> 0) = path_repair h"
    "(drop_bit 3 (rd ?r 11) AND 1 \<noteq> 0) = macaddr_flag h"
    "(rd ?r 11 AND 0x08 \<noteq> 0) = macaddr_flag h"
    using w unfolding flag_bit s codec_simps
    by (simp_all add: header_field_arith div_less_iff_less_mult)
  show ?thesis
    unfolding parse_mac_header_def Let_def fields flags guards if_False
    by (rule arg_cong [of _ _ Inr], rule mac_header.equality) (simp_all add: s f m [symmetric])
qed

lemma extract_sent:
  fixes p :: bytes
  assumes "header_len h = length (header_bytes h)" "msdu_len h = length m" "length icv = 4"
  shows "extract_msdu (header_bytes h @ m @ icv @ p) h
    = \<lparr>msdu_data = m, msdu_truncated = False, icv_ok = Some (verify_icv m icv), msdu_icv = icv\<rparr>"
  using assms by (simp add: extract_msdu_def Let_def py_slice_def)

lemma crc32_step_simps:
  "crc32_step c b = crc32_shift (crc32_shift (crc32_shift (crc32_shift
     (crc32_shift (crc32_shift (crc32_shift (crc32_shift (c XOR ucast b))))))))"
  by (simp add: crc32_step_def eval_nat_numeral)

lemma crc32_check_value: "crc32 [0x61] = 0xE8B7BE43"
  by (simp add: crc32_eq crc32_step_simps crc32_shift_def)

text \<open>C18. What a sender lays out is what is read: for every header whose fields fit their
bits, every message of the announced length and every padding, the header comes back field for
field and the message comes back whole, with its check sequence verified.\<close>

theorem mac_frame_roundtrip:
  assumes "sendable h m"
  shows "parse_mac_header (region_bytes h m p) = Inr h \<and>
    extract_msdu (region_bytes h m p) h
      = \<lparr>msdu_data = m, msdu_truncated = False, icv_ok = Some True, msdu_icv = le32_bytes (unat (crc32 m))\<rparr>"
  using parse_sent_header [OF assms] extract_sent [of h m] header_bytes_length [OF assms] assms
  by (simp add: region_bytes_def icv_of_sender sendable_def)

definition sample_header :: mac_header where
  "sample_header = \<lparr>mac_version = 0, teis = 0x235, teid = 0xF01, send_type = 3, send_times = 9,
     msdu_sqn = 0x1234, msdu_type = 48, msdu_len = 3, restart_times = 5, proxy_path_flag = True, hops = 15,
     remain_hops = 7, broadcast_dir = 2, path_repair = True, macaddr_flag = True, net_form_no = 200,
     os_mac = [1, 2, 3, 4, 5, 6], od_mac = [7, 8, 9, 10, 11, 12], header_len = 28, mac_warnings = []\<rparr>"

lemma mac_frame_roundtrip_witness:
  "parse_mac_header (region_bytes sample_header [0xAA, 0xBB, 0xCC] [0, 0]) = Inr sample_header"
  using mac_frame_roundtrip [of sample_header "[0xAA, 0xBB, 0xCC]" "[0, 0]"]
  by (simp add: sendable_def sample_header_def)

text \<open>A message of which one byte arrives changed fails its check: whatever the message
and the position, the frame is reported with a check sequence that does not match.\<close>

theorem icv_finds_byte_error:
  assumes "sendable h (xs @ x # ys)" "y \<noteq> x"
  shows "icv_ok (extract_msdu (header_bytes h @ (xs @ y # ys) @ le32_bytes (unat (crc32 (xs @ x # ys))) @ p) h)
    = Some False"
proof -
  have "\<not> verify_icv (xs @ y # ys) (le32_bytes (unat (crc32 (xs @ x # ys))))"
    by (rule icv_detects [OF icv_of_sender]) (use assms(2) crc32_one_byte in auto)
  then show ?thesis
    using extract_sent [of h "xs @ y # ys"] header_bytes_length [OF assms(1)] assms(1)
    by (simp add: sendable_def)
qed

lemma icv_finds_byte_error_witness:
  "icv_ok (extract_msdu (header_bytes sample_header @ [0xAA, 0xB9, 0xCC] @
     le32_bytes (unat (crc32 [0xAA, 0xBB, 0xCC])) @ [0]) sample_header) = Some False"
  using icv_finds_byte_error [of sample_header "[0xAA]" "0xBB" "[0xCC]" "0xB9" "[0]"]
  by (simp add: sendable_def sample_header_def)

end
