(* ===== verification/Mac_Beacon.thy ===== *)
theory Mac_Beacon
  imports Mac_Frame
begin

text \<open>
  Beacons of the dual-mode link layer, \<open>adapter_dualmac/beacon.py\<close>: the header, the entries with
  their tag and length, the check sequence and the time slots rebuilt from the slot entry.

  A display word (\<open>role_name\<close>, \<open>beacon_type\<close>) is given by the English term for it.
\<close>

unbundle bit_operations_syntax

section \<open>The entries\<close>

record beacon_item =
  item_id :: nat
  item_raw :: bytes
  item_fields :: pdict

definition hex_part :: "bytes \<Rightarrow> nat \<Rightarrow> nat \<Rightarrow> pv option" where
  "hex_part c i j = Some (PStr (hex_upper (py_slice c i j)))"

definition tei_high :: "bytes \<Rightarrow> nat option" where
  "tei_high c = do { x \<leftarrow> u8 c 1; y \<leftarrow> u8 c 2; Some ((drop_bit 4 x AND 0x0F) OR push_bit 4 y) }"

definition role_name :: "nat \<Rightarrow> string" where
  "role_name r = (if r = 0 then ''unknown'' else if r = 1 then ''STA'' else if r = 2 then ''PCO''
     else if r = 4 then ''CCO'' else ''reserved('' @ show_nat r @ '')'')"

definition item47 :: "bytes \<Rightarrow> pdict option" where
  "item47 c = display
     [(''sta_tei'', num (get_tei c 0)),
      (''proxy_tei'', num (tei_high c)),
      (''path_lowest_suc'', num (u8 c 3)),
      (''sta_mac'', hex_part c 4 10),
      (''role'', num (part c 10 0 0x0F)),
      (''role_name'', map_option (\<lambda>r. PStr (role_name r)) (part c 10 0 0x0F)),
      (''layer'', num (part c 10 4 0x0F)),
      (''pco_lqi'', num (u8 c 11)),
      (''sta_phase'', num (part c 12 0 0x03)),
      (''rf_hop_cnt'', num (part c 12 2 0x0F))]"

definition item48 :: "bytes \<Rightarrow> pdict option" where
  "item48 c = display
     [(''router_period_s'', num (le16 c 0)),
      (''router_evaluate_remain_s'', num (le16 c 2)),
      (''pco_discover_list_period_s'', num (le16 c 4)),
      (''sta_discover_list_period_s'', num (le16 c 6))]"

definition item57 :: "bytes \<Rightarrow> pdict option" where
  "item57 c = display
     [(''sta_tei'', num (get_tei c 0)),
      (''proxy_tei'', num (tei_high c)),
      (''role'', num (part c 3 0 0x0F)),
      (''layer'', num (part c 3 4 0x0F)),
      (''sta_mac'', hex_part c 4 10),
      (''rf_hop_cnt'', num (part c 10 0 0x0F)),
      (''csma_start_ntb'', num (le32 c 11)),
      (''csma_length_ms'', num (le16 c 15))]"

definition BEACON_PERIOD_CAP_MS :: nat where "BEACON_PERIOD_CAP_MS = 15000"

record slot_head =
  no_central_slots :: nat
  central_slots :: nat
  csma_phase_cnt :: nat
  proxy_slots :: nat
  beacon_slot_length_ms :: nat
  csma_cut_up_length_10ms :: nat
  bind_csma_phase_cnt :: nat
  bind_csma_lid :: nat
  tdma_slot_length_ms :: nat
  tdma_lid :: nat
  originate_ntb :: nat
  beacon_period_ms :: nat
  rf_beacon_slot_length_ms :: nat

text \<open>The last byte read is the twentieth: with that many bytes every read succeeds.\<close>

definition item50_head :: "bytes \<Rightarrow> slot_head option" where
  "item50_head c =
     do { ntb \<leftarrow> le32 c 10;
          period \<leftarrow> le32 c 14;
          rf \<leftarrow> u8 c 18;
          rf_high \<leftarrow> u8 c 19;
          Some \<lparr>no_central_slots = rd c 0,
            central_slots = rd c 1 AND 0x0F,
            csma_phase_cnt = drop_bit 4 (rd c 1) AND 0x03,
            proxy_slots = rd c 3,
            beacon_slot_length_ms = rd c 4,
            csma_cut_up_length_10ms = rd c 5,
            bind_csma_phase_cnt = rd c 6,
            bind_csma_lid = rd c 7,
            tdma_slot_length_ms = rd c 8,
            tdma_lid = rd c 9,
            originate_ntb = ntb,
            beacon_period_ms = min period BEACON_PERIOD_CAP_MS,
            rf_beacon_slot_length_ms = rf OR push_bit 8 (rf_high AND 0x03)\<rparr> }"

definition head_fields :: "slot_head \<Rightarrow> pdict" where
  "head_fields h =
     map (\<lambda>(k, n). (k, PInt (int n)))
       [(''no_central_slots'', no_central_slots h), (''central_slots'', central_slots h),
        (''csma_phase_cnt'', csma_phase_cnt h), (''proxy_slots'', proxy_slots h),
        (''beacon_slot_length_ms'', beacon_slot_length_ms h),
        (''csma_cut_up_length_10ms'', csma_cut_up_length_10ms h),
        (''bind_csma_phase_cnt'', bind_csma_phase_cnt h), (''bind_csma_lid'', bind_csma_lid h),
        (''tdma_slot_length_ms'', tdma_slot_length_ms h), (''tdma_lid'', tdma_lid h),
        (''originate_ntb'', originate_ntb h), (''beacon_period_ms'', beacon_period_ms h),
        (''rf_beacon_slot_length_ms'', rf_beacon_slot_length_ms h)]"

definition parse_item_fields :: "nat \<Rightarrow> bytes \<Rightarrow> pdict option" where
  "parse_item_fields i c =
     (if i = 0x00 then item47 c
      else if i = 0x01 then item48 c
      else if i = 0x02 then display [(''band'', num (u8 c 0)), (''cutover_remain_ms'', num (le32 c 1))]
      else if i = 0x03 then display
        [(''discover_list_period_s'', num (u8 c 0)), (''recv_rate_ageing_cycle'', num (u8 c 1))]
      else if i = 0x04 then display
        [(''object_chnl'', num (u8 c 0)), (''cutover_remain_ms'', num (le32 c 1)),
         (''object_option'', num (part c 5 0 0x03))]
      else if i = 0x05 then item57 c
      else if i = 0x06 then display [(''calendar_secs'', num (le32 c 0)), (''calendar_ntb'', num (le32 c 4))]
      else if i = 0xC0 then map_option head_fields (item50_head c)
      else Some [])"

text \<open>The loop over the entries: those read, and the warnings.\<close>

fun parse_items :: "nat \<Rightarrow> bytes \<Rightarrow> nat \<Rightarrow> beacon_item list \<times> mac_warning list" where
  "parse_items 0 content off = ([], [])"
| "parse_items (Suc n) content off =
     (let total = length content in
      if total \<le> off then ([], [Items_Short])
      else let i = rd content off; size = (if 0xC0 \<le> i then 2 else 1) in
      if total \<le> off + size then ([], [Item_Length_Cut])
      else let len = (if size = 2 then pair16 (content ! (off + 1)) (content ! (off + 2)) else rd content (off + 1)) in
      if len < 1 + size \<or> total < off + len then ([], [Item_Length i len])
      else let body = py_slice content (off + 1 + size) (off + len);
               fs = parse_item_fields i body;
               (items, ws) = parse_items n content (off + len)
           in (\<lparr>item_id = i, item_raw = body, item_fields = (case fs of Some d \<Rightarrow> d | None \<Rightarrow> [])\<rparr> # items,
               (if fs = None then [Item_Failed i] else []) @ ws))"

section \<open>The time slots\<close>

record schedule =
  slot_header :: slot_head
  no_central_list :: "(nat \<times> string \<times> nat) list"
  csma_slots :: "(nat \<times> nat) list"
  bind_csma_slots :: "(nat \<times> nat) list"
  beacon_span :: "nat \<times> nat"
  tdma_span :: "nat \<times> nat"
  csma_span :: "nat \<times> nat"
  bind_csma_span :: "nat \<times> nat"

fun all_some :: "'a option list \<Rightarrow> 'a list option" where
  "all_some [] = Some []"
| "all_some (x # xs) = do { y \<leftarrow> x; ys \<leftarrow> all_some xs; Some (y # ys) }"

text \<open>\<open>_item50_no_central\<close>: TEI, kind of beacon and radio mark of each slot.\<close>

definition item50_no_central :: "bytes \<Rightarrow> nat \<Rightarrow> (nat \<times> string \<times> nat) list option" where
  "item50_no_central c count = all_some (map (\<lambda>i.
     let b = py_slice c (20 + i * 2) (22 + i * 2) in
     do { tei \<leftarrow> get_tei b 0;
          kind \<leftarrow> part b 1 4 1;
          rf \<leftarrow> part b 1 5 0x07;
          Some (tei, if kind \<noteq> 0 then ''proxy'' else ''discover'', rf) }) [0..<count])"

definition phase_slots :: "bytes \<Rightarrow> nat \<Rightarrow> nat \<Rightarrow> (nat \<times> nat) list option" where
  "phase_slots c base count = all_some (map (\<lambda>i.
     let b = py_slice c (base + i * 4) (base + i * 4 + 4) in
     do { len \<leftarrow> le24 b 0;
          ph \<leftarrow> part b 3 0 0x03;
          Some (len, ph) }) [0..<count])"

definition rebuild_schedule :: "bytes \<Rightarrow> nat \<Rightarrow> schedule option" where
  "rebuild_schedule c bcn =
     do { h \<leftarrow> item50_head c;
          slots \<leftarrow> phase_slots c (20 + no_central_slots h * 2) (csma_phase_cnt h);
          bound \<leftarrow> phase_slots c (20 + no_central_slots h * 2 + csma_phase_cnt h * 4) (bind_csma_phase_cnt h);
          no_central \<leftarrow> (if bcn \<noteq> 0 then item50_no_central c (no_central_slots h) else Some []);
          let beacon_t = (no_central_slots h + central_slots h) * beacon_slot_length_ms h;
          let tdma_t = tdma_slot_length_ms h * (if bcn = 2 then 3 else 1);
          let csma_start = beacon_t + tdma_t;
          let csma_total = sum_list (map fst slots) - 2;
          let bind_start = csma_start + csma_total;
          let bind_total = sum_list (map fst bound);
          Some \<lparr>slot_header = h, no_central_list = no_central, csma_slots = slots, bind_csma_slots = bound,
            beacon_span = (0, beacon_t),
            tdma_span = (beacon_t, csma_start),
            csma_span = (csma_start, csma_start + csma_total),
            bind_csma_span = (bind_start, bind_start + bind_total)\<rparr> }"

section \<open>The beacon\<close>

record beacon =
  bcn_type :: nat
  networking_stop :: bool
  reduce_beacon :: bool
  permit_assoc :: bool
  use_beacon_frame :: bool
  bcn_form_no :: nat
  cco_mac :: bytes
  cycle_count :: nat
  rf_chnl :: nat
  rf_option :: nat
  items :: "beacon_item list"
  bpcs_ok :: "bool option"
  bcn_schedule :: "schedule option"
  bcn_warnings :: "mac_warning list"

definition slot_item :: "beacon_item list \<Rightarrow> beacon_item option" where
  "slot_item its = List.find (\<lambda>it. item_id it = 0xC0) its"

definition parse_beacon :: "bytes \<Rightarrow> bool \<Rightarrow> beacon res" where
  "parse_beacon content verify_crc =
     (if length content < 21 then Inl ValueError
      else let (its, ws) = parse_items (rd content 20) content 21;
               ty = rd content 0 AND 0x07;
               n = length content;
               sched = (case slot_item its of None \<Rightarrow> None | Some it \<Rightarrow> rebuild_schedule (item_raw it) ty)
           in Inr \<lparr>bcn_type = ty,
                networking_stop = (drop_bit 3 (rd content 0) AND 1 \<noteq> 0),
                reduce_beacon = (drop_bit 4 (rd content 0) AND 1 \<noteq> 0),
                permit_assoc = (drop_bit 6 (rd content 0) AND 1 \<noteq> 0),
                use_beacon_frame = (drop_bit 7 (rd content 0) AND 1 \<noteq> 0),
                bcn_form_no = rd content 1,
                cco_mac = py_slice content 2 8,
                cycle_count = the (le32 content 8),
                rf_chnl = rd content 12,
                rf_option = rd content 13 AND 0x03,
                items = its,
                bpcs_ok = (if verify_crc
                   then Some (verify_bpcs (take (n - 4) content) (drop (n - 4) content)) else None),
                bcn_schedule = sched,
                bcn_warnings = ws @ (if slot_item its \<noteq> None \<and> sched = None then [Schedule_Failed] else [])\<rparr>)"

section \<open>A sender's side\<close>

definition item_bytes :: "nat \<times> bytes \<Rightarrow> bytes" where
  "item_bytes e = (let (i, body) = e in
     if i < 0xC0 then of_nat i # of_nat (length body + 2) # body
     else of_nat i # of_nat (length body + 3) # of_nat ((length body + 3) div 256) # body)"

definition item_valid :: "nat \<times> bytes \<Rightarrow> bool" where
  "item_valid e \<longleftrightarrow> fst e < 256 \<and> length (snd e) < (if fst e < 0xC0 then 254 else 65533)"

definition item_read :: "nat \<times> bytes \<Rightarrow> beacon_item" where
  "item_read e = \<lparr>item_id = fst e, item_raw = snd e,
     item_fields = (case parse_item_fields (fst e) (snd e) of Some d \<Rightarrow> d | None \<Rightarrow> [])\<rparr>"

definition item_failures :: "(nat \<times> bytes) list \<Rightarrow> mac_warning list" where
  "item_failures es = concat (map (\<lambda>e. if parse_item_fields (fst e) (snd e) = None then [Item_Failed (fst e)] else []) es)"

lemma short_item:
  assumes "rd c off = i" "i < 0xC0" "rd c (off + 1) = len" "2 \<le> len" "off + len \<le> length c"
    "py_slice c (off + 2) (off + len) = body"
  shows "parse_items (Suc n) c off
    = (let (its, ws) = parse_items n c (off + len)
       in (item_read (i, body) # its, (if parse_item_fields i body = None then [Item_Failed i] else []) @ ws))"
  using assms by (simp add: Let_def item_read_def split: prod.splits)

lemma long_item:
  assumes "rd c off = i" "0xC0 \<le> i" "pair16 (c ! (off + 1)) (c ! (off + 2)) = len" "3 \<le> len" "off + len \<le> length c"
    "py_slice c (off + 1 + 2) (off + len) = body"
  shows "parse_items (Suc n) c off
    = (let (its, ws) = parse_items n c (off + len)
       in (item_read (i, body) # its, (if parse_item_fields i body = None then [Item_Failed i] else []) @ ws))"
  using assms by (simp add: Let_def item_read_def split: prod.splits)

lemma parse_items_step:
  assumes "item_valid e"
  shows "parse_items (Suc n) (pre @ item_bytes e @ post) (length pre)
    = (let (its, ws) = parse_items n (pre @ item_bytes e @ post) (length pre + length (item_bytes e))
       in (item_read e # its, (if parse_item_fields (fst e) (snd e) = None then [Item_Failed (fst e)] else []) @ ws))"
proof -
  obtain i body where e: "e = (i, body)" by (cases e)
  let ?c = "pre @ item_bytes e @ post"
  have "i < 256" using assms by (simp add: item_valid_def e)
  then have id: "rd ?c (length pre) = i"
    by (simp add: rd_def nth_append item_bytes_def e codec_simps)
  show ?thesis
  proof (cases "i < 0xC0")
    case True
    with assms have b: "length body < 254" by (simp add: item_valid_def e)
    have "?c ! (length pre + 1) = of_nat (length body + 2)"
      using True by (simp add: nth_append item_bytes_def e)
    then have "rd ?c (length pre + 1) = (length body + 2) mod 256"
      by (simp only: rd_def unat_of_nat_byte)
    then have len: "rd ?c (length pre + 1) = length (item_bytes e)"
      using True b by (simp add: item_bytes_def e)
    show ?thesis
      using short_item [OF id True len, of body n] True by (simp add: item_bytes_def e py_slice_def)
  next
    case False
    with assms have b: "length body < 65533" by (simp add: item_valid_def e)
    have c: "?c ! (length pre + 1) = of_nat (length body + 3)"
      "?c ! (length pre + 2) = of_nat ((length body + 3) div 256)"
      using False by (simp_all add: nth_append item_bytes_def e)
    have "pair16 (?c ! (length pre + 1)) (?c ! (length pre + 2))
      = (length body + 3) mod 256 + 256 * ((length body + 3) div 256 mod 256)"
      by (simp only: pair16_eq c unat_of_nat_byte)
    then have len: "pair16 (?c ! (length pre + 1)) (?c ! (length pre + 2)) = length (item_bytes e)"
      using div_mod_split [of "length body + 3" 256 256] b False by (simp add: item_bytes_def e)
    show ?thesis
      using long_item [OF id _ len, of body n] False by (simp add: item_bytes_def e py_slice_def)
  qed
qed

lemma parse_items_sent:
  assumes "\<forall>e \<in> set es. item_valid e"
  shows "parse_items (length es) (pre @ concat (map item_bytes es) @ post) (length pre)
    = (map item_read es, item_failures es)"
  using assms
proof (induction es arbitrary: pre)
  case (Cons e es)
  have "parse_items (length es) (pre @ item_bytes e @ concat (map item_bytes es) @ post) (length pre + length (item_bytes e))
    = (map item_read es, item_failures es)"
    using Cons.IH [of "pre @ item_bytes e"] Cons.prems by simp
  then show ?case
    using parse_items_step [of e "length es" pre "concat (map item_bytes es) @ post"] Cons.prems
    by (simp add: item_failures_def)
qed (simp add: item_failures_def)

text \<open>A whole beacon: the head up to the count of entries, the entries, padding, the check sequence.\<close>

definition beacon_bytes :: "bytes \<Rightarrow> (nat \<times> bytes) list \<Rightarrow> bytes \<Rightarrow> bytes" where
  "beacon_bytes head es pad =
     (let content = head @ [of_nat (length es)] @ concat (map item_bytes es) @ pad
      in content @ le32_bytes (unat (crc32 content)))"

text \<open>C19. The entries of a beacon come back: whatever the head, the entries (tags of one byte,
bodies of the lengths their length field can hold) and the padding, the beacon is read with exactly
these entries in order, its check sequence verified, and the only warnings are those of entries whose
own fields are too short and of a slot entry from which no schedule can be built.\<close>

theorem beacon_roundtrip:
  assumes "length head = 20" "length es < 256" "\<forall>e \<in> set es. item_valid e"
  shows "\<exists>b. parse_beacon (beacon_bytes head es pad) True = Inr b \<and> items b = map item_read es
    \<and> bpcs_ok b = Some True \<and> cco_mac b = py_slice head 2 8 \<and> bcn_form_no b = unat (head ! 1)
    \<and> set (bcn_warnings b) \<subseteq> set (item_failures es) \<union> {Schedule_Failed}"
proof -
  let ?content = "head @ [of_nat (length es)] @ concat (map item_bytes es) @ pad"
  let ?c = "beacon_bytes head es pad"
  have c: "?c = ?content @ le32_bytes (unat (crc32 ?content))" by (simp add: beacon_bytes_def Let_def)
  have cnt: "rd ?c 20 = length es"
    using assms(1,2) by (simp add: c rd_def nth_append codec_simps)
  have items: "parse_items (rd ?c 20) ?c 21 = (map item_read es, item_failures es)"
    using parse_items_sent [OF assms(3), of "head @ [of_nat (length es)]" "pad @ le32_bytes (unat (crc32 ?content))"]
      assms(1) unfolding cnt by (simp add: c)
  have check: "verify_bpcs (take (length ?c - 4) ?c) (drop (length ?c - 4) ?c)"
    using crc32_check [of ?content] by (simp add: c verify_bpcs_def)
  have head: "py_slice ?c 2 8 = py_slice head 2 8" "rd ?c 1 = unat (head ! 1)"
    using assms(1) by (simp_all add: c py_slice_def rd_def nth_append)
  have "\<not> length ?c < 21" using assms(1) by (simp add: c)
  then show ?thesis
    using items check head by (auto simp: parse_beacon_def Let_def)
qed

definition sample_items :: "(nat \<times> bytes) list" where
  "sample_items = [(1, [1, 0, 2, 0, 3, 0, 4, 0]), (0xC0, [5]), (0x77, [])]"

lemma beacon_roundtrip_witness:
  "\<exists>b. parse_beacon (beacon_bytes (replicate 20 2) sample_items [0, 0]) True = Inr b
     \<and> items b = map item_read sample_items \<and> bpcs_ok b = Some True"
proof -
  have "\<forall>e \<in> set sample_items. item_valid e" "length sample_items < 256"
    by (simp_all add: sample_items_def item_valid_def)
  then show ?thesis using beacon_roundtrip [of "replicate 20 2" sample_items "[0, 0]"] by auto
qed

section \<open>When a schedule is built\<close>

lemma all_some_None: "all_some xs = None \<longleftrightarrow> None \<in> set xs"
  by (induction xs) (auto split: bind_splits)

lemma all_some_length: "all_some xs = Some ys \<Longrightarrow> length ys = length xs"
  by (induction xs arbitrary: ys) (auto split: bind_splits)

lemma all_some_upt: "all_some (map f [0..<n]) = None \<longleftrightarrow> (\<exists>i < n. f i = None)"
  by (auto simp: all_some_None image_iff eq_commute [of None])

lemma last_entry:
  assumes "0 < w"
  shows "(\<exists>i < n. length c < base + i * w + w) \<longleftrightarrow> 0 < n \<and> length c < base + n * (w::nat)"
proof
  assume "\<exists>i < n. length c < base + i * w + w"
  then obtain i where i: "i < n" "length c < base + Suc i * w" by (auto simp: algebra_simps)
  then have "Suc i * w \<le> n * w" by (intro mult_right_mono) simp_all
  with i show "0 < n \<and> length c < base + n * w" by simp
next
  assume "0 < n \<and> length c < base + n * w"
  then show "\<exists>i < n. length c < base + i * w + w"
    by (intro exI [of _ "n - 1"]) (cases n; simp add: algebra_simps)
qed

lemma phase_slots_None: "phase_slots c b n = None \<longleftrightarrow> 0 < n \<and> length c < b + n * 4"
proof -
  have "phase_slots c b n = None \<longleftrightarrow> (\<exists>i < n. length c < b + i * 4 + 4)"
    unfolding phase_slots_def all_some_upt Let_def
    by (intro ex_cong1 conj_cong refl) (auto simp: le24_eq part_def u8_eq slice_simps)
  then show ?thesis using last_entry [of 4 n c b] by simp
qed

lemma item50_no_central_None: "item50_no_central c n = None \<longleftrightarrow> 0 < n \<and> length c < 20 + n * 2"
proof -
  have "item50_no_central c n = None \<longleftrightarrow> (\<exists>i < n. length c < 20 + i * 2 + 2)"
    unfolding item50_no_central_def all_some_upt Let_def
    by (intro ex_cong1 conj_cong refl) (auto simp: get_tei_def part_def u8_eq slice_simps)
  then show ?thesis using last_entry [of 2 n c 20] by simp
qed

lemma item50_head_None: "item50_head c = None \<longleftrightarrow> length c < 20"
  by (auto simp: item50_head_def le32_eq u8_eq)

definition slot_bytes :: "slot_head \<Rightarrow> nat \<Rightarrow> nat" where
  "slot_bytes h bcn =
     (if 0 < csma_phase_cnt h + bind_csma_phase_cnt h
      then 20 + no_central_slots h * 2 + (csma_phase_cnt h + bind_csma_phase_cnt h) * 4
      else if bcn \<noteq> 0 then 20 + no_central_slots h * 2 else 20)"

lemma rebuild_Some:
  assumes "item50_head c = Some h"
  shows "rebuild_schedule c bcn = None \<longleftrightarrow> length c < slot_bytes h bcn"
proof -
  have "20 \<le> length c" using assms item50_head_None [of c] by (cases "length c < 20") auto
  moreover have "rebuild_schedule c bcn = None \<longleftrightarrow>
      phase_slots c (20 + no_central_slots h * 2) (csma_phase_cnt h) = None
      \<or> phase_slots c (20 + no_central_slots h * 2 + csma_phase_cnt h * 4) (bind_csma_phase_cnt h) = None
      \<or> (bcn \<noteq> 0 \<and> item50_no_central c (no_central_slots h) = None)"
    unfolding rebuild_schedule_def assms by (auto simp: Let_def split: bind_splits)
  ultimately show ?thesis
    by (auto simp: phase_slots_None item50_no_central_None slot_bytes_def)
qed

text \<open>A slot entry yields a schedule exactly when it holds its head and all the slots the
head announces; and then the four periods of the beacon's cycle follow each other without gap or
overlap: the beacon slots, the TDMA slots (three phases in a central beacon), the CSMA slots less the
last two milliseconds, the bound CSMA slots.\<close>

theorem schedule_periods:
  shows "(rebuild_schedule c bcn = None \<longleftrightarrow>
      (case item50_head c of None \<Rightarrow> True | Some h \<Rightarrow> length c < slot_bytes h bcn))
    \<and> (case rebuild_schedule c bcn of None \<Rightarrow> True | Some s \<Rightarrow>
        Some (slot_header s) = item50_head c
        \<and> length (csma_slots s) = csma_phase_cnt (slot_header s)
        \<and> length (bind_csma_slots s) = bind_csma_phase_cnt (slot_header s)
        \<and> fst (beacon_span s) = 0 \<and> fst (tdma_span s) = snd (beacon_span s)
        \<and> fst (csma_span s) = snd (tdma_span s) \<and> fst (bind_csma_span s) = snd (csma_span s)
        \<and> snd (csma_span s) - fst (csma_span s) = (\<Sum>p \<leftarrow> csma_slots s. fst p) - 2
        \<and> snd (bind_csma_span s) = (no_central_slots (slot_header s) + central_slots (slot_header s))
              * beacon_slot_length_ms (slot_header s)
            + (if bcn = 2 then 3 else 1) * tdma_slot_length_ms (slot_header s)
            + ((\<Sum>p \<leftarrow> csma_slots s. fst p) - 2) + (\<Sum>p \<leftarrow> bind_csma_slots s. fst p))"
proof (cases "item50_head c")
  case None
  then show ?thesis by (simp add: rebuild_schedule_def)
next
  case (Some h)
  have len: "length xs = n" if "phase_slots c b n = Some xs" for b n xs
    using that unfolding phase_slots_def by (auto dest: all_some_length)
  show ?thesis
    using rebuild_Some [OF Some, of bcn]
    by (auto simp: rebuild_schedule_def Some Let_def algebra_simps dest: len split: bind_splits)
qed

end
