(* ===== verification/Mac_Mgmt.thy ===== *)
theory Mac_Mgmt
  imports Mac_Beacon
begin

text \<open>
  Network management messages and the events read from a frame, \<open>adapter_dualmac/mgmt.py\<close>,
  \<open>events.py\<close> and \<open>decode_frame\<close> and \<open>DualMacAdapter.confidence\<close> of \<open>adapter.py\<close>.

  A display word of a table is given by the English term for it; the summary of an event is the list
  of the values its text is built from, each formatted as the source formats it.
\<close>

unbundle bit_operations_syntax

section \<open>Formatting\<close>

fun hex_nat :: "nat \<Rightarrow> string" where
  "hex_nat n = (if n < 16 then [hex_digit n] else hex_nat (n div 16) @ [hex_digit (n mod 16)])"

declare hex_nat.simps [simp del]

definition hex_pad :: "nat \<Rightarrow> nat \<Rightarrow> string" where
  "hex_pad w n = (let s = hex_nat n in replicate (w - length s) CHR ''0'' @ s)"

text \<open>\<open>f"{v:03X}"\<close> for any value; the negative numbers never occur.\<close>

fun fmt_hex :: "nat \<Rightarrow> pv \<Rightarrow> string res" where
  "fmt_hex w (PInt n) = Inr (hex_pad w (nat n))"
| "fmt_hex w (PBool b) = Inr (hex_pad w (if b then 1 else 0))"
| "fmt_hex w (PStr s) = Inl ValueError"
| "fmt_hex w v = Inl TypeError"

section \<open>The tables\<close>

definition word_of :: "(nat \<times> string) list \<Rightarrow> nat \<Rightarrow> string" where
  "word_of ws n = (case map_of ws n of Some w \<Rightarrow> w | None \<Rightarrow> ''reserved('' @ show_nat n @ '')'')"

definition ASSOC_RSLT :: "(nat \<times> string) list" where
  "ASSOC_RSLT = [(0x0, ''success''), (0x1, ''not in the white list''), (0x2, ''in the black list''),
     (0x3, ''too many stations''), (0x4, ''no white list''), (0x5, ''too many proxies''),
     (0x6, ''too many children''), (0x8, ''duplicate MAC''), (0x9, ''too many layers''),
     (0xA, ''success again''), (0xB, ''a child as proxy''), (0xC, ''a loop''), (0xD, ''unknown reason''),
     (0xE, ''too many RF proxies''), (0xF, ''other'')]"

definition TERMINATER_TYPES :: "(nat \<times> string) list" where
  "TERMINATER_TYPES = [(1, ''reader''), (2, ''concentrator unit''), (3, ''meter unit''), (4, ''relay''),
     (5, ''collector II''), (6, ''collector I unit''), (7, ''three-phase meter unit'')]"

definition MODULE_TYPES :: "(nat \<times> string) list" where
  "MODULE_TYPES = [(0, ''HPLC''), (1, ''HPLC+RF''), (2, ''RF'')]"

definition LEAVE_REASONS :: "(nat \<times> string) list" where
  "LEAVE_REASONS = [(0, ''leave now''), (1, ''too many layers''), (2, ''not in the newest white list'')]"

definition rslt_name :: "nat \<Rightarrow> string" where
  "rslt_name r = (case map_of ASSOC_RSLT r of Some w \<Rightarrow> w
     | None \<Rightarrow> ''reserved(0x'' @ map (\<lambda>c. if is_digit c then c else char_of (of_char c + (32::nat))) (hex_nat r) @ '')'')"

definition link_type :: "bytes \<Rightarrow> nat \<Rightarrow> pv option" where
  "link_type c i = map_option (\<lambda>x. PStr (if x \<noteq> 0 then ''wireless'' else ''carrier'')) (part c i 4 1)"

definition pco_entry :: "bytes \<Rightarrow> pdict option" where
  "pco_entry b = display [(''tei'', num (get_tei b 0)), (''link_type'', link_type b 1)]"

definition plist :: "pv option list \<Rightarrow> pv option" where
  "plist xs = map_option PList (all_some xs)"

definition table60 :: "bytes \<Rightarrow> pdict option" where
  "table60 c =
     do { cands \<leftarrow> plist (map (\<lambda>i. map_option PDict (pco_entry (py_slice c (6 + i * 2) (8 + i * 2)))) [0..<5]);
          display
            [(''sta_mac'', hex_part c 0 6),
             (''proxy_candidates'', Some cands),
             (''phase'', num (part c 16 0 0x3F)),
             (''terminater_type'', num (u8 c 17)),
             (''terminater_name'', map_option (\<lambda>t. PStr (word_of TERMINATER_TYPES t)) (u8 c 17)),
             (''mac_addr_type'', map_option (\<lambda>x. PStr (if x \<noteq> 0 then ''module MAC'' else ''meter address'')) (u8 c 18)),
             (''module_type'', map_option (\<lambda>m. PStr (word_of MODULE_TYPES m)) (part c 19 0 0x03)),
             (''mclt_enable'', flag (part c 19 2 1)),
             (''random'', num (le32 c 20))] }"

text \<open>
  \<open>_table70\<close>: the stations below the confirmer, then its proxies, each with the stations below
  it. The loops over the proxies and over their stations end where the bytes end.
\<close>

fun sub_stations :: "nat \<Rightarrow> bytes \<Rightarrow> nat \<Rightarrow> (nat list \<times> nat) option" where
  "sub_stations 0 c pos = Some ([], pos)"
| "sub_stations (Suc n) c pos =
     (if length c < pos + 2 then Some ([], pos)
      else do { t \<leftarrow> get_tei c pos;
                (ts, end_pos) \<leftarrow> sub_stations n c (pos + 2);
                Some (t # ts, end_pos) })"

fun direct_pcos :: "nat \<Rightarrow> bytes \<Rightarrow> nat \<Rightarrow> pv list option" where
  "direct_pcos 0 c pos = Some []"
| "direct_pcos (Suc n) c pos =
     (if length c < pos + 4 then Some []
      else do { sub_cnt \<leftarrow> le16 c (pos + 2);
                pco \<leftarrow> pco_entry (py_slice c pos (pos + 2));
                (subs, sub_pos) \<leftarrow> sub_stations sub_cnt c (pos + 4);
                rest \<leftarrow> direct_pcos n c sub_pos;
                Some (PDict (pco @ [(''sub_sta_cnt'', PInt (int sub_cnt)),
                                    (''sub_stas'', PList (map (\<lambda>t. PInt (int t)) subs))]) # rest) })"

definition table70 :: "bytes \<Rightarrow> pdict option" where
  "table70 c =
     do { rslt \<leftarrow> u8 c 12;
          direct_sta_cnt \<leftarrow> le16 c 40;
          direct_pco_cnt \<leftarrow> le16 c 42;
          router_size \<leftarrow> le16 c 44;
          stas \<leftarrow> plist (map (\<lambda>i. map_option PDict (pco_entry (py_slice c (48 + i * 2) (50 + i * 2)))) [0..<direct_sta_cnt]);
          pcos \<leftarrow> direct_pcos direct_pco_cnt c (48 + direct_sta_cnt * 2);
          display
            [(''sta_mac'', hex_part c 0 6),
             (''cco_mac'', hex_part c 6 12),
             (''rslt'', num (Some rslt)),
             (''rslt_name'', Some (PStr (rslt_name rslt))),
             (''sta_layer'', num (u8 c 13)),
             (''sta_tei'', num (get_tei c 14)),
             (''link_type'', link_type c 15),
             (''hplc_band'', num (part c 15 5 0x03)),
             (''proxy_tei'', num (get_tei c 16)),
             (''packet_size'', num (u8 c 18)),
             (''packet_no'', num (u8 c 19)),
             (''random'', num (le32 c 20)),
             (''retry_time_ms'', num (le32 c 24)),
             (''t2t_sqn'', num (le32 c 28)),
             (''path_sqn'', num (le32 c 32)),
             (''direct_sta_cnt'', num (Some direct_sta_cnt)),
             (''direct_pco_cnt'', num (Some direct_pco_cnt)),
             (''router_table_size'', num (Some router_size)),
             (''direct_stas'', Some stas),
             (''direct_pcos'', Some (PList pcos))] }"

text \<open>The loops that stop at the first entry the bytes do not hold: entry \<open>i\<close> ends at \<open>base + (i + 1) * width\<close>.\<close>

definition entries :: "bytes \<Rightarrow> nat \<Rightarrow> nat \<Rightarrow> nat \<Rightarrow> (nat \<Rightarrow> pv option) \<Rightarrow> pv option" where
  "entries c base width cnt read =
     plist (map (\<lambda>i. read (base + i * width))
       (takeWhile (\<lambda>i. base + i * width + width \<le> length c) [0..<cnt]))"

definition table76 :: "bytes \<Rightarrow> pdict option" where
  "table76 c =
     do { sta_cnt \<leftarrow> u8 c 11;
          stas \<leftarrow> entries c 16 8 sta_cnt (\<lambda>b. map_option PDict
                    (display [(''mac'', hex_part c b (b + 6)), (''tei'', num (get_tei c (b + 6)))]));
          display
            [(''rslt'', num (u8 c 0)),
             (''sta_layer'', num (u8 c 1)),
             (''cco_mac'', hex_part c 2 8),
             (''proxy_tei'', num (get_tei c 8)),
             (''hplc_band'', num (part c 9 4 0x03)),
             (''sta_cnt'', num (Some sta_cnt)),
             (''stas'', Some stas)] }"

definition table79 :: "bytes \<Rightarrow> pdict option" where
  "table79 c =
     do { cands \<leftarrow> plist (map (\<lambda>i. map_option PDict (pco_entry (py_slice c (2 + i * 2) (4 + i * 2)))) [0..<5]);
          display
            [(''sta_tei'', num (get_tei c 0)),
             (''proxy_candidates'', Some cands),
             (''old_proxy_tei'', num (get_tei c 12)),
             (''proxy_type'', num (u8 c 14)),
             (''why_change'', num (u8 c 15)),
             (''t2t_sqn'', num (le32 c 16)),
             (''phase'', if 20 < length c then num (part c 20 0 0x3F) else Some PNone)] }"

text \<open>The comprehensions that keep the entries the bytes hold.\<close>

definition held :: "nat \<Rightarrow> (nat \<Rightarrow> bool) \<Rightarrow> (nat \<Rightarrow> pv option) \<Rightarrow> pv option" where
  "held cnt ok read = plist (map read (filter ok [0..<cnt]))"

definition table84 :: "bytes \<Rightarrow> pdict option" where
  "table84 c =
     do { sub_cnt \<leftarrow> le16 c 16;
          subs \<leftarrow> held sub_cnt (\<lambda>i. 22 + i * 2 \<le> length c) (\<lambda>i. num (get_tei c (20 + i * 2)));
          display
            [(''result'', num (u8 c 0)),
             (''packet_cnt'', num (u8 c 1)),
             (''packet_sqn'', num (u8 c 2)),
             (''sta_tei'', num (get_tei c 4)),
             (''link_type'', link_type c 5),
             (''proxy_tei'', num (get_tei c 6)),
             (''t2t_sqn'', num (le32 c 8)),
             (''path_sqn'', num (le32 c 12)),
             (''sub_sta_cnt'', num (Some sub_cnt)),
             (''sub_stas'', Some subs)] }"

definition table88 :: "bytes \<Rightarrow> pdict option" where
  "table88 c =
     do { size \<leftarrow> le16 c 2;
          display
            [(''result'', num (u8 c 0)),
             (''bitmap_size'', num (Some size)),
             (''sta_tei'', num (get_tei c 4)),
             (''link_type'', link_type c 5),
             (''proxy_tei'', num (get_tei c 6)),
             (''t2t_sqn'', num (le32 c 8)),
             (''path_sqn'', num (le32 c 12)),
             (''bitmap_hex'', if 20 + size \<le> length c then hex_part c 20 (20 + size) else Some (PStr ''''))] }"

definition table91 :: "bytes \<Rightarrow> pdict option" where
  "table91 c =
     do { sta_cnt \<leftarrow> le16 c 2;
          macs \<leftarrow> held sta_cnt (\<lambda>i. 22 + i * 6 \<le> length c) (\<lambda>i. hex_part c (16 + i * 6) (22 + i * 6));
          reason \<leftarrow> le16 c 0;
          display
            [(''reason'', num (Some reason)),
             (''reason_name'', Some (PStr (word_of LEAVE_REASONS reason))),
             (''sta_cnt'', num (Some sta_cnt)),
             (''delay_time_ms'', num (le16 c 4)),
             (''macs'', Some macs)] }"

definition bitmap_popcount :: "bytes \<Rightarrow> nat" where
  "bitmap_popcount bs = sum_list (map (\<lambda>b. length (filter (bit b) [0..<8])) bs)"

definition table94 :: "bytes \<Rightarrow> pdict option" where
  "table94 c =
     do { size \<leftarrow> le16 c 6;
          display
            [(''osa_tei'', num (get_tei c 0)),
             (''most_discover_sta_tei'', num (get_tei c 2)),
             (''most_discover_sta'', num (le16 c 4)),
             (''bitmap_size'', num (Some size)),
             (''bitmap_hex'', hex_part c 8 (8 + size)),
             (''active_cnt'', num (Some (bitmap_popcount (py_slice c 8 (8 + size)))))] }"

definition table100 :: "bytes \<Rightarrow> pdict option" where
  "table100 c =
     do { cnt \<leftarrow> le16 c 2;
          es \<leftarrow> entries c 4 4 cnt (\<lambda>b. map_option PDict
                  (display [(''tei'', num (get_tei c b)), (''down'', num (u8 c (b + 2))), (''up'', num (u8 c (b + 3)))]));
          display [(''proxy_tei'', num (get_tei c 0)), (''sub_sta_cnt'', num (Some cnt)), (''entries'', Some es)] }"

definition table102 :: "bytes \<Rightarrow> pdict option" where
  "table102 c =
     do { cnt \<leftarrow> u8 c 6;
          w \<leftarrow> u8 c 7;
          let width = (if w = 0 then 3 else w);
          nids \<leftarrow> held cnt (\<lambda>i. 11 + i * width \<le> length c)
                    (\<lambda>i. map_option (\<lambda>n. PStr (hex_pad 6 n)) (le24 c (8 + i * width)));
          display
            [(''cco_mac'', hex_part c 0 6), (''neighbor_nwk_cnt'', num (Some cnt)),
             (''nid_width'', num (Some width)), (''neighbor_nids'', Some nids)] }"

definition table121 :: "bytes \<Rightarrow> pdict option" where
  "table121 c =
     do { cnt \<leftarrow> u8 c 6;
          chnls \<leftarrow> held cnt (\<lambda>i. 7 + i < length c) (\<lambda>i. num (u8 c (7 + i)));
          opts \<leftarrow> held cnt (\<lambda>i. 7 + cnt + i < length c) (\<lambda>i. num (part c (7 + cnt + i) 0 0x03));
          display
            [(''cco_mac'', hex_part c 0 6), (''neighbor_nwk_cnt'', num (Some cnt)),
             (''chnls'', Some chnls), (''options'', Some opts)] }"

definition route_path_entries :: "bytes \<Rightarrow> nat \<Rightarrow> nat \<Rightarrow> pv option" where
  "route_path_entries c count base =
     entries c base 4 count (\<lambda>b. map_option PDict
       (display [(''tei'', num (get_tei c b)), (''suc_rate'', num (u8 c (b + 2))), (''lqi'', num (u8 c (b + 3)))]))"

definition table111 :: "bytes \<Rightarrow> pdict option" where
  "table111 c =
     do { len \<leftarrow> u8 c 6;
          kind \<leftarrow> part c 5 4 0x0F;
          display
            [(''version'', num (u8 c 0)),
             (''sqn'', num (le32 c 1)),
             (''path_preference'', flag (part c 5 3 1)),
             (''payload_type'', num (Some kind)),
             (''payload_len'', num (Some len)),
             (''paths'', if kind = 1 then route_path_entries c (len div 4) 7 else Some (PList []))] }"

definition table114 :: "bytes \<Rightarrow> pdict option" where
  "table114 c =
     do { len \<leftarrow> u8 c 6;
          display
            [(''version'', num (u8 c 0)),
             (''sqn'', num (le32 c 1)),
             (''payload_len'', num (Some len)),
             (''paths'', route_path_entries c (if 7 < len then (len - 7) div 4 else 0) 7)] }"

definition table117 :: "bytes \<Rightarrow> pdict option" where
  "table117 c =
     do { cnt \<leftarrow> u8 c 6;
          teis \<leftarrow> held cnt (\<lambda>i. 9 + i * 2 \<le> length c) (\<lambda>i. num (get_tei c (7 + i * 2)));
          display
            [(''version'', num (u8 c 0)), (''sqn'', num (le32 c 1)),
             (''unreach_cnt'', num (Some cnt)), (''unreach_teis'', Some teis)] }"

definition table118 :: "bytes \<Rightarrow> pdict option" where
  "table118 c = display [(''version'', num (u8 c 0)), (''sqn'', num (le32 c 4))]"

definition handler :: "nat \<Rightarrow> (bytes \<Rightarrow> pdict option) option" where
  "handler mm = map_of
     [(0x0000, table60), (0x0001, table70), (0x0002, table76), (0x0003, table79), (0x0004, table84),
      (0x0005, table88), (0x0006, table91), (0x0007, table94), (0x0009, table100), (0x000A, table102),
      (0x0050, table111), (0x0051, table114), (0x0052, table117), (0x0053, table118), (0x0080, table121)] mm"

record mgmt_message =
  mmtype :: nat
  mgmt_fields :: pdict
  mgmt_raw :: bytes
  mgmt_warnings :: "mac_warning list"

definition parse_mgmt :: "bytes \<Rightarrow> mgmt_message res" where
  "parse_mgmt m =
     (if length m < 4 then Inl ValueError
      else let mm = pair16 (m ! 0) (m ! 1); table = drop 4 m; plain = [(''table_hex'', PStr (hex_upper table))]
           in Inr (case handler mm of
                None \<Rightarrow> \<lparr>mmtype = mm, mgmt_fields = plain, mgmt_raw = m, mgmt_warnings = []\<rparr>
              | Some h \<Rightarrow> (case h table of
                    Some fs \<Rightarrow> \<lparr>mmtype = mm, mgmt_fields = fs, mgmt_raw = m, mgmt_warnings = []\<rparr>
                  | None \<Rightarrow> \<lparr>mmtype = mm, mgmt_fields = plain, mgmt_raw = m, mgmt_warnings = [Table_Failed]\<rparr>)))"

section \<open>Events\<close>

record mac_event =
  event :: string
  direction :: string
  src_tei :: string
  dst_tei :: string
  summary :: "string list"
  event_fields :: pdict

definition CCO_TEI :: nat where "CCO_TEI = 1"

definition dir_of :: "nat \<Rightarrow> nat \<Rightarrow> string" where
  "dir_of src dst = (if src = CCO_TEI then ''down'' else if dst = CCO_TEI then ''up'' else ''mesh'')"

definition base :: "string \<Rightarrow> nat \<Rightarrow> nat \<Rightarrow> pdict \<Rightarrow> string list \<Rightarrow> mac_event" where
  "base ev src dst fs summ =
     \<lparr>event = ev, direction = dir_of src dst, src_tei = hex_pad 3 src, dst_tei = hex_pad 3 dst,
      summary = summ, event_fields = fs\<rparr>"

text \<open>The values a summary is built from: as text, or as three hexadecimal digits.\<close>

datatype hole = Shown pv | Hex3 pv | Hex6 pv

fun fill :: "hole list \<Rightarrow> string list res" where
  "fill [] = Inr []"
| "fill (Shown v # hs) = andThen (fill hs) (\<lambda>r. Inr (to_str v # r))"
| "fill (Hex3 v # hs) = andThen (fmt_hex 3 v) (\<lambda>s. andThen (fill hs) (\<lambda>r. Inr (s # r)))"
| "fill (Hex6 v # hs) = andThen (fmt_hex 6 v) (\<lambda>s. andThen (fill hs) (\<lambda>r. Inr (s # r)))"

definition base_of :: "string \<Rightarrow> nat \<Rightarrow> nat \<Rightarrow> pdict \<Rightarrow> hole list \<Rightarrow> mac_event list res" where
  "base_of ev src dst fs hs = andThen (fill hs) (\<lambda>summ. Inr [base ev src dst fs summ])"

text \<open>\<open>",".join(f"{c['tei']:03X}({c['link_type']})" for c in ...)\<close>\<close>

fun candidate :: "pv \<Rightarrow> string res" where
  "candidate (PDict d) =
     (case (map_of d ''tei'', map_of d ''link_type'') of
        (Some t, Some l) \<Rightarrow> andThen (fmt_hex 3 t) (\<lambda>s. Inr (s @ ''('' @ to_str l @ '')''))
      | _ \<Rightarrow> Inl KeyError)"
| "candidate _ = Inl TypeError"

fun candidate_list :: "pv list \<Rightarrow> string list res" where
  "candidate_list [] = Inr []"
| "candidate_list (c # cs) = andThen (candidate c) (\<lambda>s. andThen (candidate_list cs) (\<lambda>r. Inr (s # r)))"

definition candidates :: "pv \<Rightarrow> string res" where
  "candidates v = andThen (elements v) (\<lambda>cs. andThen (candidate_list cs) (\<lambda>ss. Inr (join_with '','' ss)))"

text \<open>The events of a management message.\<close>

definition zero :: pv where "zero = PInt 0"

definition mgmt_events :: "nat \<Rightarrow> nat \<Rightarrow> nat \<Rightarrow> pdict \<Rightarrow> mac_event list res" where
  "mgmt_events mm src dst f =
     (if mm = 0x0000 then
        andThen (candidates (getd f ''proxy_candidates'' (PList []))) (\<lambda>cand.
          base_of ''assoc_req'' src dst f [Shown (getd f ''sta_mac'' (PStr '''')), Shown (PStr cand)])
      else if mm = 0x0001 then
        base_of ''assoc_cnf'' src dst f
          ([Hex3 (pget f ''sta_tei''), Shown (pget f ''rslt_name''), Hex3 (getd f ''proxy_tei'' zero)]
           @ (if pget f ''rslt'' \<notin> {PInt 0, PInt 0xA} then [Shown (pget f ''retry_time_ms'')] else []))
      else if mm = 0x0002 then
        base_of ''assoc_gather'' src dst f [Shown (pget f ''sta_cnt''), Hex3 (getd f ''proxy_tei'' zero)]
      else if mm = 0x0003 then
        base_of ''proxy_change_req'' src dst f [Hex3 (getd f ''sta_tei'' zero), Hex3 (getd f ''old_proxy_tei'' zero)]
      else if mm = 0x0004 \<or> mm = 0x0005 then
        base_of ''proxy_change_cnf'' src dst f
          ([Hex3 (getd f ''sta_tei'' zero), Hex3 (getd f ''proxy_tei'' zero), Shown (pget f ''result'')]
           @ (if map_of f ''sub_sta_cnt'' \<noteq> None then [Shown (pget f ''sub_sta_cnt'')] else []))
      else if mm = 0x0006 then
        base_of ''leave_ind'' src dst f
          [Shown (pget f ''sta_cnt''), Shown (pget f ''reason_name''), Shown (pget f ''delay_time_ms'')]
      else if mm = 0x0007 then
        base_of ''heartbeat'' src dst f
          [Hex3 (getd f ''osa_tei'' zero), Shown (pget f ''active_cnt''), Shown (pget f ''bitmap_size'')]
      else if mm = 0x0008 then base_of ''discover_list'' src dst f []
      else if mm = 0x0009 then
        base_of ''success_rate'' src dst f [Hex3 (getd f ''proxy_tei'' zero), Shown (pget f ''sub_sta_cnt'')]
      else if mm = 0x000A then base_of ''nid_conflict'' src dst f [Shown (pget f ''neighbor_nids'')]
      else if mm = 0x0080 then base_of ''rf_conflict'' src dst f [Shown (pget f ''chnls''), Shown (pget f ''options'')]
      else if mm = 0x0050 then base_of ''route_request'' src dst f [Shown (pget f ''sqn'')]
      else if mm = 0x0051 then base_of ''route_reply'' src dst f [Shown (pget f ''sqn'')]
      else if mm = 0x0052 then base_of ''route_error'' src dst f [Shown (pget f ''unreach_teis'')]
      else if mm = 0x0053 then base_of ''route_ack'' src dst f [Shown (pget f ''sqn'')]
      else base_of ''app_data'' src dst
        ((''mmtype'', PStr (''0x'' @ hex_pad 4 mm)) # f) [Shown (PStr (hex_pad 4 mm))])"

definition opt_bool :: "bool option \<Rightarrow> pv" where
  "opt_bool b = (case b of None \<Rightarrow> PNone | Some x \<Rightarrow> PBool x)"

definition send_type_name :: "nat \<Rightarrow> string" where
  "send_type_name n = word_of [(0, ''unicast''), (1, ''broadcast''), (2, ''local broadcast''), (3, ''proxy broadcast'')] n"

definition item_name :: "nat \<Rightarrow> string" where
  "item_name n = (case map_of [(0x00, ''capability''), (0x01, ''route''), (0x02, ''band''), (0x03, ''rf route''),
       (0x04, ''rf channel''), (0x05, ''short beacon''), (0x06, ''calendar''), (0xC0, ''slots'')] n of
     Some w \<Rightarrow> w | None \<Rightarrow> ''reserved(0x'' @ hex_pad 2 n @ '')'')"

definition bcn_type_name :: "nat \<Rightarrow> string" where
  "bcn_type_name n = word_of [(0, ''discover''), (1, ''proxy''), (2, ''central'')] n"

definition span_fields :: "nat \<times> nat \<Rightarrow> pv" where
  "span_fields s = PDict [(''start'', PInt (int (fst s))), (''end'', PInt (int (snd s)))]"

definition slot_fields :: "(nat \<times> nat) list \<Rightarrow> pv" where
  "slot_fields ss = PList (map (\<lambda>s. PDict [(''length_ms'', PInt (int (fst s))), (''phase'', PInt (int (snd s)))]) ss)"

definition beacon_event :: "nat \<Rightarrow> beacon \<Rightarrow> mac_event" where
  "beacon_event src b =
     base (if bcn_type b = 1 then ''beacon_proxy'' else if bcn_type b = 2 then ''beacon_central''
           else ''beacon_discover'') src 0
       ([(''cco_mac'', PStr (hex_upper (cco_mac b))),
         (''cycle_count'', PInt (int (cycle_count b))),
         (''permit_assoc'', PBool (permit_assoc b)),
         (''networking_stop'', PBool (networking_stop b)),
         (''items'', PList (map (\<lambda>it. PStr (item_name (item_id it))) (items b))),
         (''bpcs_ok'', opt_bool (bpcs_ok b))]
        @ (case bcn_schedule b of None \<Rightarrow> [] | Some s \<Rightarrow>
             [(''beacon_period_ms'', PInt (int (beacon_period_ms (slot_header s)))),
              (''periods_ms'', PDict [(''beacon'', span_fields (beacon_span s)), (''tdma'', span_fields (tdma_span s)),
                 (''csma'', span_fields (csma_span s)), (''bind_csma'', span_fields (bind_csma_span s))]),
              (''csma_slots'', slot_fields (csma_slots s))]))
       [bcn_type_name (bcn_type b), show_nat (cycle_count b), if permit_assoc b then ''permit'' else '''']"

definition extract_events ::
  "fch_header \<Rightarrow> mac_header option \<Rightarrow> msdu option \<Rightarrow> mgmt_message option \<Rightarrow> beacon option \<Rightarrow> mac_event list res" where
  "extract_events f mac m mgmt bcn =
     (case (fch_delimiter f, bcn) of
        (0, Some b) \<Rightarrow>
          (case getd (fch_variable f) ''teis'' zero of
             PInt src \<Rightarrow> Inr [beacon_event (nat src) b] | _ \<Rightarrow> Inl TypeError)
      | (d, _) \<Rightarrow>
          if d = 3 then
            (let v = fch_variable f in
             base_of ''coord_frame'' 0 0 v [Shown (pget v ''duration_ms''), Hex6 (getd v ''neighbor_nid'' zero)])
          else case mac of
            None \<Rightarrow> Inr []
          | Some h \<Rightarrow>
              if d \<noteq> 1 then Inr []
              else if msdu_type h = 48 then
                Inr [base ''app_data'' (teis h) (teid h)
                  [(''msdu_sqn'', PInt (int (msdu_sqn h))), (''msdu_len'', PInt (int (msdu_len h))),
                   (''send_type'', PStr (send_type_name (send_type h))),
                   (''icv_ok'', case m of None \<Rightarrow> PNone | Some x \<Rightarrow> opt_bool (icv_ok x))]
                  [show_nat (msdu_sqn h), show_nat (msdu_len h)]]
              else case mgmt of
                None \<Rightarrow> Inr []
              | Some g \<Rightarrow> if msdu_type h \<noteq> 0 then Inr []
                  else mgmt_events (mmtype g) (teis h) (teid h) (mgmt_fields g))"

section \<open>The decoder\<close>

record dual_frame =
  df_gw :: gw_frame
  df_fch :: fch_header
  df_mac :: "mac_header option"
  df_msdu :: "msdu option"
  df_mgmt :: "mgmt_message option"
  df_beacon :: "beacon option"
  df_events :: "mac_event list"
  df_warnings :: "mac_warning list"

text \<open>The part under the handler for a data frame: what is set before an exception stays.\<close>

definition decode_sof ::
  "bytes \<Rightarrow> mac_header option \<times> msdu option \<times> mgmt_message option \<times> mac_warning list" where
  "decode_sof region =
     (case parse_mac_header region of
        Inl e \<Rightarrow> (None, None, None, [Sof_Failed e])
      | Inr h \<Rightarrow>
          (let m = extract_msdu region h;
               ws = (if msdu_truncated m then [Payload_Cut] else [])
                 @ (if icv_ok m = Some False then [Icv_Failed] else [])
           in if msdu_type h = 0 \<and> msdu_data m \<noteq> [] \<and> \<not> msdu_truncated m
              then (case parse_mgmt (msdu_data m) of
                      Inl e \<Rightarrow> (Some h, Some m, None, ws @ [Sof_Failed e])
                    | Inr g \<Rightarrow> (Some h, Some m, Some g, ws @ mgmt_warnings g))
              else (Some h, Some m, None, ws)))"

definition decode_payload ::
  "nat \<Rightarrow> bytes \<Rightarrow> mac_header option \<times> msdu option \<times> mgmt_message option \<times> beacon option \<times> mac_warning list" where
  "decode_payload d region =
     (if d = 1 \<and> region \<noteq> [] then
        (let (h, m, g, ws) = decode_sof region in (h, m, g, None, ws))
      else if d = 0 \<and> region \<noteq> [] then
        (case parse_beacon region True of
           Inl e \<Rightarrow> (None, None, None, None, [Beacon_Failed e])
         | Inr b \<Rightarrow> (None, None, None, Some b, bcn_warnings b))
      else (None, None, None, None, []))"

definition decode_stripped :: "bytes \<Rightarrow> dual_frame res" where
  "decode_stripped data =
     andThen (parse_gw_frame data) (\<lambda>gw.
     andThen (parse_fch (gw_fch gw)) (\<lambda>f.
       let (h, m, g, b, ws) = decode_payload (fch_delimiter f) (gw_region gw)
       in andThen (extract_events f h m g b) (\<lambda>evs.
            Inr \<lparr>df_gw = gw, df_fch = f, df_mac = h, df_msdu = m, df_mgmt = g, df_beacon = b,
              df_events = evs, df_warnings = gw_warnings gw @ fch_warnings f @ ws\<rparr>)))"

definition decode_frame :: "bytes \<Rightarrow> dual_frame res" where
  "decode_frame raw = andThen (strip_gw raw) decode_stripped"

definition decode_frame_text :: "string \<Rightarrow> dual_frame res" where
  "decode_frame_text raw =
     (case split_gw_stream raw of
        Some data \<Rightarrow> decode_stripped data
      | None \<Rightarrow> andThen (strip_gw_text raw) decode_stripped)"

text \<open>\<open>DualMacAdapter.confidence\<close>, in tenths.\<close>

definition confidence :: "bytes \<Rightarrow> nat" where
  "confidence raw =
     (case strip_gw raw of
        Inl _ \<Rightarrow> 0
      | Inr data \<Rightarrow>
          (let fch = py_slice data 20 36 in
           if length data < 36 then 0
           else if (rd fch 0 AND 0x07) \<le> 3 \<and> drop_bit 3 (rd fch 0) = 0 \<and> py_slice fch 1 4 \<noteq> [0, 0, 0]
           then 9 else 3))"

section \<open>When the decoder returns\<close>

definition returns :: "'a res \<Rightarrow> bool" where
  "returns r \<longleftrightarrow> (\<exists>v. r = Inr v)"

lemma returns_simps [simp]: "returns (Inr v)" "\<not> returns (Inl e)"
  "returns (andThen x (\<lambda>y. Inr (g y))) \<longleftrightarrow> returns x"
  by (cases x; simp add: returns_def)+

definition numeric :: "pv \<Rightarrow> bool" where
  "numeric v \<longleftrightarrow> (\<exists>n. v = PInt n)"

lemma numeric_fmt: "numeric v \<Longrightarrow> returns (fmt_hex w v)"
  by (auto simp: numeric_def)

lemma numeric_zero [simp]: "numeric zero"
  by (simp add: numeric_def zero_def)

fun fillable :: "hole \<Rightarrow> bool" where
  "fillable (Shown v) = True"
| "fillable (Hex3 v) = numeric v"
| "fillable (Hex6 v) = numeric v"

lemma fill_returns: "list_all fillable hs \<Longrightarrow> returns (fill hs)"
proof (induction hs rule: fill.induct)
  case (3 v hs)
  then show ?case by (cases "fmt_hex 3 v") (use numeric_fmt [of v 3] in auto)
next
  case (4 v hs)
  then show ?case by (cases "fmt_hex 6 v") (use numeric_fmt [of v 6] in auto)
qed simp_all

lemma base_of_returns: "list_all fillable hs \<Longrightarrow> returns (base_of ev src dst fs hs)"
  by (simp add: base_of_def fill_returns)

lemma display_lookup:
  "display kvs = Some d \<Longrightarrow> map_of d k = (case map_of kvs k of None \<Rightarrow> None | Some v \<Rightarrow> v)"
  by (induction kvs arbitrary: d) (auto split: bind_splits)

lemma display_num:
  assumes "display kvs = Some d" "map_of kvs k = Some (num n)"
  shows "numeric (getd d k v)" "numeric (pget d k)"
proof -
  have "\<exists>x. map_of d k = Some x \<and> (n \<noteq> None \<longrightarrow> numeric x)"
    using assms
    by (induction kvs arbitrary: d) (auto simp: num_def numeric_def split: bind_splits if_splits)
  moreover have "map_of d k = num n" using display_lookup [OF assms(1)] assms(2) by simp
  ultimately show "numeric (getd d k v)" "numeric (pget d k)"
    by (cases n; auto simp: getd_def pget_def num_def numeric_def)+
qed

lemma pco_candidate:
  assumes "pco_entry b = Some d"
  shows "returns (candidate (PDict d))"
proof -
  obtain n l where "d = [(''tei'', PInt n), (''link_type'', PStr l)]"
    using assms by (auto simp: pco_entry_def num_def link_type_def split: bind_splits)
  then show ?thesis by simp
qed

lemma all_some_set: "all_some xs = Some ys \<Longrightarrow> y \<in> set ys \<Longrightarrow> Some y \<in> set xs"
  by (induction xs arbitrary: ys) (auto split: bind_splits)

lemma candidate_list_returns: "\<forall>c \<in> set cs. returns (candidate c) \<Longrightarrow> returns (candidate_list cs)"
proof (induction cs)
  case (Cons c cs)
  then show ?case by (cases "candidate c") auto
qed simp

lemma pco_list_candidates:
  assumes "plist (map (\<lambda>i. map_option PDict (pco_entry (f i))) is) = Some v"
  shows "returns (candidates v)"
proof -
  obtain cs where cs: "all_some (map (\<lambda>i. map_option PDict (pco_entry (f i))) is) = Some cs" and v: "v = PList cs"
    using assms by (auto simp: plist_def)
  have "returns (candidate c)" if in_cs: "c \<in> set cs" for c
  proof -
    obtain i where "Some c = map_option PDict (pco_entry (f i))" using all_some_set [OF cs in_cs] by auto
    then show ?thesis using pco_candidate by (cases "pco_entry (f i)") auto
  qed
  then have "returns (candidate_list cs)" by (rule candidate_list_returns [OF ballI])
  then show ?thesis by (simp add: v candidates_def)
qed

lemma table_bind: "do { x \<leftarrow> a; g x } = Some f \<Longrightarrow> (\<And>x. a = Some x \<Longrightarrow> g x = Some f \<Longrightarrow> P) \<Longrightarrow> P"
  by (cases a) simp_all

lemma table_teis:
  "table70 c = Some f \<Longrightarrow> numeric (pget f ''sta_tei'')"
  "table70 c = Some f \<Longrightarrow> numeric (getd f ''proxy_tei'' v)"
  "table76 c = Some f \<Longrightarrow> numeric (getd f ''proxy_tei'' v)"
  "table79 c = Some f \<Longrightarrow> numeric (getd f ''sta_tei'' v)"
  "table79 c = Some f \<Longrightarrow> numeric (getd f ''old_proxy_tei'' v)"
  "table84 c = Some f \<Longrightarrow> numeric (getd f ''sta_tei'' v)"
  "table84 c = Some f \<Longrightarrow> numeric (getd f ''proxy_tei'' v)"
  "table88 c = Some f \<Longrightarrow> numeric (getd f ''sta_tei'' v)"
  "table88 c = Some f \<Longrightarrow> numeric (getd f ''proxy_tei'' v)"
  "table94 c = Some f \<Longrightarrow> numeric (getd f ''osa_tei'' v)"
  "table100 c = Some f \<Longrightarrow> numeric (getd f ''proxy_tei'' v)"
  unfolding table70_def table76_def table79_def table84_def table88_def table94_def table100_def
  by ((erule table_bind)+, erule display_num, simp)+

lemma table60_candidates:
  "table60 c = Some f \<Longrightarrow> returns (candidates (getd f ''proxy_candidates'' v))"
  unfolding table60_def
  by (erule table_bind, drule pco_list_candidates) (auto dest!: display_lookup [where k = "''proxy_candidates''"] simp: getd_def simp del: display.simps)

text \<open>The events of a message whose table was read, and of one given as plain bytes.\<close>

lemma handler_cases:
  assumes "handler mm = Some h"
  obtains "mm = 0" "h = table60" | "mm = 1" "h = table70" | "mm = 2" "h = table76" | "mm = 3" "h = table79"
    | "mm = 4" "h = table84" | "mm = 5" "h = table88" | "mm = 6" "h = table91" | "mm = 7" "h = table94"
    | "mm = 9" "h = table100" | "mm = 10" "h = table102" | "mm = 0x50" "h = table111" | "mm = 0x51" "h = table114"
    | "mm = 0x52" "h = table117" | "mm = 0x53" "h = table118" | "mm = 0x80" "h = table121"
  using assms by (auto simp: handler_def split: if_splits)

lemma read_table_events:
  assumes "handler mm = Some h" "h c = Some f"
  shows "returns (mgmt_events mm src dst f)"
  using assms(1)
proof (cases rule: handler_cases)
  case 1
  with assms(2) have "returns (candidates (getd f ''proxy_candidates'' (PList [])))"
    using table60_candidates by simp
  then show ?thesis
    using 1 by (cases "candidates (getd f ''proxy_candidates'' (PList []))") (simp_all add: mgmt_events_def base_of_returns)
qed (use assms(2) in \<open>auto simp: mgmt_events_def table_teis intro!: base_of_returns\<close>)

lemma plain_events:
  assumes "f = [(''table_hex'', x)]"
  shows "mm \<noteq> 1 \<Longrightarrow> returns (mgmt_events mm src dst f)" "mgmt_events 1 src dst f = Inl TypeError"
proof -
  have d: "getd f k v = v" "pget f k = PNone" "map_of f k = None" if "k \<noteq> ''table_hex''" for k v
    using that by (simp_all add: assms getd_def pget_def)
  show "mgmt_events 1 src dst f = Inl TypeError"
    by (simp add: mgmt_events_def base_of_def d)
  assume "mm \<noteq> 1"
  then show "returns (mgmt_events mm src dst f)"
    by (auto simp: mgmt_events_def d candidates_def intro!: base_of_returns)
qed

lemma mgmt_message_events:
  assumes "parse_mgmt m = Inr g"
  shows "returns (mgmt_events (mmtype g) src dst (mgmt_fields g)) \<longleftrightarrow> \<not> (mmtype g = 1 \<and> mgmt_warnings g \<noteq> [])"
    "mmtype g = 1 \<Longrightarrow> mgmt_warnings g \<noteq> [] \<Longrightarrow> mgmt_events (mmtype g) src dst (mgmt_fields g) = Inl TypeError"
proof -
  consider (read) h f where "handler (mmtype g) = Some h" "h (drop 4 m) = Some f" "mgmt_fields g = f" "mgmt_warnings g = []"
    | (plain) x where "mgmt_fields g = [(''table_hex'', x)]" "mgmt_warnings g = [] \<Longrightarrow> mmtype g \<noteq> 1"
  proof (cases "handler (pair16 (m ! 0) (m ! 1))")
    case None
    then show ?thesis using assms that(2) by (auto simp: parse_mgmt_def Let_def handler_def split: if_splits)
  next
    case (Some h)
    then show ?thesis
    proof (cases "h (drop 4 m)")
      case None
      with Some show ?thesis using assms that(2) by (auto simp: parse_mgmt_def Let_def split: if_splits)
    next
      case (Some f)
      with \<open>handler _ = Some h\<close> show ?thesis using assms that(1) by (auto simp: parse_mgmt_def Let_def split: if_splits)
    qed
  qed
  then have "(returns (mgmt_events (mmtype g) src dst (mgmt_fields g)) \<longleftrightarrow> \<not> (mmtype g = 1 \<and> mgmt_warnings g \<noteq> []))
    \<and> (mmtype g = 1 \<longrightarrow> mgmt_warnings g \<noteq> [] \<longrightarrow> mgmt_events (mmtype g) src dst (mgmt_fields g) = Inl TypeError)"
  proof cases
    case read
    then show ?thesis using read_table_events by simp
  next
    case plain
    then show ?thesis using plain_events [OF plain(1)] by (cases "mmtype g = 1") auto
  qed
  then show "returns (mgmt_events (mmtype g) src dst (mgmt_fields g)) \<longleftrightarrow> \<not> (mmtype g = 1 \<and> mgmt_warnings g \<noteq> [])"
    "mmtype g = 1 \<Longrightarrow> mgmt_warnings g \<noteq> [] \<Longrightarrow> mgmt_events (mmtype g) src dst (mgmt_fields g) = Inl TypeError"
    by blast+
qed

text \<open>Below the guard on the length nothing raises: the header fields are read from sixteen bytes.\<close>

lemma u8_Some: "i < length b \<Longrightarrow> u8 b i = Some (rd b i)"
  by (simp add: u8_eq rd_def)

lemma parse_fch_returns:
  assumes "length f = 16"
  obtains h where "parse_fch f = Inr h" "fch_delimiter h = rd f 0 AND 7" "numeric (getd (fch_variable h) ''teis'' zero)"
    "numeric (getd (fch_variable h) ''neighbor_nid'' zero)" "set (fch_warnings h) \<subseteq> range Network_Type"
proof -
  have le: "\<exists>n. le24 f 1 = Some n" "\<exists>n. le24 f 13 = Some n" using assms by (simp_all add: le24_eq)
  have p: "part f i sh m = Some (drop_bit sh (rd f i) AND m)" if "i < 16" for i sh m
    using that assms by (simp add: part_def u8_Some)
  have vars: "\<exists>v. fch_vars d f = Some v \<and> numeric (getd v ''teis'' zero) \<and> numeric (getd v ''neighbor_nid'' zero)" for d
  proof -
    have le': "\<exists>n. le32 f 4 = Some n" "\<exists>n. le16 f 4 = Some n" "\<exists>n. le16 f 6 = Some n" "\<exists>n. le24 f 8 = Some n"
      using assms by (simp_all add: le32_eq le24_eq le16_pair16)
    then show ?thesis using assms
      by (auto simp: fch_vars_def var_sof_def var_sack_def var_beacon_def var_coord_def num_def flag_def p u8_Some
          get_tei_def tei_pair_hi_lo_def getd_def numeric_def zero_def)
  qed
  obtain n cs where n: "le24 f 1 = Some n" "le24 f 13 = Some cs" using le by auto
  obtain v where v: "fch_vars (rd f 0 AND 7) f = Some v" "numeric (getd v ''teis'' zero)" "numeric (getd v ''neighbor_nid'' zero)"
    using vars by blast
  have "\<exists>h. parse_fch f = Inr h \<and> fch_delimiter h = rd f 0 AND 7 \<and> fch_variable h = v
      \<and> set (fch_warnings h) \<subseteq> range Network_Type"
    using assms v by (auto simp: parse_fch_def p n n(1) [unfolded One_nat_def] Let_def)
  then show ?thesis using that v by auto
qed

definition region_of :: "bytes \<Rightarrow> bytes" where
  "region_of data = take (length data - 40) (drop 36 data)"

lemma parse_gw_returns:
  assumes "36 \<le> length data"
  obtains g where "parse_gw_frame data = Inr g" "gw_fch g = py_slice data 20 36" "gw_region g = region_of data"
    "set (gw_warnings g) \<subseteq> {Sack_Payload}"
proof -
  let ?f = "py_slice data 20 36"
  have "u8 ?f 0 = Some (rd ?f 0)" using assms by (simp add: u8_Some slice_simps)
  moreover obtain n where "le24 ?f 1 = Some n" using assms by (simp add: le24_eq slice_simps)
  moreover have "length data - 36 - 4 = length data - 40" by simp
  ultimately have "\<exists>g. parse_gw_frame data = Inr g \<and> gw_fch g = ?f \<and> gw_region g = region_of data
      \<and> set (gw_warnings g) \<subseteq> {Sack_Payload}"
    using assms by (auto simp: parse_gw_frame_def long_enough_def Let_def region_of_def GW_HDR_SIZE_def
      FCH_SIZE_def GW_TAIL_SIZE_def)
  then show ?thesis using that by blast
qed

text \<open>The frames whose association confirmation could not be read.\<close>

definition confirmation_cut :: "bytes \<Rightarrow> bool" where
  "confirmation_cut region =
     (case decode_sof region of
        (_, _, Some g, _) \<Rightarrow> mmtype g = 1 \<and> table70 (drop 4 (mgmt_raw g)) = None
      | _ \<Rightarrow> False)"

lemma parse_mgmt_parts:
  assumes "parse_mgmt m = Inr g"
  shows "mgmt_raw g = m" "set (mgmt_warnings g) \<subseteq> {Table_Failed}"
    "mgmt_warnings g \<noteq> [] \<longleftrightarrow> (\<exists>h. handler (mmtype g) = Some h \<and> h (drop 4 m) = None)"
  using assms by (auto simp: parse_mgmt_def Let_def split: if_splits option.splits)

lemma parse_mgmt_raw:
  assumes "parse_mgmt m = Inr g" "mmtype g = 1"
  shows "mgmt_warnings g \<noteq> [] \<longleftrightarrow> table70 (drop 4 (mgmt_raw g)) = None"
proof -
  have "handler 1 = Some table70" by (simp add: handler_def)
  then show ?thesis using parse_mgmt_parts [OF assms(1)] assms(2) by simp
qed

lemma sof_events:
  assumes "decode_sof region = (mac, m, g, ws)" "fch_delimiter f = 1"
  shows "(returns (extract_events f mac m g None) \<longleftrightarrow> \<not> confirmation_cut region)
    \<and> (confirmation_cut region \<longrightarrow> extract_events f mac m g None = Inl TypeError)
    \<and> Single_Hop \<notin> set ws \<and> Address_Cut \<notin> set ws"
proof (cases g)
  case None
  then show ?thesis
    using assms
    by (auto simp: extract_events_def confirmation_cut_def decode_sof_def Let_def split: sum.splits if_splits option.splits)
next
  case (Some x)
  obtain h where h: "parse_mac_header region = Inr h"
    using assms Some by (cases "parse_mac_header region") (auto simp: decode_sof_def)
  define m' where "m' = extract_msdu region h"
  have p: "parse_mac_header region = Inr h" "mac = Some h" "m = Some m'" "msdu_type h = 0"
      "parse_mgmt (msdu_data m') = Inr x" "set ws \<subseteq> {Payload_Cut, Icv_Failed} \<union> set (mgmt_warnings x)"
    using assms Some h by (auto simp: decode_sof_def Let_def m'_def split: sum.splits if_splits)
  have "extract_events f mac m g None = mgmt_events (mmtype x) (teis h) (teid h) (mgmt_fields x)"
    using assms(2) p Some by (simp add: extract_events_def)
  moreover have "confirmation_cut region \<longleftrightarrow> mmtype x = 1 \<and> mgmt_warnings x \<noteq> []"
    using parse_mgmt_raw [OF p(5)] assms(1) Some by (auto simp: confirmation_cut_def)
  moreover have "Single_Hop \<notin> set ws" "Address_Cut \<notin> set ws"
    using p(6) parse_mgmt_parts(2) [OF p(5)] by auto
  ultimately show ?thesis
    using mgmt_message_events [OF p(5)] by simp
qed

lemma parse_items_warnings:
  "Single_Hop \<notin> set (snd (parse_items n c off)) \<and> Address_Cut \<notin> set (snd (parse_items n c off))"
  by (induction n arbitrary: off) (simp_all add: Let_def case_prod_beta)

lemma beacon_warnings:
  "parse_beacon c v = Inr b \<Longrightarrow> Single_Hop \<notin> set (bcn_warnings b) \<and> Address_Cut \<notin> set (bcn_warnings b)"
  using parse_items_warnings [of "rd c 20" c 21]
  by (auto simp: parse_beacon_def Let_def case_prod_beta split: if_splits)

lemma payload_events:
  assumes "decode_payload d region = (mac, m, g, b, ws)" "fch_delimiter f = d"
    "numeric (getd (fch_variable f) ''teis'' zero)" "numeric (getd (fch_variable f) ''neighbor_nid'' zero)"
  shows "(returns (extract_events f mac m g b) \<longleftrightarrow> \<not> (d = 1 \<and> confirmation_cut region))
    \<and> (d = 1 \<and> confirmation_cut region \<longrightarrow> extract_events f mac m g b = Inl TypeError)
    \<and> Single_Hop \<notin> set ws \<and> Address_Cut \<notin> set ws"
proof (cases "d = 1")
  case True
  have empty: "\<not> confirmation_cut []" by (simp add: confirmation_cut_def decode_sof_def parse_mac_header_def)
  show ?thesis
  proof (cases "region = []")
    case True
    with \<open>d = 1\<close> assms(1,2) empty show ?thesis by (auto simp: decode_payload_def extract_events_def)
  next
    case False
    with \<open>d = 1\<close> assms(1) have "decode_sof region = (mac, m, g, ws)" "b = None"
      by (auto simp: decode_payload_def split: prod.splits)
    then show ?thesis using sof_events [of region mac m g ws f] \<open>d = 1\<close> assms(2) by simp
  qed
next
  case False
  obtain n where n: "getd (fch_variable f) ''teis'' zero = PInt n" using assms(3) by (auto simp: numeric_def)
  have mac: "mac = None" using False assms(1) by (auto simp: decode_payload_def split: sum.splits if_splits)
  have ws: "Single_Hop \<notin> set ws" "Address_Cut \<notin> set ws"
    using False assms(1) beacon_warnings by (auto simp: decode_payload_def split: sum.splits if_splits)
  have "returns (extract_events f mac m g b)"
    using False assms(2,4) by (auto simp: extract_events_def mac n Let_def base_of_returns split: nat.splits option.splits)
  then show ?thesis using False ws by simp
qed

definition raises_on :: "bytes \<Rightarrow> bool" where
  "raises_on data \<longleftrightarrow> rd data 20 AND 7 = 1 \<and> confirmation_cut (region_of data)"

lemma strip_gw_length: "strip_gw raw = Inr data \<Longrightarrow> 36 \<le> length data"
  by (auto simp: strip_gw_def long_enough_def GW_HDR_SIZE_def FCH_SIZE_def Let_def split: if_splits)

lemma strip_gw_error: "strip_gw raw = Inl e \<Longrightarrow> e = ValueError"
  by (auto simp: strip_gw_def long_enough_def Let_def split: if_splits)

lemma decode_stripped_cases:
  assumes "36 \<le> length data"
  shows "if raises_on data then decode_stripped data = Inl TypeError
    else \<exists>f. decode_stripped data = Inr f \<and> Single_Hop \<notin> set (df_warnings f) \<and> Address_Cut \<notin> set (df_warnings f)
      \<and> df_mac f = fst (decode_payload (rd data 20 AND 7) (region_of data))"
proof -
  obtain g where g: "parse_gw_frame data = Inr g" "gw_fch g = py_slice data 20 36" "gw_region g = region_of data"
    "set (gw_warnings g) \<subseteq> {Sack_Payload}"
    using parse_gw_returns [OF assms] .
  have "length (gw_fch g) = 16" using assms by (simp add: g(2) slice_simps)
  then obtain f where f: "parse_fch (gw_fch g) = Inr f" "fch_delimiter f = rd (gw_fch g) 0 AND 7"
    "numeric (getd (fch_variable f) ''teis'' zero)" "numeric (getd (fch_variable f) ''neighbor_nid'' zero)"
    "set (fch_warnings f) \<subseteq> range Network_Type"
    using parse_fch_returns [of "gw_fch g"] by blast
  have d: "fch_delimiter f = rd data 20 AND 7"
    using assms by (simp add: f(2) g(2) rd_def py_slice_def)
  obtain mac m mg b ws where p: "decode_payload (fch_delimiter f) (region_of data) = (mac, m, mg, b, ws)"
    by (metis prod_cases5)
  note e = payload_events [OF p refl f(3,4)]
  have w: "Single_Hop \<notin> set (gw_warnings g @ fch_warnings f @ ws)" "Address_Cut \<notin> set (gw_warnings g @ fch_warnings f @ ws)"
    using e g(4) f(5) by auto
  have run: "decode_stripped data = andThen (extract_events f mac m mg b) (\<lambda>evs.
      Inr \<lparr>df_gw = g, df_fch = f, df_mac = mac, df_msdu = m, df_mgmt = mg, df_beacon = b,
        df_events = evs, df_warnings = gw_warnings g @ fch_warnings f @ ws\<rparr>)"
    by (simp add: decode_stripped_def g(1,3) f(1) p)
  show ?thesis
  proof (cases "raises_on data")
    case True
    then show ?thesis using e d by (simp add: run raises_on_def)
  next
    case False
    then obtain evs where "extract_events f mac m mg b = Inr evs"
      using e d by (auto simp: raises_on_def returns_def)
    then show ?thesis using False w p d by (simp add: run)
  qed
qed

text \<open>C20. Every received frame is decoded, whatever its bytes, except two kinds: a frame shorter
than its fixed headers is refused with a ValueError, and a data frame that carries an association
confirmation whose table is too short ends in a TypeError (the table falls back to plain bytes and
the event then formats a station number that is not there).\<close>

theorem decode_returns:
  "(decode_frame raw = Inl ValueError \<longleftrightarrow> (\<nexists>data. strip_gw raw = Inr data))
   \<and> (decode_frame raw = Inl TypeError \<longleftrightarrow> (\<exists>data. strip_gw raw = Inr data \<and> raises_on data))
   \<and> ((\<exists>f. decode_frame raw = Inr f) \<longleftrightarrow> (\<exists>data. strip_gw raw = Inr data \<and> \<not> raises_on data))"
proof (cases "strip_gw raw")
  case (Inl e)
  then show ?thesis using strip_gw_error [OF Inl] by (simp add: decode_frame_def)
next
  case (Inr data)
  then show ?thesis
    using decode_stripped_cases [OF strip_gw_length [OF Inr]]
    by (cases "raises_on data") (auto simp: decode_frame_def)
qed

text \<open>Such a frame: an association confirmation of no more than its message number.\<close>

definition short_confirmation :: bytes where
  "short_confirmation = replicate 20 0 @ [1, 1, 0, 0] @ replicate 12 0
     @ [0, 0, 0, 0, 0, 0, 0, 0, 4, 0, 0, 0, 0, 0, 0, 0] @ [1, 0, 0, 0] @ [0, 0, 0, 0]"

lemma short_confirmation_raises: "decode_frame short_confirmation = Inl TypeError"
proof -
  have "raises_on short_confirmation" by code_simp
  moreover have "strip_gw short_confirmation = Inr short_confirmation" by code_simp
  ultimately show ?thesis
    using decode_stripped_cases [OF strip_gw_length, of short_confirmation short_confirmation]
    by (simp add: decode_frame_def)
qed

text \<open>The warnings of the MAC header never reach the decoded frame's: a single-hop
frame, whose header the source says has another layout, is read by the standard layout without any
notice, and so is a header whose announced addresses are cut off.\<close>

theorem header_warnings_lost:
  assumes "decode_frame raw = Inr f"
  shows "Single_Hop \<notin> set (df_warnings f) \<and> Address_Cut \<notin> set (df_warnings f)"
proof (cases "strip_gw raw")
  case (Inl e)
  then show ?thesis using assms by (simp add: decode_frame_def)
next
  case (Inr data)
  then show ?thesis
    using decode_stripped_cases [OF strip_gw_length [OF Inr]] assms
    by (cases "raises_on data") (auto simp: decode_frame_def)
qed

text \<open>A frame of version 1 with the address mark set and no addresses.\<close>

definition single_hop_frame :: bytes where
  "single_hop_frame = replicate 20 0 @ [1, 1, 0, 0] @ replicate 12 0
     @ [1, 0, 0, 0, 0, 0, 0, 49, 0, 0, 0, 8, 0, 0, 0, 0] @ [0, 0, 0, 0]"

lemma header_warnings_lost_witness:
  "\<exists>f h. decode_frame single_hop_frame = Inr f \<and> df_mac f = Some h \<and> mac_warnings h = [Single_Hop, Address_Cut]
    \<and> Single_Hop \<notin> set (df_warnings f) \<and> Address_Cut \<notin> set (df_warnings f)"
proof -
  have strip: "strip_gw single_hop_frame = Inr single_hop_frame" "\<not> raises_on single_hop_frame" by code_simp+
  have mac: "map_option mac_warnings (fst (decode_payload (rd single_hop_frame 20 AND 7) (region_of single_hop_frame)))
      = Some [Single_Hop, Address_Cut]"
    by code_simp
  obtain f where f: "decode_frame single_hop_frame = Inr f"
    "df_mac f = fst (decode_payload (rd single_hop_frame 20 AND 7) (region_of single_hop_frame))"
    using decode_stripped_cases [OF strip_gw_length [OF strip(1)]] strip by (auto simp: decode_frame_def)
  then show ?thesis using mac header_warnings_lost [OF f(1)] by auto
qed

end
