(* ===== verification/Axdr.thy ===== *)
theory Axdr
  imports Prelude
begin

text \<open>
  The recursive reader of A-XDR data, \<open>_parse_data\<close> of
  \<open>libs/parser_lib/adapters/adapter_698/__init__.py\<close>. It works on the buffer from the
  current offset on: \<open>data[offset + k]\<close> is element k, and \<open>offset + k < n\<close> says that there is
  one. A result is a value and the number of bytes it took; \<open>None\<close> is the IndexError that one
  of the branches raises. The recursion limit of the Python interpreter is not modelled.

  Against it stands an encoder of well-formed data, with the tags and lengths of the standard.
\<close>

section \<open>The reader\<close>

definition int_be :: "bytes \<Rightarrow> nat" where
  "int_be bs = foldl (\<lambda>acc b. acc * 256 + unat b) 0 bs"

text \<open>\<open>int.from_bytes(bs, 'big', signed=s)\<close>\<close>

definition from_be :: "bool \<Rightarrow> bytes \<Rightarrow> int" where
  "from_be s bs =
     (if s \<and> 256 ^ length bs \<le> 2 * int (int_be bs)
      then int (int_be bs) - 256 ^ length bs else int (int_be bs))"

text \<open>Whether \<open>bytes.decode('utf-8')\<close> accepts a string.\<close>

definition cont :: "byte \<Rightarrow> nat \<Rightarrow> nat \<Rightarrow> bool" where
  "cont b lo hi \<longleftrightarrow> lo \<le> unat b \<and> unat b \<le> hi"

fun utf8_ok :: "bytes \<Rightarrow> bool" where
  "utf8_ok [] = True"
| "utf8_ok (a # bs) =
     (if unat a < 0x80 then utf8_ok bs
      else if cont a 0xC2 0xDF then
        (case bs of b # r \<Rightarrow> cont b 0x80 0xBF \<and> utf8_ok r | _ \<Rightarrow> False)
      else if cont a 0xE0 0xEF then
        (case bs of b # c # r \<Rightarrow>
             cont b (if a = 0xE0 then 0xA0 else 0x80) (if a = 0xED then 0x9F else 0xBF)
             \<and> cont c 0x80 0xBF \<and> utf8_ok r
         | _ \<Rightarrow> False)
      else if cont a 0xF0 0xF4 then
        (case bs of b # c # d # r \<Rightarrow>
             cont b (if a = 0xF0 then 0x90 else 0x80) (if a = 0xF4 then 0x8F else 0xBF)
             \<and> cont c 0x80 0xBF \<and> cont d 0x80 0xBF \<and> utf8_ok r
         | _ \<Rightarrow> False)
      else False)"

datatype axdr =
    AEmpty
  | ANull
  | ARaw
  | ABool bool
  | AInt int
  | AFloat32
  | AFloat64
  | AHex bytes
  | ATime nat nat nat nat nat nat
  | AAscii bytes
  | AUtf8 bytes
  | AItems "axdr list"
  | ARoad bytes "bytes list"

text \<open>A value of fixed size behind its tag: \<open>"<raw>"\<close> and one byte where it is cut short.\<close>

definition fixed :: "bytes \<Rightarrow> nat \<Rightarrow> (bytes \<Rightarrow> axdr) \<Rightarrow> (axdr \<times> nat) option" where
  "fixed bs k f = Some (if k < length bs then (f (py_slice bs 1 (k + 1)), k + 1) else (ARaw, 1))"

text \<open>A value behind tag and length byte.\<close>

definition counted :: "bytes \<Rightarrow> (bytes \<Rightarrow> axdr) \<Rightarrow> (axdr \<times> nat) option" where
  "counted bs f =
     Some (if length bs \<le> 1 then (ARaw, 1)
           else let ln = unat (bs ! 1) in
             if 1 + ln < length bs then (f (py_slice bs 2 (2 + ln)), 2 + ln) else (ARaw, 1))"

definition time_s :: "bytes \<Rightarrow> axdr" where
  "time_s b = ATime (push_bit 8 (unat (b ! 0)) OR unat (b ! 1)) (unat (b ! 2)) (unat (b ! 3))
     (unat (b ! 4)) (unat (b ! 5)) (unat (b ! 6))"

definition parse_road :: "bytes \<Rightarrow> (axdr \<times> nat) option" where
  "parse_road bs =
     (if length bs \<le> 1 then Some (ARaw, 1)
      else do { l \<leftarrow> py_at bs 5;
        let ln = unat l;
        let rows = (if 5 + 4 * ln < length bs
                    then map (\<lambda>i. py_slice bs (6 + 4 * i) (10 + 4 * i)) [0..<ln] else []);
        Some (ARoad (py_slice bs 1 5) rows, 6 + 4 * ln) })"

definition parse_leaf :: "bytes \<Rightarrow> (axdr \<times> nat) option" where
  "parse_leaf bs =
     (let tag = unat (hd bs) in
      if tag = 0 then Some (ANull, 1)
      else if tag = 3 then fixed bs 1 (\<lambda>v. ABool (bit (v ! 0) 0))
      else if tag = 5 then fixed bs 4 (\<lambda>v. AInt (from_be True v))
      else if tag = 6 then fixed bs 4 (\<lambda>v. AInt (from_be False v))
      else if tag = 15 then fixed bs 1 (\<lambda>v. AInt (from_be True v))
      else if tag = 16 then fixed bs 2 (\<lambda>v. AInt (from_be True v))
      else if tag = 17 then fixed bs 1 (\<lambda>v. AInt (int (unat (v ! 0))))
      else if tag = 18 then fixed bs 2 (\<lambda>v. AInt (from_be False v))
      else if tag = 20 then fixed bs 8 (\<lambda>v. AInt (from_be True v))
      else if tag = 21 then fixed bs 8 (\<lambda>v. AInt (from_be False v))
      else if tag = 22 then fixed bs 1 (\<lambda>v. AInt (int (unat (v ! 0))))
      else if tag = 23 then fixed bs 4 (\<lambda>v. AFloat32)
      else if tag = 24 then fixed bs 8 (\<lambda>v. AFloat64)
      else if tag = 25 then fixed bs 10 AHex
      else if tag = 26 then fixed bs 5 AHex
      else if tag = 27 then fixed bs 3 AHex
      else if tag = 28 then fixed bs 7 time_s
      else if tag = 9 then counted bs AHex
      else if tag = 10 then counted bs (\<lambda>v. if \<forall>b \<in> set v. unat b < 128 then AAscii v else AHex v)
      else if tag = 12 then counted bs (\<lambda>v. if utf8_ok v then AUtf8 v else AHex v)
      else if tag = 4 then counted bs AHex
      else if tag = 80 then fixed bs 2 AHex
      else if tag = 81 then fixed bs 4 AHex
      else if tag = 82 then parse_road bs
      else Some (AHex (drop 1 bs), length bs))"

function (sequential) parse_data :: "bytes \<Rightarrow> (axdr \<times> nat) option"
  and parse_items :: "nat \<Rightarrow> bytes \<Rightarrow> (axdr list \<times> nat) option" where
  "parse_data [] = Some (AEmpty, 0)"
| "parse_data (t # rest) =
     (if t = 1 \<or> t = 2 then
        (case rest of
           [] \<Rightarrow> Some (ARaw, 1)
         | cnt # body \<Rightarrow> do { (vs, c) \<leftarrow> parse_items (unat cnt) body; Some (AItems vs, 2 + c) })
      else parse_leaf (t # rest))"
| "parse_items 0 bs = Some ([], 0)"
| "parse_items (Suc n) bs =
     do { (v, c) \<leftarrow> parse_data bs;
          (vs, c') \<leftarrow> parse_items n (drop c bs);
          Some (v # vs, c + c') }"
  by pat_completeness auto

termination
  by (relation "measures [\<lambda>x. case x of Inl bs \<Rightarrow> length bs | Inr (n, bs) \<Rightarrow> length bs,
        \<lambda>x. case x of Inl bs \<Rightarrow> 0 | Inr (n, bs) \<Rightarrow> Suc n]") auto

section \<open>The encoder\<close>

fun be_bytes :: "nat \<Rightarrow> nat \<Rightarrow> bytes" where
  "be_bytes 0 n = []"
| "be_bytes (Suc k) n = be_bytes k (n div 256) @ [of_nat (n mod 256)]"

datatype xdata =
    XNull
  | XBool bool
  | XInt nat int
  | XUint nat nat
  | XEnum nat
  | XOctets bytes
  | XText bytes
  | XTimeS nat nat nat nat nat nat
  | XOad bytes
  | XArray "xdata list"
  | XStruct "xdata list"

text \<open>The tags of the signed and unsigned integers of 1, 2, 4 and 8 bytes.\<close>

definition int_tag :: "nat \<Rightarrow> byte" where
  "int_tag k = (if k = 1 then 15 else if k = 2 then 16 else if k = 4 then 5 else 20)"

definition uint_tag :: "nat \<Rightarrow> byte" where
  "uint_tag k = (if k = 1 then 17 else if k = 2 then 18 else if k = 4 then 6 else 21)"

fun encode_x :: "xdata \<Rightarrow> bytes" where
  "encode_x XNull = [0]"
| "encode_x (XBool b) = [3, if b then 1 else 0]"
| "encode_x (XInt k v) = int_tag k # be_bytes k (nat (v mod 256 ^ k))"
| "encode_x (XUint k v) = uint_tag k # be_bytes k v"
| "encode_x (XEnum v) = [22, of_nat v]"
| "encode_x (XOctets bs) = [9, of_nat (length bs)] @ bs"
| "encode_x (XText bs) = [10, of_nat (length bs)] @ bs"
| "encode_x (XTimeS y mo d h mi s) =
     28 # be_bytes 2 y @ [of_nat mo, of_nat d, of_nat h, of_nat mi, of_nat s]"
| "encode_x (XOad bs) = 81 # bs"
| "encode_x (XArray xs) = [1, of_nat (length xs)] @ concat (map encode_x xs)"
| "encode_x (XStruct xs) = [2, of_nat (length xs)] @ concat (map encode_x xs)"

fun value_x :: "xdata \<Rightarrow> axdr" where
  "value_x XNull = ANull"
| "value_x (XBool b) = ABool b"
| "value_x (XInt k v) = AInt v"
| "value_x (XUint k v) = AInt (int v)"
| "value_x (XEnum v) = AInt (int v)"
| "value_x (XOctets bs) = AHex bs"
| "value_x (XText bs) = AAscii bs"
| "value_x (XTimeS y mo d h mi s) = ATime y mo d h mi s"
| "value_x (XOad bs) = AHex bs"
| "value_x (XArray xs) = AItems (map value_x xs)"
| "value_x (XStruct xs) = AItems (map value_x xs)"

fun wf_x :: "xdata \<Rightarrow> bool" where
  "wf_x (XInt k v) = (k \<in> {1, 2, 4, 8} \<and> - (256 ^ k) \<le> 2 * v \<and> 2 * v < 256 ^ k)"
| "wf_x (XUint k v) = (k \<in> {1, 2, 4, 8} \<and> v < 256 ^ k)"
| "wf_x (XEnum v) = (v < 256)"
| "wf_x (XOctets bs) = (length bs < 256)"
| "wf_x (XText bs) = (length bs < 256 \<and> (\<forall>b \<in> set bs. unat b < 128))"
| "wf_x (XTimeS y mo d h mi s) = (y < 65536 \<and> mo < 256 \<and> d < 256 \<and> h < 256 \<and> mi < 256 \<and> s < 256)"
| "wf_x (XOad bs) = (length bs = 4)"
| "wf_x (XArray xs) = (length xs < 256 \<and> (\<forall>x \<in> set xs. wf_x x))"
| "wf_x (XStruct xs) = (length xs < 256 \<and> (\<forall>x \<in> set xs. wf_x x))"
| "wf_x _ = True"

section \<open>What is encoded is read back\<close>

lemma length_be_bytes [simp]: "length (be_bytes k n) = k"
  by (induction k arbitrary: n) auto

lemma int_be_snoc: "int_be (xs @ [b]) = int_be xs * 256 + unat b"
  by (simp add: int_be_def)

lemma int_be_be_bytes: "n < 256 ^ k \<Longrightarrow> int_be (be_bytes k n) = n"
proof (induction k arbitrary: n)
  case 0
  then show ?case by (simp add: int_be_def)
next
  case (Suc k)
  then have "n div 256 < 256 ^ k" by (simp add: less_mult_imp_div_less mult.commute)
  from Suc.IH [OF this] show ?case
    by (simp only: be_bytes.simps int_be_snoc unat_of_nat_byte mod_mod_trivial) simp
qed

lemma from_be_unsigned: "n < 256 ^ k \<Longrightarrow> from_be False (be_bytes k n) = int n"
  by (simp add: from_be_def int_be_be_bytes)

lemma from_be_signed:
  assumes "- (256 ^ k) \<le> 2 * v" "2 * v < 256 ^ k"
  shows "from_be True (be_bytes k (nat (v mod 256 ^ k))) = v"
proof -
  define m :: int where "m = 256 ^ k"
  have m: "0 < m" by (simp add: m_def)
  have "nat (v mod m) < nat m" using m by (simp add: nat_less_eq_zless)
  then have "nat (v mod m) < 256 ^ k" by (simp add: m_def nat_power_eq)
  then have b: "int (int_be (be_bytes k (nat (v mod m)))) = v mod m"
    using m by (simp add: int_be_be_bytes)
  have e: "v mod m = (if v < 0 then v + m else v)"
  proof (cases "v < 0")
    case True
    then have "(v + m) mod m = v + m" using assms m unfolding m_def [symmetric]
      by (intro mod_pos_pos_trivial) linarith+
    then show ?thesis using True by simp
  next
    case False
    then show ?thesis using assms m unfolding m_def [symmetric] by (simp add: mod_pos_pos_trivial)
  qed
  show ?thesis
    using assms m unfolding from_be_def length_be_bytes m_def [symmetric] unfolding b unfolding e
    by (auto split: if_splits)
qed

lemma fixed_append: "length v = k \<Longrightarrow> fixed (t # v @ rest) k f = Some (f v, k + 1)"
  by (simp add: fixed_def py_slice_def)

lemma counted_append:
  "length v < 256 \<Longrightarrow> counted (t # of_nat (length v) # v @ rest) f = Some (f v, 2 + length v)"
  by (simp add: counted_def Let_def unat_of_nat_byte py_slice_def)

lemma parse_int: "k \<in> {1, 2, 4, 8} \<Longrightarrow> length v = k \<Longrightarrow>
   parse_data (int_tag k # v @ rest) = Some (AInt (from_be True v), k + 1)"
  by (auto simp: int_tag_def parse_leaf_def fixed_append)

lemma from_be_one: "length v = 1 \<Longrightarrow> from_be False v = int (unat (v ! 0))"
  by (auto simp: from_be_def int_be_def length_Suc_conv)

lemma parse_uint: "k \<in> {1, 2, 4, 8} \<Longrightarrow> length v = k \<Longrightarrow>
   parse_data (uint_tag k # v @ rest) = Some (AInt (from_be False v), k + 1)"
  by (auto simp: uint_tag_def parse_leaf_def fixed_append from_be_one)

lemma time_s_encoded:
  assumes "y < 65536" "mo < 256" "d < 256" "h < 256" "mi < 256" "s < 256"
  shows "time_s (be_bytes 2 y @ [of_nat mo, of_nat d, of_nat h, of_nat mi, of_nat s]) = ATime y mo d h mi s"
proof -
  have b: "be_bytes 2 y = [of_nat (y div 256 mod 256), of_nat (y mod 256)]"
    by (simp add: numeral_2_eq_2)
  have "push_bit 8 (y div 256) OR y mod 256 = y"
    using or_push_bit_add [of "y mod 256" 8 "y div 256"] by (simp add: or.commute)
  then have "push_bit 8 (unat (of_nat (y div 256 mod 256) :: byte)) OR unat (of_nat (y mod 256) :: byte) = y"
    using assms(1) by (simp only: unat_of_nat_byte mod_mod_trivial) (simp add: div_less_iff_less_mult)
  then show ?thesis
    unfolding time_s_def b using assms(2-6) by (simp add: unat_of_nat_byte)
qed

lemma parse_items_encoded:
  "(\<And>x rest. x \<in> set xs \<Longrightarrow> parse_data (encode_x x @ rest) = Some (value_x x, length (encode_x x))) \<Longrightarrow>
     parse_items (length xs) (concat (map encode_x xs) @ rest)
       = Some (map value_x xs, length (concat (map encode_x xs)))"
  by (induction xs) auto

lemma parse_encoded: "wf_x x \<Longrightarrow> parse_data (encode_x x @ rest) = Some (value_x x, length (encode_x x))"
proof (induction x arbitrary: rest)
  case (XInt k v)
  then show ?case using parse_int [of k "be_bytes k (nat (v mod 256 ^ k))" rest]
    by (simp add: from_be_signed)
next
  case (XUint k v)
  then show ?case using parse_uint [of k "be_bytes k v" rest] by (simp add: from_be_unsigned)
next
  case (XEnum v)
  then have "int (unat (of_nat v :: byte)) = int v" by (simp only: unat_of_nat_byte) simp
  then show ?case using fixed_append [of "[of_nat v]" 1 22 rest]
    by (simp add: parse_leaf_def)
next
  case (XBool b)
  then show ?case using fixed_append [of "[if b then 1 else 0]" 1 3 rest]
    by (simp add: parse_leaf_def)
next
  case (XOctets bs)
  then show ?case using counted_append [of bs 9 rest] by (simp add: parse_leaf_def)
next
  case (XText bs)
  then show ?case using counted_append [of bs 10 rest] by (simp add: parse_leaf_def)
next
  case (XTimeS y mo d h mi s)
  then show ?case
    using fixed_append [of "be_bytes 2 y @ [of_nat mo, of_nat d, of_nat h, of_nat mi, of_nat s]" 7 28 rest time_s]
    by (simp add: parse_leaf_def time_s_encoded)
next
  case (XOad bs)
  then show ?case using fixed_append [of bs 4 81 rest] by (simp add: parse_leaf_def)
next
  case (XArray xs)
  then show ?case using parse_items_encoded [of xs rest] by (simp add: unat_of_nat_byte)
next
  case (XStruct xs)
  then show ?case using parse_items_encoded [of xs rest] by (simp add: unat_of_nat_byte)
qed (simp add: parse_leaf_def)



section \<open>Truncated and hostile data\<close>

text \<open>A reader's answer: a value and a number of bytes, at least one and no more than there are.\<close>

definition sound_read :: "bytes \<Rightarrow> (axdr \<times> nat) option \<Rightarrow> bool" where
  "sound_read bs r \<longleftrightarrow> (\<exists>v c. r = Some (v, c) \<and> 0 < c \<and> c \<le> length bs)"

lemma sound_if: "sound_read bs x \<Longrightarrow> (\<not> b \<Longrightarrow> sound_read bs y) \<Longrightarrow> sound_read bs (if b then x else y)"
  by simp

lemma sound_parts:
  assumes "bs \<noteq> []"
  shows "sound_read bs (fixed bs k f)" "sound_read bs (counted bs f)" "sound_read bs (Some (v, 1))"
    "sound_read bs (Some (v, length bs))"
  using assms by (cases bs; auto simp: sound_read_def fixed_def counted_def Let_def)+

lemma parse_leaf_total:
  assumes "hd bs \<noteq> 82" "bs \<noteq> []"
  shows "sound_read bs (parse_leaf bs)"
proof -
  have "unat (hd bs) \<noteq> 82" using assms(1) by (simp add: word_unat_eq_iff)
  then show ?thesis
    unfolding parse_leaf_def Let_def
    by (simp only: if_False) (intro sound_if sound_parts [OF assms(2)])
qed

lemma parse_total:
  "82 \<notin> set bs \<Longrightarrow> \<exists>v c. parse_data bs = Some (v, c) \<and> c \<le> length bs \<and> (bs \<noteq> [] \<longrightarrow> 0 < c)"
  "82 \<notin> set bs \<Longrightarrow> \<exists>vs c. parse_items n bs = Some (vs, c) \<and> c \<le> length bs \<and> length vs = n"
proof (induction bs and n bs rule: parse_data_parse_items.induct)
  case (2 t rest)
  show ?case
  proof (cases "t = 1 \<or> t = 2")
    case True
    with 2 show ?thesis by (cases rest) fastforce+
  next
    case False
    with 2 parse_leaf_total [of "t # rest"] show ?thesis by (auto simp: sound_read_def)
  qed
next
  case (4 n bs)
  from "4.IH"(1) "4.prems" obtain v c where v: "parse_data bs = Some (v, c)" "c \<le> length bs" by blast
  have "82 \<notin> set (drop c bs)" using "4.prems" set_drop_subset by fastforce
  from "4.IH"(2) [OF v(1) refl this] obtain vs c' where
    "parse_items n (drop c bs) = Some (vs, c')" "c' \<le> length (drop c bs)" "length vs = n" by blast
  with v show ?case by auto
qed simp_all

text \<open>
  C8. On any bytes whatever, well formed or not, the reader returns and never reports
  more bytes than there are, as long as no byte is the tag 82 of a record descriptor.
\<close>

theorem axdr_total:
  assumes "82 \<notin> set bs"
  shows "\<exists>v c. parse_data bs = Some (v, c) \<and> c \<le> length bs \<and> (bs \<noteq> [] \<longrightarrow> 0 < c)"
  using assms by (rule parse_total(1))

theorem axdr_total_witness:
  "\<exists>v c. parse_data [1, 200, 9, 250, 1] = Some (v, c) \<and> c \<le> length [1, 200, 9, 250, 1 :: byte]
     \<and> ([1, 200, 9, 250, 1 :: byte] \<noteq> [] \<longrightarrow> 0 < c)"
  by (rule axdr_total) simp

text \<open>
  The exception: a record descriptor (tag 82) of two to five bytes makes
  the reader raise IndexError, and one whose rows are cut short is reported longer than the data.
  Every other tag answers a cut value with \<open>"<raw>"\<close> and one byte.
\<close>

theorem axdr_road_truncated:
  "parse_data [82, a] = None \<and> parse_data [82, a, b] = None \<and> parse_data [82, a, b, c] = None
   \<and> parse_data [82, a, b, c, d] = None
   \<and> parse_data [82, a, b, c, d, 3] = Some (ARoad [a, b, c, d] [], 18)
   \<and> list_all (\<lambda>t. parse_data [t] = Some (ARaw, 1))
     [1, 2, 3, 4, 5, 6, 9, 10, 12, 15, 16, 17, 18, 20, 21, 22, 23, 24, 25, 26, 27, 28, 80, 81]"
  by (simp add: parse_leaf_def parse_road_def py_at_def py_slice_def fixed_def counted_def)

end
