(* ===== verification/Resources.thy ===== *)
theory Resources
  imports Prelude "HOL-Library.AList" "HOL-Library.Char_ord" "HOL-Library.List_Lexorder"
begin

text \<open>
  Ownership of physical resources: the lease manager of a run
  (\<open>libs/test_automation/resource_lease.py\<close>) and the process-wide registry of serial ports
  (\<open>libs/shared/serial_resources.py\<close>). Both are dicts from keys to holders, here association
  lists in insertion order; each method is one transition, since the registry takes its lock and
  the lease manager is used by one thread.

  The locale \<open>exclusive_owner\<close> says what exclusive ownership means to those who rely on it:
  what one holder does neither gives nor takes anything from another. Both providers meet it.
\<close>

declare map_of_eq_Some_iff [simp del] Some_eq_map_of_iff [simp del]

section \<open>The contract\<close>

locale exclusive_owner =
  fixes init :: 's
    and ok :: "'s \<Rightarrow> bool"
    and holds :: "'s \<Rightarrow> 'h \<Rightarrow> 'k \<Rightarrow> bool"
    and act :: "'h \<Rightarrow> 's \<Rightarrow> 's \<Rightarrow> bool"
  assumes ok_init: "ok init"
    and ok_act: "ok s \<Longrightarrow> act h s s' \<Longrightarrow> ok s'"
    and one_holder: "ok s \<Longrightarrow> holds s h k \<Longrightarrow> holds s h' k \<Longrightarrow> h = h'"
    and act_frame: "ok s \<Longrightarrow> act h s s' \<Longrightarrow> h' \<noteq> h \<Longrightarrow> holds s' h' k = holds s h' k"
begin

inductive acts :: "'h set \<Rightarrow> 's \<Rightarrow> 's \<Rightarrow> bool" for H where
  acts_none: "acts H s s"
| acts_step: "h \<in> H \<Longrightarrow> act h s s' \<Longrightarrow> acts H s' s'' \<Longrightarrow> acts H s s''"

lemma acts_ok: "acts H s s' \<Longrightarrow> ok s \<Longrightarrow> ok s'"
  by (induction rule: acts.induct) (auto intro: ok_act)

lemma acts_frame: "acts H s s' \<Longrightarrow> ok s \<Longrightarrow> h \<notin> H \<Longrightarrow> holds s' h k = holds s h k"
proof (induction rule: acts.induct)
  case (acts_step h' s s' s'')
  then show ?case using act_frame [of s h' s' h k] ok_act by blast
qed simp

text \<open>While a holder does nothing, what it holds stays its own, whatever the others do.\<close>

lemma ownership_kept:
  assumes "ok s" "holds s h k" "acts (- {h}) s s'"
  shows "holds s' h k" and "h' \<noteq> h \<Longrightarrow> \<not> holds s' h' k"
proof -
  show h: "holds s' h k" using acts_frame [OF assms(3,1)] assms(2) by simp
  show "h' \<noteq> h \<Longrightarrow> \<not> holds s' h' k"
    using one_holder [OF acts_ok [OF assms(3,1)] h] by blast
qed

end

section \<open>Leases of a run\<close>

record lease =
  ls_type :: string
  ls_id :: string
  ls_holder :: string
  ls_shared :: bool

type_synonym lease_key = "string \<times> string"
type_synonym leases = "(lease_key \<times> lease list) list"

text \<open>\<open>self._leases.get(key, [])\<close>\<close>

definition leases_of :: "leases \<Rightarrow> lease_key \<Rightarrow> lease list" where
  "leases_of m k = (case map_of m k of None \<Rightarrow> [] | Some ls \<Rightarrow> ls)"

text \<open>The left value is the holder that the ResourceConflictError names.\<close>

definition acquire :: "lease_key \<Rightarrow> bool \<Rightarrow> string \<Rightarrow> leases \<Rightarrow> string + lease \<times> leases" where
  "acquire key shared holder m =
     (let existing = leases_of m key;
          new_lease = \<lparr>ls_type = fst key, ls_id = snd key, ls_holder = holder, ls_shared = shared\<rparr>
      in if existing \<noteq> [] \<and> (\<not> shared \<or> (\<exists>l \<in> set existing. \<not> ls_shared l))
         then Inl (ls_holder (hd existing))
         else Inr (new_lease, AList.update key (existing @ [new_lease]) m))"

definition release :: "lease_key \<Rightarrow> string \<Rightarrow> leases \<Rightarrow> leases" where
  "release key holder m =
     (let ls = leases_of m key in
      if ls = [] then m
      else let kept = filter (\<lambda>l. ls_holder l \<noteq> holder) ls in
      if kept \<noteq> [] then AList.update key kept m else AList.delete key m)"

definition list_leases :: "leases \<Rightarrow> lease list" where
  "list_leases m = concat (map snd m)"

definition is_held :: "lease_key \<Rightarrow> leases \<Rightarrow> bool" where
  "is_held key m \<longleftrightarrow> map_of m key \<noteq> None"

text \<open>The invariant: a key is present only with leases, and an exclusive lease is alone.\<close>

definition leases_ok :: "leases \<Rightarrow> bool" where
  "leases_ok m \<longleftrightarrow> distinct (map fst m)
     \<and> (\<forall>k. map_of m k \<noteq> Some []
            \<and> (\<forall>l \<in> set (leases_of m k). (ls_type l, ls_id l) = k)
            \<and> (\<forall>l \<in> set (leases_of m k). \<not> ls_shared l \<longrightarrow> leases_of m k = [l]))"

definition holds_excl :: "leases \<Rightarrow> string \<Rightarrow> lease_key \<Rightarrow> bool" where
  "holds_excl m h k \<longleftrightarrow> (\<exists>l \<in> set (leases_of m k). ls_holder l = h \<and> \<not> ls_shared l)"

text \<open>What a run can do with the manager in its own name.\<close>

inductive lease_act :: "string \<Rightarrow> leases \<Rightarrow> leases \<Rightarrow> bool" where
  act_acquire: "acquire k sh h m = Inr (l, m') \<Longrightarrow> lease_act h m m'"
| act_release: "release k h m = m' \<Longrightarrow> lease_act h m m'"

lemma leases_of_update [simp]:
  "leases_of (AList.update k ls m) k' = (if k' = k then ls else leases_of m k')"
  by (simp add: leases_of_def update_conv')

lemma leases_of_delete [simp]:
  "leases_of (AList.delete k m) k' = (if k' = k then [] else leases_of m k')"
  by (simp add: leases_of_def delete_conv')

lemma acquire_Inr:
  "acquire k sh h m = Inr (l, m') \<longleftrightarrow>
     (leases_of m k = [] \<or> sh \<and> (\<forall>x \<in> set (leases_of m k). ls_shared x))
     \<and> l = \<lparr>ls_type = fst k, ls_id = snd k, ls_holder = h, ls_shared = sh\<rparr>
     \<and> m' = AList.update k (leases_of m k @ [l]) m"
  by (auto simp: acquire_def Let_def)

lemma acquire_ok: "leases_ok m \<Longrightarrow> acquire k sh h m = Inr (l, m') \<Longrightarrow> leases_ok m'"
  by (auto simp: acquire_Inr leases_ok_def update_conv' distinct_update)

lemma leases_alone:
  "leases_ok m \<Longrightarrow> l \<in> set (leases_of m k) \<Longrightarrow> \<not> ls_shared l \<Longrightarrow> leases_of m k = [l]"
  by (simp only: leases_ok_def) blast

lemma leases_key: "leases_ok m \<Longrightarrow> l \<in> set (leases_of m k) \<Longrightarrow> (ls_type l, ls_id l) = k"
  by (simp only: leases_ok_def)

lemma release_ok: "leases_ok m \<Longrightarrow> leases_ok (release k h m)"
proof -
  assume ok: "leases_ok m"
  define ls where "ls = leases_of m k"
  define kept where "kept = filter (\<lambda>l. ls_holder l \<noteq> h) ls"
  have k: "\<forall>l \<in> set kept. \<not> ls_shared l \<longrightarrow> kept = [l]"
  proof (intro ballI impI)
    fix l assume l: "l \<in> set kept" "\<not> ls_shared l"
    then have h: "ls_holder l \<noteq> h" "l \<in> set ls" by (simp_all add: kept_def)
    then have "ls = [l]" using leases_alone [OF ok, of l k] l(2) by (simp add: ls_def)
    with h show "kept = [l]" by (simp add: kept_def)
  qed
  have t: "\<forall>l \<in> set kept. (ls_type l, ls_id l) = k"
    using leases_key [OF ok] by (simp add: kept_def ls_def)
  have "release k h m = (if ls = [] then m else if kept \<noteq> [] then AList.update k kept m else AList.delete k m)"
    by (simp add: release_def ls_def kept_def Let_def)
  with ok k t show ?thesis
    by (auto simp: leases_ok_def update_conv' delete_conv' distinct_update distinct_delete)
qed

lemma release_leases:
  "leases_of (release k h m) k' =
     (if k' = k then filter (\<lambda>l. ls_holder l \<noteq> h) (leases_of m k) else leases_of m k')"
  by (auto simp: release_def Let_def)

interpretation leases: exclusive_owner "[] :: leases" leases_ok holds_excl lease_act
proof unfold_locales
  show "leases_ok []" by (simp add: leases_ok_def leases_of_def)
next
  fix s h s'
  assume "leases_ok s" "lease_act h s s'"
  then show "leases_ok s'"
    by (auto elim!: lease_act.cases intro: acquire_ok release_ok)
next
  fix s h k h'
  assume "leases_ok s" "holds_excl s h k" "holds_excl s h' k"
  then obtain l l' where "leases_of s k = [l]" "ls_holder l = h" "leases_of s k = [l']" "ls_holder l' = h'"
    unfolding holds_excl_def by (metis leases_alone)
  then show "h = h'" by simp
next
  fix s h s' h' k
  assume "leases_ok s" "lease_act h s s'" "h' \<noteq> h"
  then show "holds_excl s' h' k = holds_excl s h' k"
    by (auto elim!: lease_act.cases simp: acquire_Inr holds_excl_def release_leases split: if_splits)
qed

lemma acts_leases_ok: "leases.acts H m m' \<Longrightarrow> leases_ok m \<Longrightarrow> leases_ok m'"
  by (rule leases.acts_ok)

text \<open>
  C13. A lease that was taken exclusively, from any state the manager can be in,
  stays alone on its resource through everything other holders do, and every request of another
  holder for that resource, shared or not, is refused with its holder named.
\<close>

theorem exclusive_lease:
  assumes "leases_ok m" "acquire k False h m = Inr (l, m1)" "leases.acts (- {h}) m1 m2"
  shows "leases_of m2 k = [l] \<and> acquire k sh h' m2 = Inl h"
proof -
  have ok1: "leases_ok m1" using acquire_ok assms(1,2) .
  have "holds_excl m1 h k" using assms(2) by (auto simp: acquire_Inr holds_excl_def)
  from leases.ownership_kept(1) [OF ok1 this assms(3)]
  obtain l' where l': "l' \<in> set (leases_of m2 k)" "ls_holder l' = h" "\<not> ls_shared l'"
    by (auto simp: holds_excl_def)
  from leases_alone [OF acts_leases_ok [OF assms(3) ok1] l'(1,3)] have e: "leases_of m2 k = [l']" .
  then have "acquire k sh h' m2 = Inl h" using l' by (simp add: acquire_def Let_def)
  moreover have "l' = l"
  proof (rule lease.equality)
    show "ls_type l' = ls_type l" "ls_id l' = ls_id l"
      using leases_key [OF acts_leases_ok [OF assms(3) ok1] l'(1)] assms(2) by (auto simp: acquire_Inr)
  qed (use assms(2) l' in \<open>simp_all add: acquire_Inr\<close>)
  ultimately show ?thesis using e by simp
qed

theorem exclusive_lease_witness:
  "\<exists>l m1. acquire (''serial_port'', ''COM19'') False ''run-1'' [] = Inr (l, m1)
    \<and> leases_of m1 (''serial_port'', ''COM19'') = [l]
    \<and> acquire (''serial_port'', ''COM19'') True ''run-2'' m1 = Inl ''run-1''"
proof -
  obtain l m1 where a: "acquire (''serial_port'', ''COM19'') False ''run-1'' [] = Inr (l, m1)"
    by (simp add: acquire_def leases_of_def Let_def)
  have "leases_ok []" by (simp add: leases_ok_def leases_of_def)
  from exclusive_lease [OF this a leases.acts_none, of True "''run-2''"] a show ?thesis by blast
qed

section \<open>Serial ports of the process\<close>

text \<open>\<open>casefold\<close> of the port names and identifiers, which are ASCII.\<close>

definition lower_char :: "char \<Rightarrow> char" where
  "lower_char c = (let n = (of_char c :: nat) in if 65 \<le> n \<and> n \<le> 90 then char_of (n + 32) else c)"

text \<open>\<open>text.replace(pat, "")\<close> for a pattern that is not empty.\<close>

function (sequential) remove_sub :: "string \<Rightarrow> string \<Rightarrow> string" where
  "remove_sub pat [] = []"
| "remove_sub pat (c # cs) =
     (if pat \<noteq> [] \<and> prefix pat (c # cs) then remove_sub pat (drop (length pat) (c # cs))
      else c # remove_sub pat cs)"
  by pat_completeness auto

termination
  by (relation "measure (\<lambda>(pat, s). length s)") auto

definition BACKSLASH :: char where
  "BACKSLASH = CHR 0x5C"

definition normalise_alias :: "string \<Rightarrow> string" where
  "normalise_alias value =
     (let t0 = py_strip value;
          t1 = (if prefix [BACKSLASH, BACKSLASH, CHR ''.'', BACKSLASH] t0 then drop 4 t0 else t0)
      in map lower_char (remove_sub [BACKSLASH, BACKSLASH, CHR ''?'', BACKSLASH] t1))"

record reservation =
  rv_owner :: string
  rv_label :: string
  rv_resource :: string
  rv_aliases :: "string list"

record registry =
  by_key :: "(string \<times> reservation) list"
  by_owner :: "(string \<times> reservation) list"

definition new_registry :: registry where
  "new_registry = \<lparr>by_key = [], by_owner = []\<rparr>"

text \<open>\<open>sorted(set)\<close> of strings, by code point.\<close>

definition sorted_set :: "string list \<Rightarrow> string list" where
  "sorted_set xs = sort (remdups xs)"

definition keys_of :: "string \<Rightarrow> string list \<Rightarrow> string list" where
  "keys_of resource_id aliases =
     sorted_set ((let r = normalise_alias resource_id in if r \<noteq> [] then [''mapping:'' @ r] else [])
       @ concat (map (\<lambda>v. let n = normalise_alias v in if n \<noteq> [] then [''port:'' @ n] else []) aliases))"

datatype reserve_error = Owner_Empty | No_Keys | Must_Release_First | Conflict reservation

fun first_conflict :: "(string \<times> reservation) list \<Rightarrow> string \<Rightarrow> string list \<Rightarrow> reservation option" where
  "first_conflict m owner [] = None"
| "first_conflict m owner (k # ks) =
     (case map_of m k of
        Some r \<Rightarrow> if rv_owner r \<noteq> owner then Some r else first_conflict m owner ks
      | None \<Rightarrow> first_conflict m owner ks)"

definition reserve :: "string \<Rightarrow> string \<Rightarrow> string \<Rightarrow> string list \<Rightarrow> registry
    \<Rightarrow> reserve_error + reservation \<times> registry" where
  "reserve owner0 label resource_id aliases reg =
     (let owner = py_strip owner0 in
      if owner = [] then Inl Owner_Empty
      else let keys = keys_of resource_id aliases in
      if keys = [] then Inl No_Keys
      else
        let r = \<lparr>rv_owner = owner, rv_label = (if label \<noteq> [] then label else owner),
                 rv_resource = resource_id,
                 rv_aliases = sorted_set (filter (\<lambda>v. v \<noteq> []) (map py_strip aliases))\<rparr>
        in case map_of (by_owner reg) owner of
             Some previous \<Rightarrow>
               if set (map fst (filter (\<lambda>(k, x). rv_owner x = owner) (by_key reg))) = set keys
               then Inr (previous, reg) else Inl Must_Release_First
           | None \<Rightarrow>
               (case first_conflict (by_key reg) owner keys of
                  Some x \<Rightarrow> Inl (Conflict x)
                | None \<Rightarrow> Inr (r, \<lparr>by_key = fold (\<lambda>k. AList.update k r) keys (by_key reg),
                                   by_owner = AList.update owner r (by_owner reg)\<rparr>)))"

definition release_owner :: "string \<Rightarrow> registry \<Rightarrow> bool \<times> registry" where
  "release_owner owner0 reg =
     (let owner = py_strip owner0 in
      case map_of (by_owner reg) owner of
        None \<Rightarrow> (False, reg)
      | Some _ \<Rightarrow> (True, \<lparr>by_key = filter (\<lambda>(k, x). rv_owner x \<noteq> owner) (by_key reg),
                          by_owner = AList.delete owner (by_owner reg)\<rparr>))"

definition snapshot :: "registry \<Rightarrow> reservation list" where
  "snapshot reg = sort_key rv_owner (map snd (by_owner reg))"

text \<open>The invariant: the two dicts agree on who is there.\<close>

definition registry_ok :: "registry \<Rightarrow> bool" where
  "registry_ok reg \<longleftrightarrow> distinct (map fst (by_key reg)) \<and> distinct (map fst (by_owner reg))
     \<and> (\<forall>k r. map_of (by_key reg) k = Some r \<longrightarrow> map_of (by_owner reg) (rv_owner r) = Some r)
     \<and> (\<forall>h r. map_of (by_owner reg) h = Some r \<longrightarrow> rv_owner r = h \<and> h \<noteq> [])"

definition owns :: "registry \<Rightarrow> string \<Rightarrow> string \<Rightarrow> bool" where
  "owns reg h k \<longleftrightarrow> (\<exists>r. map_of (by_key reg) k = Some r \<and> rv_owner r = h)"

inductive registry_act :: "string \<Rightarrow> registry \<Rightarrow> registry \<Rightarrow> bool" where
  act_reserve: "reserve o1 lab res als reg = Inr (r, reg') \<Longrightarrow> registry_act (py_strip o1) reg reg'"
| act_release_owner: "release_owner o1 reg = (b, reg') \<Longrightarrow> registry_act (py_strip o1) reg reg'"

lemma map_of_fold_update:
  "map_of (fold (\<lambda>k. AList.update k r) ks m) k = (if k \<in> set ks then Some r else map_of m k)"
  by (induction ks arbitrary: m) (auto simp: update_conv')

lemma distinct_fold_update:
  "distinct (map fst m) \<Longrightarrow> distinct (map fst (fold (\<lambda>k. AList.update k r) ks m))"
  by (induction ks arbitrary: m) (auto simp: distinct_update)

lemma map_of_filter_owner:
  "distinct (map fst m) \<Longrightarrow> map_of (filter (\<lambda>(k, x). rv_owner x \<noteq> h) m) k =
     (case map_of m k of Some r \<Rightarrow> if rv_owner r \<noteq> h then Some r else None | None \<Rightarrow> None)"
proof (induction m)
  case Nil
  then show ?case by simp
next
  case (Cons p m)
  obtain a r where p: "p = (a, r)" by (cases p)
  have "map_of m a = None" using Cons.prems p by (simp add: map_of_eq_None_iff image_iff)
  with Cons p show ?case by (auto split: option.splits)
qed

lemma first_conflict_None:
  "first_conflict m h ks = None \<Longrightarrow> k \<in> set ks \<Longrightarrow> map_of m k = Some r \<Longrightarrow> rv_owner r = h"
  by (induction ks) (auto split: option.splits if_splits)

lemma first_conflict_Some:
  "k \<in> set ks \<Longrightarrow> map_of m k = Some r \<Longrightarrow> rv_owner r \<noteq> h \<Longrightarrow>
     \<exists>k' r'. first_conflict m h ks = Some r' \<and> rv_owner r' \<noteq> h \<and> map_of m k' = Some r'"
  by (induction ks) (auto split: option.splits)

lemma reserve_Inr:
  assumes "reserve o1 lab res als reg = Inr (r, reg')"
  shows "py_strip o1 \<noteq> [] \<and> keys_of res als \<noteq> [] \<and>
    (map_of (by_owner reg) (py_strip o1) = Some r \<and> reg' = reg
        \<and> set (map fst (filter (\<lambda>(k, x). rv_owner x = py_strip o1) (by_key reg))) = set (keys_of res als)
     \<or> (map_of (by_owner reg) (py_strip o1) = None \<and> rv_owner r = py_strip o1
        \<and> first_conflict (by_key reg) (py_strip o1) (keys_of res als) = None
        \<and> reg' = \<lparr>by_key = fold (\<lambda>k. AList.update k r) (keys_of res als) (by_key reg),
                  by_owner = AList.update (py_strip o1) r (by_owner reg)\<rparr>))"
  using assms
  by (auto simp: reserve_def Let_def split: if_splits option.splits)

lemma registry_key: "registry_ok reg \<Longrightarrow> map_of (by_key reg) k = Some r \<Longrightarrow> map_of (by_owner reg) (rv_owner r) = Some r"
  by (simp only: registry_ok_def)

lemma registry_owner: "registry_ok reg \<Longrightarrow> map_of (by_owner reg) h = Some r \<Longrightarrow> rv_owner r = h \<and> h \<noteq> []"
  unfolding registry_ok_def by blast

lemma registry_distinct:
  "registry_ok reg \<Longrightarrow> distinct (map fst (by_key reg))" "registry_ok reg \<Longrightarrow> distinct (map fst (by_owner reg))"
  by (simp_all only: registry_ok_def)

lemma reserve_ok:
  assumes ok: "registry_ok reg" and r: "reserve o1 lab res als reg = Inr (r, reg')"
  shows "registry_ok reg'"
proof (cases "reg' = reg")
  case True
  with ok show ?thesis by simp
next
  case False
  let ?h = "py_strip o1" and ?ks = "keys_of res als"
  from False reserve_Inr [OF r] have n: "?h \<noteq> []" "map_of (by_owner reg) ?h = None" "rv_owner r = ?h"
    and e: "reg' = \<lparr>by_key = fold (\<lambda>k. AList.update k r) ?ks (by_key reg),
                  by_owner = AList.update ?h r (by_owner reg)\<rparr>" by auto
  have "map_of (by_owner reg') (rv_owner x) = Some x" if "map_of (by_key reg') k = Some x" for k x
  proof (cases "k \<in> set ?ks")
    case True
    with that e n show ?thesis by (simp add: map_of_fold_update update_conv')
  next
    case False
    with that e have "map_of (by_key reg) k = Some x" by (simp add: map_of_fold_update)
    from registry_key [OF ok this] n e show ?thesis by (auto simp: update_conv')
  qed
  moreover have "rv_owner x = h \<and> h \<noteq> []" if "map_of (by_owner reg') h = Some x" for h x
    using that e n registry_owner [OF ok, of h x] by (auto simp: update_conv' split: if_splits)
  ultimately show ?thesis
    using registry_distinct [OF ok] unfolding registry_ok_def e
    by (simp add: distinct_fold_update distinct_update)
qed

lemma release_owner_eq:
  assumes "registry_ok reg" "release_owner o1 reg = (b, reg')"
  shows "map_of (by_key reg') k = (case map_of (by_key reg) k of
      Some r \<Rightarrow> if rv_owner r \<noteq> py_strip o1 then Some r else None | None \<Rightarrow> None)"
    and "map_of (by_owner reg') h = (if h = py_strip o1 then None else map_of (by_owner reg) h)"
    and "distinct (map fst (by_key reg'))" "distinct (map fst (by_owner reg'))"
  using assms registry_distinct [OF assms(1)] registry_key [OF assms(1), of k]
  by (auto simp: release_owner_def Let_def map_of_filter_owner delete_conv' distinct_delete
      distinct_map_filter split: option.splits if_splits)

lemma release_owner_ok:
  assumes "registry_ok reg" "release_owner o1 reg = (b, reg')"
  shows "registry_ok reg'"
  unfolding registry_ok_def release_owner_eq(1,2) [OF assms]
  using release_owner_eq(3,4) [OF assms] registry_key [OF assms(1)] registry_owner [OF assms(1)]
  by (auto split: option.splits if_splits)

interpretation serial: exclusive_owner new_registry registry_ok owns registry_act
proof unfold_locales
  show "registry_ok new_registry" by (simp add: registry_ok_def new_registry_def)
next
  fix s h s'
  assume "registry_ok s" "registry_act h s s'"
  then show "registry_ok s'"
    by (auto elim!: registry_act.cases intro: reserve_ok release_owner_ok)
next
  fix s h k h'
  assume "owns s h k" "owns s h' k"
  then show "h = h'" by (auto simp: owns_def)
next
  fix s h s' h' k
  assume ok: "registry_ok s" and act: "registry_act h s s'" and ne: "h' \<noteq> h"
  from act show "owns s' h' k = owns s h' k"
  proof cases
    case (act_reserve o1 lab res als r)
    from reserve_Inr [OF act_reserve(2)] act_reserve(1) ne
      first_conflict_None [of "by_key s" h "keys_of res als" k]
    show ?thesis by (auto simp: owns_def map_of_fold_update split: if_splits)
  next
    case (act_release_owner o1 b)
    with ne release_owner_eq(1) [OF ok act_release_owner(2), of k] show ?thesis
      by (auto simp: owns_def split: option.splits if_splits)
  qed
qed

text \<open>What a successful reservation owns.\<close>

lemma reserve_owns:
  assumes ok: "registry_ok reg" and r: "reserve o1 lab res als reg = Inr (r, reg')"
    and k: "k \<in> set (keys_of res als)"
  shows "owns reg' (py_strip o1) k"
proof -
  from reserve_Inr [OF r] k consider
      "reg' = reg" "k \<in> fst ` {p \<in> set (by_key reg). rv_owner (snd p) = py_strip o1}"
    | "rv_owner r = py_strip o1" "map_of (by_key reg') k = Some r"
    by (auto simp: map_of_fold_update split_def)
  then show ?thesis
  proof cases
    case 1
    then obtain x where "(k, x) \<in> set (by_key reg)" "rv_owner x = py_strip o1" by auto
    with ok 1(1) show ?thesis by (auto simp: owns_def registry_ok_def intro: map_of_is_SomeI)
  next
    case 2
    then show ?thesis by (auto simp: owns_def)
  qed
qed

text \<open>
  A session that reserved a serial resource owns all its names - the
  mapping and every port alias, after normalisation - whatever other sessions do meanwhile, and
  a request of another session that shares a single name with it does not succeed. After its
  release none of its names is held.
\<close>

theorem serial_exclusive:
  assumes "registry_ok reg" "reserve o1 lab res als reg = Inr (r, reg1)"
    and "serial.acts (- {py_strip o1}) reg1 reg2"
    and "py_strip o2 \<noteq> py_strip o1" "k \<in> set (keys_of res als)" "k \<in> set (keys_of res2 als2)"
  shows "owns reg2 (py_strip o1) k \<and> (\<exists>e. reserve o2 lab2 res2 als2 reg2 = Inl e)
    \<and> \<not> owns (snd (release_owner o1 reg2)) (py_strip o1) k'"
proof (intro conjI)
  note ok1 = reserve_ok [OF assms(1,2)]
  note ok2 = serial.acts_ok [OF assms(3) ok1]
  show own: "owns reg2 (py_strip o1) k"
    using serial.ownership_kept(1) [OF ok1 reserve_owns [OF assms(1,2,5)] assms(3)] .
  show "\<exists>e. reserve o2 lab2 res2 als2 reg2 = Inl e"
  proof (rule ccontr)
    assume "\<not> (\<exists>e. reserve o2 lab2 res2 als2 reg2 = Inl e)"
    then obtain r' reg3 where "reserve o2 lab2 res2 als2 reg2 = Inr (r', reg3)"
      by (metis sum.exhaust prod.exhaust)
    from reserve_owns [OF ok2 this assms(6)] serial.act_frame [OF ok2 registry_act.act_reserve [OF this], of "py_strip o1" k]
      serial.one_holder [OF reserve_ok [OF ok2 this], of "py_strip o1" k "py_strip o2"] own assms(4)
    show False by simp
  qed
  show "\<not> owns (snd (release_owner o1 reg2)) (py_strip o1) k'"
    using release_owner_eq(1) [OF ok2 prod.collapse [symmetric], of o1 k']
    by (auto simp: owns_def split: option.splits if_splits)
qed

theorem serial_exclusive_witness:
  "\<exists>r reg1. reserve ''web '' '''' ''m1'' [''COM3''] new_registry = Inr (r, reg1)
    \<and> owns reg1 ''web'' ''port:com3''
    \<and> (\<exists>e. reserve ''ai'' '''' '''' [''com3 ''] reg1 = Inl e)"
proof -
  have k: "keys_of ''m1'' [''COM3''] = [''mapping:m1'', ''port:com3'']" "keys_of '''' [''com3 ''] = [''port:com3'']"
    "py_strip ''web '' = ''web''" "py_strip ''ai'' = ''ai''"
    by code_simp+
  obtain r reg1 where r: "reserve ''web '' '''' ''m1'' [''COM3''] new_registry = Inr (r, reg1)"
    by (simp add: reserve_def k new_registry_def Let_def)
  have "registry_ok new_registry" by (simp add: registry_ok_def new_registry_def)
  from serial_exclusive [OF this r serial.acts_none, of "''ai''" "''port:com3''" "''''" "[''com3 '']" "''''"] r
  show ?thesis by (simp add: k)
qed

end
