(* ===== verification/Run_Status.thy ===== *)
theory Run_Status
  imports Prelude
begin

text \<open>
  The life of a test run: the status machine and its transition check
  (\<open>libs/test_automation/state_machine.py\<close>, \<open>models.py\<close>), the append-only evidence store
  (\<open>evidence_store.py\<close>), and the executor's background thread against a concurrent
  \<open>cancel\<close> (\<open>apps/workbench/orchestration/runner.py\<close>) as a step relation on the shared
  variables: one step per access, since the executor's lock covers only its two dicts.
\<close>

section \<open>The status machine\<close>

datatype run_status =
  Created | Queued | Running | Cancelling | Cancelled | Passed | Failed | Inconclusive | Error

definition TERMINAL :: "run_status list" where
  "TERMINAL = [Cancelled, Passed, Failed, Inconclusive, Error]"

fun RUN_TRANSITIONS :: "run_status \<Rightarrow> run_status list" where
  "RUN_TRANSITIONS Created = [Created, Queued]"
| "RUN_TRANSITIONS Queued = [Queued, Running]"
| "RUN_TRANSITIONS Running = [Running, Passed, Failed, Inconclusive, Cancelling, Error]"
| "RUN_TRANSITIONS Cancelling = [Cancelling, Cancelled, Error]"
| "RUN_TRANSITIONS Cancelled = [Cancelled]"
| "RUN_TRANSITIONS Passed = [Passed]"
| "RUN_TRANSITIONS Failed = [Failed]"
| "RUN_TRANSITIONS Inconclusive = [Inconclusive]"
| "RUN_TRANSITIONS Error = [Error]"

definition transition :: "run_status \<Rightarrow> run_status \<Rightarrow> py_exc + run_status" where
  "transition current target =
     (if target \<in> set (RUN_TRANSITIONS current) then Inr target else Inl ValueError)"

text \<open>A history of checked transitions.\<close>

fun walk :: "run_status \<Rightarrow> run_status list \<Rightarrow> py_exc + run_status" where
  "walk s [] = Inr s"
| "walk s (t # ts) = (case transition s t of Inl e \<Rightarrow> Inl e | Inr s' \<Rightarrow> walk s' ts)"

lemma transition_Inr: "transition s t = Inr u \<longleftrightarrow> u = t \<and> t \<in> set (RUN_TRANSITIONS s)"
  by (auto simp: transition_def)

lemma walk_Cons: "walk s (t # ts) = Inr u \<longleftrightarrow> t \<in> set (RUN_TRANSITIONS s) \<and> walk t ts = Inr u"
  by (cases "transition s t") (auto simp: transition_def split: if_splits)

declare walk.simps(2) [simp del] walk_Cons [simp]

lemma terminal_stays: "s \<in> set TERMINAL \<Longrightarrow> walk s ts = Inr u \<Longrightarrow> u = s \<and> set ts \<subseteq> {s}"
proof (induction ts arbitrary: s)
  case (Cons t ts)
  then have "t = s" by (cases s) (auto simp: TERMINAL_def)
  with Cons show ?case by auto
qed simp

lemma walk_append: "walk s (ts @ us) = Inr v \<longleftrightarrow> (\<exists>w. walk s ts = Inr w \<and> walk w us = Inr v)"
  by (induction ts arbitrary: s) simp_all

text \<open>Phases of a run in their order; a legal history never goes back.\<close>

fun phase :: "run_status \<Rightarrow> nat" where
  "phase Created = 0"
| "phase Queued = 1"
| "phase Running = 2"
| "phase Cancelling = 3"
| "phase _ = 4"

lemma phase_mono: "t \<in> set (RUN_TRANSITIONS s) \<Longrightarrow> phase s < phase t \<or> s = t"
  by (cases s) auto

lemma walk_phase: "walk s ts = Inr u \<Longrightarrow> phase s \<le> phase u"
proof (induction ts arbitrary: s)
  case (Cons t ts)
  then have "t \<in> set (RUN_TRANSITIONS s)" "walk t ts = Inr u"
    by auto
  with Cons.IH [of t] phase_mono [of t s] show ?case by fastforce
qed simp

lemma walk_Queued: "walk s ts = Inr u \<Longrightarrow> s = Created \<Longrightarrow> u \<noteq> Created \<Longrightarrow> Queued \<in> set ts"
proof (induction ts arbitrary: s)
  case (Cons t ts)
  then show ?case by (cases t) auto
qed simp

lemma walk_Running:
  "walk s ts = Inr u \<Longrightarrow> s = Created \<or> s = Queued \<Longrightarrow> 2 \<le> phase u \<Longrightarrow> Running \<in> set ts"
proof (induction ts arbitrary: s)
  case (Cons t ts)
  then show ?case by (cases t) auto
qed auto

lemma walk_Cancelling:
  "walk s ts = Inr Cancelled \<Longrightarrow> s \<in> {Created, Queued, Running} \<Longrightarrow> Cancelling \<in> set ts"
proof (induction ts arbitrary: s)
  case (Cons t ts)
  then have w: "walk t ts = Inr Cancelled" "t \<in> set (RUN_TRANSITIONS s)"
    by auto
  show ?case
  proof (cases "t \<in> set TERMINAL")
    case True
    from terminal_stays [OF this w(1)] w(2) Cons.prems(2) show ?thesis by auto
  next
    case False
    with Cons.IH [OF w(1)] show ?thesis by (cases t) (auto simp: TERMINAL_def)
  qed
qed auto

text \<open>
  A history of accepted transitions from Created that reaches a final status
  went through Queued and Running (and through Cancelling, if it ends in Cancelled); and once
  final, every further transition of it is the same status again.
\<close>

theorem status_machine:
  assumes "walk Created ts = Inr u" "u \<in> set TERMINAL"
  shows "{Queued, Running} \<subseteq> set ts \<and> (u = Cancelled \<longrightarrow> Cancelling \<in> set ts)
    \<and> (walk Created (ts @ us) = Inr v \<longrightarrow> v = u \<and> set us \<subseteq> {u})"
proof (intro conjI impI)
  have p: "2 \<le> phase u" "u \<noteq> Created" using assms(2) by (auto simp: TERMINAL_def)
  show "{Queued, Running} \<subseteq> set ts"
    using walk_Queued [OF assms(1) refl p(2)] walk_Running [OF assms(1) _ p(1)] by simp
  show "u = Cancelled \<Longrightarrow> Cancelling \<in> set ts" using walk_Cancelling assms(1) by simp
next
  assume "walk Created (ts @ us) = Inr v"
  with assms(1) have "walk u us = Inr v" by (simp add: walk_append)
  from terminal_stays [OF assms(2) this] show "v = u" "set us \<subseteq> {u}" by auto
qed

theorem status_machine_witness:
  "{Queued, Running} \<subseteq> set [Queued, Running, Cancelling, Cancelled]
   \<and> Cancelling \<in> set [Queued, Running, Cancelling, Cancelled]
   \<and> walk Created ([Queued, Running, Cancelling, Cancelled] @ [Passed]) \<noteq> Inr Passed"
  using status_machine [of "[Queued, Running, Cancelling, Cancelled]" Cancelled "[Passed]" Passed]
  by (auto simp: TERMINAL_def)

section \<open>The evidence store\<close>

record 'p evidence =
  ev_id :: string
  ev_run :: string
  ev_seq :: nat
  ev_payload :: 'p

record 'p evidence_store =
  es_run :: string
  es_items :: "'p evidence list"
  es_frozen :: bool

definition new_store :: "string \<Rightarrow> 'p evidence_store" where
  "new_store r = \<lparr>es_run = r, es_items = [], es_frozen = False\<rparr>"

text \<open>The caller's fields (kind, source, payload, references, metadata) are one value here.\<close>

definition append_evidence :: "'p \<Rightarrow> 'p evidence_store \<Rightarrow> py_exc + 'p evidence \<times> 'p evidence_store" where
  "append_evidence p s =
     (if es_frozen s then Inl RuntimeError
      else let seq = length (es_items s) + 1;
               ev = \<lparr>ev_id = es_run s @ ''-ev-'' @ show_nat seq, ev_run = es_run s, ev_seq = seq,
                     ev_payload = p\<rparr>
           in Inr (ev, s\<lparr>es_items := es_items s @ [ev]\<rparr>))"

definition freeze :: "'p evidence_store \<Rightarrow> 'p evidence_store" where
  "freeze s = s\<lparr>es_frozen := True\<rparr>"

datatype 'p store_op = Append 'p | Freeze

text \<open>A caller that goes on after a refused append.\<close>

fun store_do :: "'p evidence_store \<Rightarrow> 'p store_op \<Rightarrow> 'p evidence_store" where
  "store_do s (Append p) = (case append_evidence p s of Inl e \<Rightarrow> s | Inr (ev, s') \<Rightarrow> s')"
| "store_do s Freeze = freeze s"

definition store_ok :: "'p evidence_store \<Rightarrow> bool" where
  "store_ok s \<longleftrightarrow> map ev_seq (es_items s) = [1..<Suc (length (es_items s))]
     \<and> list_all (\<lambda>e. ev_run e = es_run s \<and> ev_id e = es_run s @ ''-ev-'' @ show_nat (ev_seq e)) (es_items s)"

fun digits_val :: "nat \<Rightarrow> string \<Rightarrow> nat" where
  "digits_val a [] = a"
| "digits_val a (c # cs) = digits_val (a * 10 + the (hex_val c)) cs"

lemma digits_val_snoc: "digits_val a (s @ [c]) = digits_val a s * 10 + the (hex_val c)"
  by (induction s arbitrary: a) auto

lemma digits_val_show: "digits_val 0 (show_nat n) = n"
proof (induction n rule: less_induct)
  case (less n)
  show ?case
  proof (cases "n < 10")
    case True
    then show ?thesis by (simp add: show_nat.simps [of n])
  next
    case False
    then have "n div 10 < n" by simp
    from less [OF this] False show ?thesis
      by (subst show_nat.simps) (simp add: digits_val_snoc)
  qed
qed

lemma show_nat_inj: "show_nat m = show_nat n \<Longrightarrow> m = n"
  by (metis digits_val_show)

lemma store_do_ok: "store_ok s \<Longrightarrow> store_ok (store_do s op)"
  by (cases op) (auto simp: store_ok_def append_evidence_def freeze_def Let_def)

lemma store_do_grows: "prefix (es_items s) (es_items (store_do s op)) \<and> es_run (store_do s op) = es_run s
    \<and> (es_frozen s \<longrightarrow> store_do s op = s)"
  by (cases op) (auto simp: append_evidence_def freeze_def Let_def)

lemma foldl_store:
  "store_ok s \<Longrightarrow> store_ok (foldl store_do s ops) \<and> prefix (es_items s) (es_items (foldl store_do s ops))
     \<and> es_run (foldl store_do s ops) = es_run s \<and> (es_frozen s \<longrightarrow> foldl store_do s ops = s)"
proof (induction ops arbitrary: s)
  case (Cons op ops)
  from Cons.IH [OF store_do_ok [OF Cons.prems, of op]] store_do_grows [of s op] show ?case
    by (auto intro: prefix_order.trans)
qed simp

text \<open>
  Through any operations on a fresh store the entries are numbered
  1, 2, 3 and so on without a gap, their identifiers are pairwise different, entries are only
  ever added at the end, and from the first freeze on the store does not change.
\<close>

theorem evidence_append_only:
  "let s = foldl store_do (new_store r) ops; t = foldl store_do s ops2 in
     map ev_seq (es_items s) = [1..<Suc (length (es_items s))] \<and> distinct (map ev_id (es_items s))
     \<and> prefix (es_items s) (es_items t) \<and> foldl store_do (freeze s) ops2 = freeze s"
proof -
  define s where "s = foldl store_do (new_store r) ops"
  have "store_ok (new_store r)" by (simp add: store_ok_def new_store_def)
  with foldl_store have ok: "store_ok s" unfolding s_def by blast
  then have "map ev_id (es_items s) = map ((\<lambda>n. es_run s @ ''-ev-'' @ show_nat n) \<circ> ev_seq) (es_items s)"
    by (intro map_cong [OF refl]) (simp add: store_ok_def list_all_iff)
  also have "\<dots> = map (\<lambda>n. es_run s @ ''-ev-'' @ show_nat n) (map ev_seq (es_items s))"
    by (simp only: map_map)
  also have "\<dots> = map (\<lambda>n. es_run s @ ''-ev-'' @ show_nat n) [1..<Suc (length (es_items s))]"
    using ok by (simp add: store_ok_def)
  finally have d: "distinct (map ev_id (es_items s))"
    by (auto simp: distinct_map intro!: inj_onI dest: show_nat_inj)
  have "es_frozen (freeze s)" "store_ok (freeze s)"
    using ok by (simp_all add: freeze_def store_ok_def)
  with foldl_store [of "freeze s" ops2] foldl_store [OF ok, of ops2] d ok show ?thesis
    unfolding Let_def s_def [symmetric] by (simp add: store_ok_def)
qed

section \<open>The executor and cancel\<close>

text \<open>
  The shared variables of one submitted run: its status, the cancel event, whether the run is
  still in the executor's two dicts, and the status that the store holds.
\<close>

record shared =
  sh_status :: run_status
  sh_flag :: bool
  sh_registered :: bool
  sh_stored :: run_status

text \<open>
  The thread \<open>target\<close>: \<open>W_Check n\<close> is about to run a \<open>check_cancel\<close> with n more to come,
  \<open>W_Part n\<close> is in the part of \<open>_run_steps\<close> behind it, \<open>W_Flag\<close> behind the status of
  the verdict, \<open>W_Finally\<close> before the store, \<open>W_Pop\<close> before the dicts are cleared. The
  call \<open>cancel\<close> has its own counter; \<open>C_Refused\<close> is the answer False.
\<close>

datatype worker = W_Check nat | W_Part nat | W_Flag | W_Finally | W_Pop | W_Done

datatype canceller = C_Idle | C_Found | C_Flagged | C_Marked | C_True | C_Refused

text \<open>\<open>_run_steps\<close> checks five times.\<close>

definition CHECKS :: nat where
  "CHECKS = 5"

definition submitted :: "worker \<times> canceller \<times> shared" where
  "submitted = (W_Check (CHECKS - 1), C_Idle,
     \<lparr>sh_status = Running, sh_flag = False, sh_registered = True, sh_stored = Running\<rparr>)"

inductive exec_step :: "worker \<times> canceller \<times> shared \<Rightarrow> worker \<times> canceller \<times> shared \<Rightarrow> bool" where
  check_raises: "sh_flag s \<Longrightarrow>
    exec_step (W_Check n, c, s) (W_Finally, c, s\<lparr>sh_status := Cancelled\<rparr>)"
| check_passes: "\<not> sh_flag s \<Longrightarrow> exec_step (W_Check n, c, s) (W_Part n, c, s)"
| part_records: "exec_step (W_Part n, c, s) (W_Part n, c, s\<lparr>sh_stored := sh_status s\<rparr>)"
| part_ends: "exec_step (W_Part (Suc n), c, s) (W_Check n, c, s)"
| port_error: "exec_step (W_Part n, c, s) (W_Finally, c, s\<lparr>sh_status := Failed\<rparr>)"
| other_error: "exec_step (W_Part n, c, s) (W_Finally, c, s\<lparr>sh_status := Error\<rparr>)"
| verdict: "v \<in> {Passed, Inconclusive, Failed} \<Longrightarrow>
    exec_step (W_Part 0, c, s) (W_Flag, c, s\<lparr>sh_status := v\<rparr>)"
| flag_set: "sh_flag s \<Longrightarrow> exec_step (W_Flag, c, s) (W_Finally, c, s\<lparr>sh_status := Cancelled\<rparr>)"
| flag_clear: "\<not> sh_flag s \<Longrightarrow> exec_step (W_Flag, c, s) (W_Finally, c, s)"
| at_end: "exec_step (W_Finally, c, s) (W_Pop, c, s\<lparr>sh_stored := sh_status s\<rparr>)"
| pop: "exec_step (W_Pop, c, s) (W_Done, c, s\<lparr>sh_registered := False\<rparr>)"
| cancel_found: "sh_registered s \<Longrightarrow> exec_step (w, C_Idle, s) (w, C_Found, s)"
| cancel_refused: "\<not> sh_registered s \<Longrightarrow> exec_step (w, C_Idle, s) (w, C_Refused, s)"
| cancel_flags: "exec_step (w, C_Found, s) (w, C_Flagged, s\<lparr>sh_flag := True\<rparr>)"
| cancel_marks: "exec_step (w, C_Flagged, s) (w, C_Marked, s\<lparr>sh_status := Cancelling\<rparr>)"
| cancel_stores: "exec_step (w, C_Marked, s) (w, C_True, s\<lparr>sh_stored := sh_status s\<rparr>)"

inductive_cases exec_done: "exec_step (W_Done, c, s) x"

abbreviation reachable :: "worker \<times> canceller \<times> shared \<Rightarrow> bool" where
  "reachable \<equiv> exec_step\<^sup>*\<^sup>* submitted"

text \<open>The status machine's final statuses as the executor assigns them, by worker position.\<close>

definition inv_exec :: "worker \<times> canceller \<times> shared \<Rightarrow> bool" where
  "inv_exec x = (case x of (w, c, s) \<Rightarrow>
     (sh_registered s \<longleftrightarrow> w \<noteq> W_Done)
     \<and> (sh_flag s \<longleftrightarrow> c \<in> {C_Flagged, C_Marked, C_True})
     \<and> (c = C_Refused \<longrightarrow> w = W_Done)
     \<and> (case w of
          W_Check n \<Rightarrow> n < CHECKS \<and> sh_status s \<in> {Running, Cancelling} \<and> sh_stored s \<in> {Running, Cancelling}
        | W_Part n \<Rightarrow> n < CHECKS \<and> sh_status s \<in> {Running, Cancelling} \<and> sh_stored s \<in> {Running, Cancelling}
        | W_Flag \<Rightarrow> sh_status s \<in> {Passed, Inconclusive, Failed, Cancelling}
        | W_Finally \<Rightarrow> sh_status s \<in> {Cancelled, Passed, Inconclusive, Failed, Error, Cancelling}
        | _ \<Rightarrow> sh_status s \<in> {Cancelled, Passed, Inconclusive, Failed, Error, Cancelling}
               \<and> sh_stored s \<in> {Cancelled, Passed, Inconclusive, Failed, Error, Cancelling})
     \<and> (c \<notin> {C_Marked, C_True} \<longrightarrow> sh_status s \<noteq> Cancelling \<and> sh_stored s \<noteq> Cancelling)
     \<and> (c \<in> {C_Idle, C_Found, C_Refused} \<longrightarrow> sh_status s \<noteq> Cancelled \<and> sh_stored s \<noteq> Cancelled)
     \<and> (w \<in> {W_Pop, W_Done} \<and> c \<notin> {C_Marked} \<longrightarrow> sh_stored s = sh_status s))"

lemma inv_submitted: "inv_exec submitted"
  by (simp add: inv_exec_def submitted_def CHECKS_def)

lemma inv_exec_step: "exec_step x y \<Longrightarrow> inv_exec x \<Longrightarrow> inv_exec y"
  by (induction rule: exec_step.induct)
    (auto simp: inv_exec_def CHECKS_def split: worker.splits canceller.splits)

lemma inv_reachable: "reachable x \<Longrightarrow> inv_exec x"
  by (induction rule: rtranclp_induct) (auto intro: inv_submitted inv_exec_step)


text \<open>
  The two schedules: the run passes and is then marked as cancelling; the worker has already
  stored the final status when the canceller, which found the run in time, writes over it.
\<close>

definition late_cancel :: "(worker \<times> canceller \<times> shared) list" where
  "late_cancel = (let s = \<lambda>st f r d. \<lparr>sh_status = st, sh_flag = f, sh_registered = r, sh_stored = d\<rparr> in
     [submitted, (W_Part 4, C_Idle, s Running False True Running),
      (W_Check 3, C_Idle, s Running False True Running), (W_Part 3, C_Idle, s Running False True Running),
      (W_Check 2, C_Idle, s Running False True Running), (W_Part 2, C_Idle, s Running False True Running),
      (W_Check 1, C_Idle, s Running False True Running), (W_Part 1, C_Idle, s Running False True Running),
      (W_Check 0, C_Idle, s Running False True Running), (W_Part 0, C_Idle, s Running False True Running),
      (W_Flag, C_Idle, s Passed False True Running), (W_Finally, C_Idle, s Passed False True Running),
      (W_Finally, C_Found, s Passed False True Running), (W_Pop, C_Found, s Passed False True Passed),
      (W_Done, C_Found, s Passed False False Passed), (W_Done, C_Flagged, s Passed True False Passed),
      (W_Done, C_Marked, s Cancelling True False Passed),
      (W_Done, C_True, s Cancelling True False Cancelling)])"

lemma successively_rtranclp:
  "successively R (x # xs) \<Longrightarrow> R\<^sup>*\<^sup>* x (last (x # xs))"
proof (induction xs arbitrary: x)
  case (Cons y ys)
  then show ?case by (auto intro: converse_rtranclp_into_rtranclp)
qed simp

lemma late_cancel_run: "successively exec_step late_cancel"
  by (simp add: late_cancel_def submitted_def CHECKS_def Let_def exec_step.simps)

definition overwritten :: shared where
  "overwritten = \<lparr>sh_status = Cancelling, sh_flag = True, sh_registered = False, sh_stored = Cancelling\<rparr>"

lemma late_cancel_reachable: "reachable (W_Done, C_True, overwritten)"
proof -
  have "last late_cancel = (W_Done, C_True, overwritten)" "hd late_cancel = submitted" "late_cancel \<noteq> []"
    by (simp_all add: late_cancel_def overwritten_def Let_def)
  then show ?thesis
    using successively_rtranclp [of exec_step submitted "tl late_cancel"] late_cancel_run
    by (metis list.collapse)
qed

lemma nothing_after_done: "Not (Ex (exec_step (W_Done, C_True, s)))"
  by (auto elim: exec_done)


text \<open>
  C15. A cancel call that finds the run just before it is popped leaves it
  in Cancelling for good: a state is reachable in which the thread is done, cancel has answered
  True, status and store say Cancelling, and no step is left. The status machine refuses the
  assignment that did it, and also the one from Created to Running with which every run starts.
\<close>

theorem cancel_overwrites_final:
  "(\<exists>s. reachable (W_Done, C_True, s) \<and> sh_status s = Cancelling \<and> sh_stored s = Cancelling
      \<and> Not (Ex (exec_step (W_Done, C_True, s))))
   \<and> transition Passed Cancelling = Inl ValueError \<and> transition Cancelled Cancelling = Inl ValueError
   \<and> transition Created Running = Inl ValueError"
  using late_cancel_reachable nothing_after_done by (auto simp: transition_def overwritten_def)

section \<open>Progress\<close>

text \<open>How far the thread and a cancel call still have to go.\<close>

fun worker_left :: "worker \<Rightarrow> nat" where
  "worker_left (W_Check n) = 2 * n + 5"
| "worker_left (W_Part n) = 2 * n + 4"
| "worker_left W_Flag = 3"
| "worker_left W_Finally = 2"
| "worker_left W_Pop = 1"
| "worker_left W_Done = 0"

fun canceller_left :: "canceller \<Rightarrow> nat" where
  "canceller_left C_Idle = 4"
| "canceller_left C_Found = 3"
| "canceller_left C_Flagged = 2"
| "canceller_left C_Marked = 1"
| "canceller_left _ = 0"

definition left_to_do :: "worker \<times> canceller \<times> shared \<Rightarrow> nat" where
  "left_to_do x = worker_left (fst x) + canceller_left (fst (snd x))"

lemma exec_step_left:
  "exec_step x y \<Longrightarrow> (fst x, fst (snd x)) \<noteq> (fst y, fst (snd y)) \<Longrightarrow> left_to_do y < left_to_do x"
  by (induction rule: exec_step.induct) (simp_all add: left_to_do_def)

lemma worker_moves: "w \<noteq> W_Done \<Longrightarrow> \<exists>w' s'. exec_step (w, c, s) (w', c, s') \<and> worker_left w' < worker_left w"
proof (cases w)
  case (W_Check n)
  then show ?thesis by (cases "sh_flag s") (force intro: exec_step.intros)+
next
  case (W_Part n)
  have "exec_step (W_Part n, c, s) (W_Finally, c, s\<lparr>sh_status := Error\<rparr>)" by (rule other_error)
  then show ?thesis using W_Part by force
next
  case W_Flag
  then show ?thesis by (cases "sh_flag s") (force intro: exec_step.intros)+
qed (force intro: exec_step.intros)+

lemma worker_finishes: "\<exists>s'. exec_step\<^sup>*\<^sup>* (w, c, s) (W_Done, c, s')"
proof (induction "worker_left w" arbitrary: w s rule: less_induct)
  case less
  show ?case
  proof (cases "w = W_Done")
    case False
    from worker_moves [OF this, of c s] obtain w' s' where
      "exec_step (w, c, s) (w', c, s')" "worker_left w' < worker_left w" by blast
    with less show ?thesis by (meson converse_rtranclp_into_rtranclp)
  qed blast
qed

text \<open>
  From every state the thread can go on to its end with the cancel call standing
  still, and no execution goes on for ever but by recording steps: each step that moves the
  thread or the cancel call brings them nearer to their end.
\<close>

theorem run_progress:
  "(\<exists>s'. exec_step\<^sup>*\<^sup>* (w, c, s) (W_Done, c, s'))
   \<and> wfp (\<lambda>y x. exec_step x y \<and> (fst x, fst (snd x)) \<noteq> (fst y, fst (snd y)))"
proof
  show "wfp (\<lambda>y x. exec_step x y \<and> (fst x, fst (snd x)) \<noteq> (fst y, fst (snd y)))"
    by (rule wfp_if_convertible_to_nat [of _ left_to_do]) (auto dest: exec_step_left)
qed (rule worker_finishes)

end
