(* ===== verification/Flow_Compare.thy ===== *)
theory Flow_Compare
  imports Prelude
begin

text \<open>
  The verdict of a run: the comparison of an expected flow with the observed events
  (\<open>apps/workbench/orchestration/compare.py\<close>), the feedback rules (\<open>feedback.py\<close>) and the
  verdict that the executor forms from both (\<open>runner.py\<close>, \<open>_run_steps\<close>).

  Times are exact fractions of a second. Two library functions are parameters: \<open>iso\<close>, the time
  stamp of an ISO date (it depends on the local time zone), and \<open>flt\<close>, \<open>float\<close> of a text
  that is not a plain integer.
\<close>

section \<open>Event times\<close>

text \<open>\<open>s.split(c)\<close>\<close>

fun split_on :: "char \<Rightarrow> string \<Rightarrow> string list" where
  "split_on c [] = [[]]"
| "split_on c (x # xs) =
     (if x = c then [] # split_on c xs
      else (case split_on c xs of [] \<Rightarrow> [[x]] | p # ps \<Rightarrow> (x # p) # ps))"

definition py_float :: "(string \<Rightarrow> rat option) \<Rightarrow> string \<Rightarrow> rat option" where
  "py_float flt s = (case py_int s of Some n \<Rightarrow> Some (of_int n) | None \<Rightarrow> flt s)"

record event =
  e_type :: string
  e_label :: string
  e_time :: string

type_synonym clock = "(string \<Rightarrow> rat option) \<times> (string \<Rightarrow> rat option)"

text \<open>\<open>None\<close> in between is the ValueError or IndexError that the function catches.\<close>

definition clock_time :: "clock \<Rightarrow> string \<Rightarrow> rat option" where
  "clock_time clk t =
     (let parts = split_on CHR '':'' t in
      do { p0 \<leftarrow> py_at parts 0; h \<leftarrow> py_int p0;
           p1 \<leftarrow> py_at parts 1; m \<leftarrow> py_int p1;
           p2 \<leftarrow> py_at parts 2; s \<leftarrow> py_float (snd clk) (hd (split_on CHR ''.'' p2));
           ms \<leftarrow> (if 3 < length parts then map_option (\<lambda>n. of_int n / 1000) (py_int (parts ! 3)) else Some 0);
           Some (of_int h * 3600 + of_int m * 60 + s + ms) })"

definition ev_time :: "clock \<Rightarrow> event \<Rightarrow> rat" where
  "ev_time clk ev =
     (let t = py_strip (e_time ev) in
      if t = [] then 0
      else case (if CHR ''T'' \<in> set t then fst clk t else clock_time clk t) of
             Some x \<Rightarrow> x
           | None \<Rightarrow> 0)"

definition ev_matches :: "event \<Rightarrow> string \<Rightarrow> bool" where
  "ev_matches ev ty \<longleftrightarrow> e_type ev = ty \<or> e_label ev = ty"

section \<open>Comparison\<close>

text \<open>A step of the scenario, with the defaults of \<open>step.get\<close> filled in.\<close>

record exp_step =
  x_step :: string
  x_event :: string
  x_negate :: bool
  x_within :: rat
  x_optional :: bool

text \<open>\<open>step.get("step") or event_type or f"step{idx}"\<close>\<close>

definition step_name :: "nat \<Rightarrow> exp_step \<Rightarrow> string" where
  "step_name idx x =
     (if x_step x \<noteq> [] then x_step x else if x_event x \<noteq> [] then x_event x else ''step'' @ show_nat idx)"

datatype step_status = Hit | Missing | Timeout | Negate_Triggered | Negate_Ok

record flow =
  fl_steps :: "(string \<times> step_status) list"
  fl_missing :: "string list"
  fl_timeouts :: "string list"
  fl_out_of_order :: "string list"
  fl_negated :: "string list"
  fl_pass :: bool

definition empty_flow :: flow where
  "empty_flow = \<lparr>fl_steps = [], fl_missing = [], fl_timeouts = [], fl_out_of_order = [],
     fl_negated = [], fl_pass = True\<rparr>"

text \<open>The first event from index i on that matches, \<open>events\<close> being those from i on.\<close>

fun find_event :: "string \<Rightarrow> nat \<Rightarrow> event list \<Rightarrow> (nat \<times> event) option" where
  "find_event ty i [] = None"
| "find_event ty i (e # es) = (if ev_matches e ty then Some (i, e) else find_event ty (Suc i) es)"

definition negate_hit :: "clock \<Rightarrow> rat option \<Rightarrow> string \<Rightarrow> event list \<Rightarrow> bool" where
  "negate_hit clk last_time ty events \<longleftrightarrow>
     (\<exists>e \<in> set events. \<not> (case last_time of Some l \<Rightarrow> ev_time clk e < l | None \<Rightarrow> False) \<and> ev_matches e ty)"

text \<open>One round of the loop: the cursor, the time of the last hit and the flow so far.\<close>

definition compare_step :: "clock \<Rightarrow> event list \<Rightarrow> nat \<Rightarrow> exp_step \<Rightarrow> nat \<times> rat option \<times> flow
    \<Rightarrow> nat \<times> rat option \<times> flow" where
  "compare_step clk events idx x st =
     (let (cursor, last_time, fl) = st; name = step_name idx x in
      if x_negate x then
        if negate_hit clk last_time (x_event x) events
        then (cursor, last_time, fl\<lparr>fl_steps := fl_steps fl @ [(name, Negate_Triggered)],
                fl_negated := fl_negated fl @ [name], fl_pass := False\<rparr>)
        else (cursor, last_time, fl\<lparr>fl_steps := fl_steps fl @ [(name, Negate_Ok)]\<rparr>)
      else case find_event (x_event x) cursor (drop cursor events) of
        None \<Rightarrow>
          (cursor, last_time, fl\<lparr>fl_steps := fl_steps fl @ [(name, Missing)],
             fl_missing := fl_missing fl @ [name], fl_pass := (fl_pass fl \<and> x_optional x)\<rparr>)
      | Some (i, e) \<Rightarrow>
          let t_now = ev_time clk e in
          if (case last_time of Some l \<Rightarrow> x_within x < (t_now - l) * 1000 | None \<Rightarrow> False)
          then (Suc i, Some t_now, fl\<lparr>fl_steps := fl_steps fl @ [(name, Timeout)],
                  fl_timeouts := fl_timeouts fl @ [name], fl_pass := (fl_pass fl \<and> x_optional x)\<rparr>)
          else (Suc i, Some t_now, fl\<lparr>fl_steps := fl_steps fl @ [(name, Hit)]\<rparr>))"

fun compare_loop :: "clock \<Rightarrow> event list \<Rightarrow> nat \<Rightarrow> exp_step list \<Rightarrow> nat \<times> rat option \<times> flow
    \<Rightarrow> nat \<times> rat option \<times> flow" where
  "compare_loop clk events idx [] st = st"
| "compare_loop clk events idx (x # xs) st = compare_loop clk events (Suc idx) xs (compare_step clk events idx x st)"

text \<open>\<open>(es.get("step") or es.get("event_type")) == st["step"]\<close>, the first such step's event type.\<close>

fun event_of_step :: "exp_step list \<Rightarrow> string \<Rightarrow> string" where
  "event_of_step [] nm = []"
| "event_of_step (x # xs) nm =
     (if (if x_step x \<noteq> [] then x_step x else x_event x) = nm then x_event x else event_of_step xs nm)"

definition hit_indices :: "exp_step list \<Rightarrow> event list \<Rightarrow> (string \<times> step_status) list \<Rightarrow> nat list" where
  "hit_indices expected events steps =
     List.map_filter (\<lambda>(nm, stat).
        let ty = event_of_step expected nm in
        if stat = Hit \<and> ty \<noteq> [] then map_option fst (find_event ty 0 events) else None) steps"

definition order_step :: "nat list \<Rightarrow> flow \<Rightarrow> nat \<Rightarrow> flow" where
  "order_step hits fl i =
     (if hits ! i < hits ! (i - 1)
      then let nm = (if i < length (fl_steps fl) then fst (fl_steps fl ! i) else ''?'')
           in fl\<lparr>fl_out_of_order :=
                  (if nm \<in> set (fl_out_of_order fl) then fl_out_of_order fl else fl_out_of_order fl @ [nm]),
                fl_pass := False\<rparr>
      else fl)"

definition compare_flow :: "clock \<Rightarrow> exp_step list \<Rightarrow> event list \<Rightarrow> flow" where
  "compare_flow clk expected actual =
     (if expected = [] then empty_flow
      else
        let events = sort_key (ev_time clk) actual;
            (cursor, last_time, fl) = compare_loop clk events 0 expected (0, None, empty_flow);
            hits = hit_indices expected events (fl_steps fl);
            fl = foldl (order_step hits) fl [1..<length hits]
        in if \<not> fl_pass fl \<and> fl_missing fl = [] \<and> fl_timeouts fl = [] \<and> fl_out_of_order fl = []
              \<and> fl_negated fl = []
           then fl\<lparr>fl_pass := True\<rparr> else fl)"

section \<open>Feedback\<close>

text \<open>The keys of a rule's condition: lists of step names, or a flag of the context.\<close>

datatype rule_key = Negated | Missing_Key | Timeouts | Out_Of_Order | Simcon_Fail | Drift

record rule =
  ru_when :: "(rule_key \<times> string list) list"
  ru_then :: nat

record context_fb =
  cx_lists :: "rule_key \<Rightarrow> string list"
  cx_simcon_fail :: bool
  cx_drift :: bool

definition match_rule :: "rule \<Rightarrow> context_fb \<Rightarrow> nat option" where
  "match_rule r cx =
     (if list_all (\<lambda>(k, expected).
           (case k of Simcon_Fail \<Rightarrow> cx_simcon_fail cx | Drift \<Rightarrow> cx_drift cx
            | _ \<Rightarrow> cx_lists cx k \<noteq> [] \<and> set (cx_lists cx k) \<inter> set expected \<noteq> {})) (ru_when r)
      then Some (ru_then r) else None)"

text \<open>The default rules; their suggestion texts are numbered.\<close>

definition DEFAULT_RULES :: "rule list" where
  "DEFAULT_RULES =
     [\<lparr>ru_when = [(Negated, [''join.assoc.err'', ''assoc err'', ''assoc_err''])], ru_then = 1\<rparr>,
      \<lparr>ru_when = [(Missing_Key, [''collect.minute.e4'', ''collect.minute''])], ru_then = 2\<rparr>,
      \<lparr>ru_when = [(Timeouts, [''onnet'', ''network.onnet''])], ru_then = 3\<rparr>,
      \<lparr>ru_when = [(Out_Of_Order, [])], ru_then = 4\<rparr>,
      \<lparr>ru_when = [(Simcon_Fail, [])], ru_then = 5\<rparr>,
      \<lparr>ru_when = [(Drift, [])], ru_then = 6\<rparr>]"

fun suggestions :: "context_fb \<Rightarrow> rule list \<Rightarrow> nat list \<Rightarrow> nat list" where
  "suggestions cx [] out = out"
| "suggestions cx (r # rs) out =
     (case match_rule r cx of
        None \<Rightarrow> suggestions cx rs out
      | Some s \<Rightarrow> suggestions cx rs (if s \<in> set out then out else out @ [s]))"

text \<open>\<open>simcon\<close> is the stimulus summary's verdict, if there is a summary.\<close>

definition build_feedback :: "flow \<Rightarrow> bool option \<Rightarrow> bool \<Rightarrow> rule list \<Rightarrow> nat list" where
  "build_feedback fl simcon drift rules =
     (let cx = \<lparr>cx_lists = (\<lambda>k. case k of Missing_Key \<Rightarrow> fl_missing fl | Timeouts \<Rightarrow> fl_timeouts fl
                   | Out_Of_Order \<Rightarrow> fl_out_of_order fl | Negated \<Rightarrow> fl_negated fl | _ \<Rightarrow> []),
                cx_simcon_fail = (simcon = Some False), cx_drift = drift\<rparr>
      in if fl_pass fl \<and> \<not> drift \<and> \<not> cx_simcon_fail cx then [] else suggestions cx rules [])"

section \<open>The verdict of a run\<close>

datatype run_verdict = V_Pass | V_Fail | V_Inconclusive

text \<open>
  \<open>_verdict_inconclusive_reasons\<close> and the decision in \<open>_run_steps\<close>: \<open>simcon\<close> is whether the
  stimulus ran and what its summary said, \<open>compare\<close> is the flow unless the step was skipped.
\<close>

record run_facts =
  rf_skip_monitor :: bool
  rf_skip_stimulus :: bool
  rf_events :: "event list"
  rf_simcon :: "bool option option"
  rf_listener_wanted :: bool
  rf_frames :: nat
  rf_compare :: "flow option"

definition inconclusive_reasons :: "run_facts \<Rightarrow> nat list" where
  "inconclusive_reasons rf =
     (if \<not> rf_skip_monitor rf \<and> rf_events rf = [] then [1] else [])
     @ (if \<not> rf_skip_stimulus rf \<and> (case rf_simcon rf of Some (Some _) \<Rightarrow> False | _ \<Rightarrow> True) then [2] else [])
     @ (if rf_listener_wanted rf \<and> rf_frames rf = 0 then [3] else [])"

definition run_verdict :: "run_facts \<Rightarrow> run_verdict" where
  "run_verdict rf =
     (if rf_simcon rf \<noteq> None \<and> rf_simcon rf \<noteq> Some (Some True) then V_Fail
      else if inconclusive_reasons rf \<noteq> [] then V_Inconclusive
      else case rf_compare rf of
             None \<Rightarrow> V_Pass
           | Some fl \<Rightarrow>
               if fl_missing fl \<noteq> [] \<or> fl_timeouts fl \<noteq> [] \<or> fl_negated fl \<noteq> [] \<or> fl_out_of_order fl \<noteq> []
               then V_Fail else V_Pass)"

section \<open>What the comparison decides\<close>

text \<open>A step's outcome that counts against the run.\<close>

definition bad :: "exp_step \<Rightarrow> step_status \<Rightarrow> bool" where
  "bad x stat \<longleftrightarrow> stat = Negate_Triggered \<or> stat \<in> {Missing, Timeout} \<and> \<not> x_optional x"

text \<open>The steps so far, the lists and the verdict hang together.\<close>

definition flow_inv :: "exp_step list \<Rightarrow> flow \<Rightarrow> bool" where
  "flow_inv xs fl \<longleftrightarrow>
     fl_pass fl = list_all2 (\<lambda>x p. \<not> bad x (snd p)) xs (fl_steps fl)
     \<and> length (fl_steps fl) = length xs
     \<and> fl_out_of_order fl = []
     \<and> fl_missing fl = map fst (filter (\<lambda>p. snd p = Missing) (fl_steps fl))
     \<and> fl_timeouts fl = map fst (filter (\<lambda>p. snd p = Timeout) (fl_steps fl))
     \<and> fl_negated fl = map fst (filter (\<lambda>p. snd p = Negate_Triggered) (fl_steps fl))"

lemma flow_inv_empty: "flow_inv [] empty_flow"
  by (simp add: flow_inv_def empty_flow_def)

lemma flow_inv_step:
  assumes "flow_inv xs fl" "compare_step clk events idx x (cursor, lt, fl) = (cursor', lt', fl')"
  shows "flow_inv (xs @ [x]) fl'"
  using assms
  by (auto simp: flow_inv_def compare_step_def Let_def bad_def list_all2_appendI list_all2_append
      split: if_splits option.splits prod.splits)

lemma flow_inv_loop:
  "flow_inv xs fl \<Longrightarrow> compare_loop clk events idx ys (cursor, lt, fl) = (cursor', lt', fl') \<Longrightarrow>
     flow_inv (xs @ ys) fl'"
proof (induction ys arbitrary: xs idx cursor lt fl)
  case Nil
  then show ?case by simp
next
  case (Cons y ys)
  obtain c l f where s: "compare_step clk events idx y (cursor, lt, fl) = (c, l, f)"
    by (metis prod.exhaust)
  with Cons.prems(2) have "compare_loop clk events (Suc idx) ys (c, l, f) = (cursor', lt', fl')" by simp
  from Cons.IH [OF flow_inv_step [OF Cons.prems(1) s] this] show ?case by simp
qed

lemma order_step_keeps:
  "fl_steps (order_step hits fl i) = fl_steps fl" "fl_missing (order_step hits fl i) = fl_missing fl"
  "fl_timeouts (order_step hits fl i) = fl_timeouts fl" "fl_negated (order_step hits fl i) = fl_negated fl"
  by (simp_all add: order_step_def Let_def)

lemma order_steps_keep:
  "fl_steps (foldl (order_step hits) fl is) = fl_steps fl"
  "fl_missing (foldl (order_step hits) fl is) = fl_missing fl"
  "fl_timeouts (foldl (order_step hits) fl is) = fl_timeouts fl"
  "fl_negated (foldl (order_step hits) fl is) = fl_negated fl"
  by (induction "is" arbitrary: fl) (simp_all add: order_step_keeps)

definition ooo_inv :: "bool \<Rightarrow> flow \<Rightarrow> bool" where
  "ooo_inv pass fl \<longleftrightarrow> fl_pass fl = (pass \<and> fl_out_of_order fl = [])"

lemma ooo_inv_step: "ooo_inv pass fl \<Longrightarrow> ooo_inv pass (order_step hits fl i)"
  by (auto simp: ooo_inv_def order_step_def Let_def split: if_splits)

lemma ooo_inv_steps: "ooo_inv pass fl \<Longrightarrow> ooo_inv pass (foldl (order_step hits) fl is)"
  by (induction "is" arbitrary: fl) (simp_all add: ooo_inv_step)

lemma flow_inv_dead:
  assumes "flow_inv xs fl" "\<not> fl_pass fl" "fl_missing fl = []" "fl_timeouts fl = []" "fl_negated fl = []"
  shows False
proof -
  have n: "\<not> bad x (snd p)" if "p \<in> set (fl_steps fl)" for x p
    using assms that by (cases "snd p") (auto simp: flow_inv_def filter_empty_conv bad_def)
  have "length (fl_steps fl) = length xs" using assms(1) by (simp add: flow_inv_def)
  then have "list_all2 (\<lambda>x p. \<not> bad x (snd p)) xs (fl_steps fl)"
    by (simp add: list_all2_conv_all_nth n)
  with assms(1, 2) show False by (simp add: flow_inv_def)
qed

text \<open>The outcome of a comparison, before and after the check of the order.\<close>

lemma compare_flow_cases:
  obtains (empty) "xs = []" "compare_flow clk xs es = empty_flow"
  | (run) cursor lt fl0 hits where "xs \<noteq> []"
      "compare_loop clk (sort_key (ev_time clk) es) 0 xs (0, None, empty_flow) = (cursor, lt, fl0)"
      "flow_inv xs fl0"
      "compare_flow clk xs es = foldl (order_step hits) fl0 [1..<length hits]"
proof (cases "xs = []")
  case True
  then show thesis by (rule empty) (simp add: compare_flow_def True)
next
  case False
  define ev where "ev = sort_key (ev_time clk) es"
  obtain cursor lt fl0 where l: "compare_loop clk ev 0 xs (0, None, empty_flow) = (cursor, lt, fl0)"
    by (metis prod.exhaust)
  from flow_inv_loop [OF flow_inv_empty l] have inv: "flow_inv xs fl0" by simp
  define hits where "hits = hit_indices xs ev (fl_steps fl0)"
  define fl where "fl = foldl (order_step hits) fl0 [1..<length hits]"
  have "ooo_inv (fl_pass fl0) fl0" using inv by (simp add: ooo_inv_def flow_inv_def)
  from ooo_inv_steps [OF this] have o: "ooo_inv (fl_pass fl0) fl" by (simp add: fl_def)
  have k: "fl_missing fl = fl_missing fl0" "fl_timeouts fl = fl_timeouts fl0" "fl_negated fl = fl_negated fl0"
    by (simp_all add: fl_def order_steps_keep)
  have "\<not> (\<not> fl_pass fl \<and> fl_missing fl = [] \<and> fl_timeouts fl = [] \<and> fl_out_of_order fl = [] \<and> fl_negated fl = [])"
    using flow_inv_dead [OF inv] o k by (auto simp: ooo_inv_def)
  then have "compare_flow clk xs es = fl"
    using False l by (simp add: compare_flow_def Let_def ev_def hits_def fl_def)
  with run [of cursor lt fl0 hits] False l inv show thesis by (simp add: ev_def fl_def)
qed

lemma compare_verdict_facts:
  "let fl = compare_flow clk xs es in
     length (fl_steps fl) = length xs
     \<and> (fl_pass fl \<longleftrightarrow> list_all2 (\<lambda>x p. \<not> bad x (snd p)) xs (fl_steps fl) \<and> fl_out_of_order fl = [])
     \<and> fl_missing fl = map fst (filter (\<lambda>p. snd p = Missing) (fl_steps fl))
     \<and> fl_timeouts fl = map fst (filter (\<lambda>p. snd p = Timeout) (fl_steps fl))
     \<and> fl_negated fl = map fst (filter (\<lambda>p. snd p = Negate_Triggered) (fl_steps fl))"
proof (cases rule: compare_flow_cases [of xs clk es])
  case empty
  then show ?thesis by (simp add: empty_flow_def)
next
  case (run cursor lt fl0 hits)
  have "ooo_inv (fl_pass fl0) fl0" using run(3) by (simp add: ooo_inv_def flow_inv_def)
  from ooo_inv_steps [OF this, of hits "[1..<length hits]"] run(3, 4) show ?thesis
    by (simp add: Let_def order_steps_keep ooo_inv_def flow_inv_def)
qed

text \<open>
  C16. A comparison reports one outcome per expected step, lists exactly the
  missing, late and negatively triggered steps, and passes iff no step has a bad outcome (an
  optional step may be missing or late) and none is listed as out of order. In particular the
  last clause of the function, which turns a failure without entries into a pass, never applies.
\<close>

theorem compare_verdict:
  "let fl = compare_flow clk xs es in
     length (fl_steps fl) = length xs
     \<and> (fl_pass fl \<longleftrightarrow> list_all2 (\<lambda>x p. \<not> bad x (snd p)) xs (fl_steps fl) \<and> fl_out_of_order fl = [])
     \<and> fl_missing fl = map fst (filter (\<lambda>p. snd p = Missing) (fl_steps fl))
     \<and> fl_timeouts fl = map fst (filter (\<lambda>p. snd p = Timeout) (fl_steps fl))
     \<and> fl_negated fl = map fst (filter (\<lambda>p. snd p = Negate_Triggered) (fl_steps fl))"
  by (rule compare_verdict_facts)

section \<open>The order of the matched events\<close>

lemma find_event_Some:
  "find_event ty i es = Some (j, e) \<Longrightarrow> i \<le> j \<and> j < i + length es \<and> e = es ! (j - i) \<and> ev_matches e ty"
proof (induction es arbitrary: i)
  case (Cons x es)
  show ?case
  proof (cases "ev_matches x ty")
    case True
    with Cons.prems show ?thesis by auto
  next
    case False
    with Cons.prems have "find_event ty (Suc i) es = Some (j, e)" by simp
    from Cons.IH [OF this] have "Suc i \<le> j" "j < Suc i + length es" "e = es ! (j - Suc i)" "ev_matches e ty"
      by auto
    moreover from this have "j - i = Suc (j - Suc i)" by simp
    ultimately show ?thesis by simp
  qed
qed simp

definition took_event :: "exp_step \<times> (string \<times> step_status) \<Rightarrow> bool" where
  "took_event xp \<longleftrightarrow> snd (snd xp) \<in> {Hit, Timeout}"

lemma compare_step_last:
  assumes "compare_step clk ev idx x (c, lt, fl) = (c', lt', fl')"
  shows "fl_steps fl' = fl_steps fl @ [last (fl_steps fl')]
           \<and> (if took_event (x, last (fl_steps fl'))
              then \<exists>j. c \<le> j \<and> j < length ev \<and> c' = Suc j \<and> ev_matches (ev ! j) (x_event x)
              else c' = c)"
  using assms
  by (auto simp: compare_step_def Let_def took_event_def
      split: if_splits option.splits prod.splits dest!: find_event_Some)

lemma compare_step_event:
  assumes "compare_step clk ev idx x (c, lt, fl) = (c', lt', fl')"
  obtains p where "fl_steps fl' = fl_steps fl @ [p]"
    "if took_event (x, p) then \<exists>j. c \<le> j \<and> j < length ev \<and> c' = Suc j \<and> ev_matches (ev ! j) (x_event x)
     else c' = c"
  using compare_step_last [OF assms] by blast

lemma compare_loop_events:
  "compare_loop clk ev idx xs (c, lt, fl) = (c', lt', fl') \<Longrightarrow>
     \<exists>ps js. fl_steps fl' = fl_steps fl @ ps \<and> length ps = length xs
       \<and> sorted_wrt (<) js \<and> (\<forall>j \<in> set js. c \<le> j \<and> j < length ev)
       \<and> list_all2 (\<lambda>j xp. ev_matches (ev ! j) (x_event (fst xp))) js (filter took_event (zip xs ps))"
proof (induction xs arbitrary: idx c lt fl)
  case Nil
  then show ?case by auto
next
  case (Cons x xs)
  obtain c1 l1 f1 where s: "compare_step clk ev idx x (c, lt, fl) = (c1, l1, f1)"
    by (metis prod.exhaust)
  with Cons.prems have "compare_loop clk ev (Suc idx) xs (c1, l1, f1) = (c', lt', fl')" by simp
  from Cons.IH [OF this] obtain ps js where ih: "fl_steps fl' = fl_steps f1 @ ps" "length ps = length xs"
    "sorted_wrt (<) js" "\<forall>j \<in> set js. c1 \<le> j \<and> j < length ev"
    "list_all2 (\<lambda>j xp. ev_matches (ev ! j) (x_event (fst xp))) js (filter took_event (zip xs ps))"
    by auto
  from compare_step_event [OF s] obtain p where p: "fl_steps f1 = fl_steps fl @ [p]"
    "if took_event (x, p) then \<exists>j. c \<le> j \<and> j < length ev \<and> c1 = Suc j \<and> ev_matches (ev ! j) (x_event x)
     else c1 = c" .
  show ?case
  proof (cases "took_event (x, p)")
    case True
    with p(2) obtain j where "c \<le> j" "j < length ev" "c1 = Suc j" "ev_matches (ev ! j) (x_event x)" by auto
    with True ih p(1) show ?thesis
      by (intro exI [of _ "p # ps"] exI [of _ "j # js"]) (auto simp: Suc_le_eq intro: less_imp_le less_trans)
  next
    case False
    with ih p show ?thesis
      by (intro exI [of _ "p # ps"] exI [of _ js]) auto
  qed
qed

text \<open>
  The events that the found steps of a comparison take are, in time order,
  strictly increasing and each of the type its step names: the cursor never goes back, so a step
  can only be found behind the event of the found step before it.
\<close>

theorem matched_in_order:
  "\<exists>js. sorted_wrt (<) js
     \<and> list_all (\<lambda>j. j < length es) js
     \<and> list_all2 (\<lambda>j xp. ev_matches (sort_key (ev_time clk) es ! j) (x_event (fst xp))) js
         (filter took_event (zip xs (fl_steps (compare_flow clk xs es))))"
proof (cases rule: compare_flow_cases [of xs clk es])
  case empty
  then show ?thesis by (intro exI [of _ "[]"]) simp
next
  case (run cursor lt fl0 hits)
  from compare_loop_events [OF run(2)] obtain ps js where
    "fl_steps fl0 = ps" "sorted_wrt (<) js" "\<forall>j \<in> set js. j < length es"
    "list_all2 (\<lambda>j xp. ev_matches (sort_key (ev_time clk) es ! j) (x_event (fst xp))) js
       (filter took_event (zip xs ps))" by (auto simp: empty_flow_def)
  then show ?thesis using run(4) by (intro exI [of _ js]) (simp add: order_steps_keep list_all_iff)
qed

text \<open>
  Yet a flow that expects join, data and join again is reported as out
  of order on exactly these three events: the check of the order looks every step's event type
  up from the first event on, so a repeated type always seems to have come too early.
\<close>

definition plain_step :: "string \<Rightarrow> exp_step" where
  "plain_step ty = \<lparr>x_step = [], x_event = ty, x_negate = False, x_within = 60000, x_optional = False\<rparr>"

definition no_clock :: clock where
  "no_clock = (\<lambda>_. None, \<lambda>_. None)"

definition ping_pong :: "event list" where
  "ping_pong = map (\<lambda>ty. \<lparr>e_type = ty, e_label = [], e_time = []\<rparr>) [''join'', ''data'', ''join'']"

lemma ping_pong_times: "e \<in> set ping_pong \<Longrightarrow> ev_time clk e = 0"
  by (auto simp: ping_pong_def ev_time_def py_strip_def)

lemma ping_pong_sorted: "sort_key (ev_time clk) ping_pong = ping_pong"
  by (simp add: ping_pong_def ev_time_def py_strip_def)

lemma ping_pong_loop:
  "compare_loop clk ping_pong 0 (map plain_step [''join'', ''data'', ''join'']) (0, None, empty_flow)
     = (3, Some 0, empty_flow\<lparr>fl_steps := [(''join'', Hit), (''data'', Hit), (''join'', Hit)]\<rparr>)"
  by (simp add: ping_pong_def plain_step_def compare_step_def ev_matches_def step_name_def
      empty_flow_def ev_time_def py_strip_def Let_def)

theorem repeated_step_fails:
  "let fl = compare_flow clk (map plain_step [''join'', ''data'', ''join'']) ping_pong in
     map snd (fl_steps fl) = [Hit, Hit, Hit] \<and> fl_out_of_order fl = [''join''] \<and> \<not> fl_pass fl"
proof -
  have h: "hit_indices (map plain_step [''join'', ''data'', ''join'']) ping_pong
      [(''join'', Hit), (''data'', Hit), (''join'', Hit)] = [0, 1, 0]"
    by (simp add: hit_indices_def ping_pong_def plain_step_def ev_matches_def List.map_filter_def)
  have "[1..<3] = [1, 2]" by (simp add: upt_rec)
  with h show ?thesis
    unfolding compare_flow_def ping_pong_sorted Let_def ping_pong_loop
    by (simp add: order_step_def empty_flow_def)
qed

text \<open>The time of the second form that the function's description names counts as 0;
  without the date it is read.\<close>

lemma dated_time_is_zero:
  "ev_time no_clock \<lparr>e_type = [], e_label = [], e_time = ''20260101-10:20:30:123''\<rparr> = 0"
  by (simp add: ev_time_def py_strip_def is_space_def clock_time_def py_int_def is_digit_def Let_def py_at_def)

lemma undated_time_is_read: "clock_time no_clock ''10:20:30:123'' \<noteq> None"
  by (simp add: py_strip_def is_space_def clock_time_def py_int_def is_digit_def Let_def py_at_def py_float_def)

section \<open>From the comparison to the run\<close>

text \<open>
  C17. When a run is conclusive and its stimulus did not fail, it passes
  iff the comparison passed and no step at all is missing or late: an optional step, which the
  comparison forgives, fails the run.
\<close>

theorem run_verdict_of_compare:
  assumes "inconclusive_reasons rf = []" "rf_simcon rf \<in> {None, Some (Some True)}"
    "rf_compare rf = Some (compare_flow clk xs es)"
  shows "run_verdict rf = V_Pass \<longleftrightarrow>
     fl_pass (compare_flow clk xs es)
     \<and> list_all (\<lambda>p. snd p \<noteq> Missing \<and> snd p \<noteq> Timeout) (fl_steps (compare_flow clk xs es))"
proof -
  define fl where "fl = compare_flow clk xs es"
  note v = compare_verdict_facts [of clk xs es, folded fl_def, unfolded Let_def]
  have "fl_pass fl \<longleftrightarrow> fl_out_of_order fl = [] \<and> fl_negated fl = []"
    if m: "fl_missing fl = []" "fl_timeouts fl = []"
  proof -
    have "bad x (snd p) \<longleftrightarrow> snd p = Negate_Triggered" if "p \<in> set (fl_steps fl)" for x p
      using m v that by (auto simp: bad_def filter_empty_conv)
    moreover have "length (fl_steps fl) = length xs" using v by simp
    ultimately have "list_all2 (\<lambda>x p. \<not> bad x (snd p)) xs (fl_steps fl)
        \<longleftrightarrow> (\<forall>i < length xs. snd (fl_steps fl ! i) \<noteq> Negate_Triggered)"
      by (simp add: list_all2_conv_all_nth)
    also have "\<dots> \<longleftrightarrow> fl_negated fl = []"
      using v by (auto simp: filter_empty_conv all_set_conv_all_nth)
    finally show ?thesis using v by blast
  qed
  moreover have "list_all (\<lambda>p. snd p \<noteq> Missing \<and> snd p \<noteq> Timeout) (fl_steps fl)
      \<longleftrightarrow> fl_missing fl = [] \<and> fl_timeouts fl = []"
    using v by (auto simp: filter_empty_conv list_all_iff)
  ultimately show ?thesis
    using assms by (auto simp: run_verdict_def fl_def [symmetric])
qed

definition optional_late :: "exp_step list" where
  "optional_late = [plain_step ''join'', (plain_step ''beacon'')\<lparr>x_optional := True\<rparr>]"

definition one_event :: "event list" where
  "one_event = [\<lparr>e_type = ''join'', e_label = [], e_time = ''10:00:01''\<rparr>]"

definition optional_run :: run_facts where
  "optional_run = \<lparr>rf_skip_monitor = False, rf_skip_stimulus = True, rf_events = one_event,
     rf_simcon = None, rf_listener_wanted = False, rf_frames = 0,
     rf_compare = Some (compare_flow no_clock optional_late one_event)\<rparr>"

theorem run_verdict_of_compare_witness:
  "fl_pass (compare_flow no_clock optional_late one_event) \<and> run_verdict optional_run = V_Fail"
proof -
  have c: "inconclusive_reasons optional_run = []" "rf_simcon optional_run \<in> {None, Some (Some True)}"
    "rf_compare optional_run = Some (compare_flow no_clock optional_late one_event)"
    by (simp_all add: optional_run_def inconclusive_reasons_def one_event_def)
  have "fl_pass (compare_flow no_clock optional_late one_event)
     \<and> \<not> list_all (\<lambda>p. snd p \<noteq> Missing \<and> snd p \<noteq> Timeout)
           (fl_steps (compare_flow no_clock optional_late one_event))"
    by code_simp
  with run_verdict_of_compare [OF c]
  have "fl_pass (compare_flow no_clock optional_late one_event)" "run_verdict optional_run \<noteq> V_Pass" by auto
  then show ?thesis using c
    by (auto simp: run_verdict_def split: if_splits option.splits)
qed

text \<open>A suggestion comes from a rule whose condition holds.\<close>

lemma suggestions_from:
  "s \<in> set (suggestions cx rs out) \<Longrightarrow> s \<in> set out \<or> (\<exists>r \<in> set rs. match_rule r cx = Some s)"
proof (induction rs arbitrary: out)
  case (Cons r rs)
  show ?case
  proof (cases "match_rule r cx")
    case None
    with Cons show ?thesis by auto
  next
    case (Some t)
    with Cons.prems have "s \<in> set (suggestions cx rs (if t \<in> set out then out else out @ [t]))" by simp
    from Cons.IH [OF this] Some show ?thesis by (auto split: if_splits)
  qed
qed simp

text \<open>
  The default rule for flows out of order never fires, whatever the comparison
  found: its list of names is empty, and a rule fires only on a common name.
\<close>

theorem order_rule_dead: "4 \<notin> set (build_feedback fl simcon drift DEFAULT_RULES)"
proof -
  have "\<not> (\<exists>r \<in> set DEFAULT_RULES. match_rule r cx = Some 4)" for cx
    by (simp add: DEFAULT_RULES_def match_rule_def)
  then show ?thesis using suggestions_from [of 4 _ DEFAULT_RULES "[]"]
    by (auto simp: build_feedback_def Let_def)
qed

end
