(* ===== verification/Xmodem.thy ===== *)
theory Xmodem
  imports Prelude
begin

text \<open>
  The firmware transfer to a module, \<open>apps/module_log/xmodem_flash.py\<close>: the CRC, the packets,
  the reading of the receiver's answers and the sender with its retries.

  The serial port is a record of functions on a state of any type: what a write does, and what
  arrives afterwards until the time limit of the read is over, as the chunks that
  \<open>ser.read(ser.in_waiting)\<close> returns one after the other. Logging and the progress callback are
  left out.
\<close>

section \<open>Packets\<close>

definition SOH :: byte where "SOH = 0x01"
definition STX :: byte where "STX = 0x02"
definition EOT :: byte where "EOT = 0x04"
definition ACK :: byte where "ACK = 0x06"
definition NAK :: byte where "NAK = 0x15"
definition CAN :: byte where "CAN = 0x18"
definition CRCCHR :: byte where "CRCCHR = 0x43"
definition PAD :: byte where "PAD = 0x1A"

text \<open>The register has 16 bits, as the masks with FFFFH keep it.\<close>

definition crc_shift :: "16 word \<Rightarrow> 16 word" where
  "crc_shift crc = (if crc AND 0x8000 \<noteq> 0 then push_bit 1 crc XOR 0x1021 else push_bit 1 crc)"

definition crc_byte :: "16 word \<Rightarrow> byte \<Rightarrow> 16 word" where
  "crc_byte crc b = (crc_shift ^^ 8) (crc XOR push_bit 8 (ucast b))"

text \<open>\<open>crc16_xmodem(data, offset, count)\<close>; \<open>None\<close> is the IndexError.\<close>

definition crc16_xmodem :: "bytes \<Rightarrow> nat \<Rightarrow> nat option \<Rightarrow> 16 word option" where
  "crc16_xmodem data offset count0 =
     (let count = (case count0 of Some n \<Rightarrow> n | None \<Rightarrow> length data - offset) in
      if 0 < count \<and> length data < offset + count then None
      else Some (foldl crc_byte 0 (py_slice data offset (offset + count))))"

definition build_xmodem_packet :: "bytes \<Rightarrow> nat \<Rightarrow> bool \<Rightarrow> nat \<Rightarrow> py_exc + bytes" where
  "build_xmodem_packet block packet_no use_crc block_size =
     (if length block \<noteq> block_size then Inl ValueError
      else
        let header = (if block_size = 128 then SOH else STX);
            seq = packet_no AND 0xFF;
            head = [header, of_nat seq, of_nat ((0xFF - seq) AND 0xFF)]
        in if use_crc
           then (case crc16_xmodem block 0 None of
                   None \<Rightarrow> Inl IndexError
                 | Some crc \<Rightarrow> Inr (head @ block @ [ucast (drop_bit 8 crc), ucast crc]))
           else Inr (head @ block @ [of_nat (byte_sum block AND 0xFF)]))"

section \<open>Reading the receiver\<close>

record 'e port =
  po_write :: "bytes \<Rightarrow> 'e \<Rightarrow> 'e"
  po_arrive :: "'e \<Rightarrow> bytes list"   \<comment> \<open>the chunks until the deadline\<close>
  po_read :: "nat \<Rightarrow> 'e \<Rightarrow> 'e"      \<comment> \<open>so many of them taken\<close>

text \<open>
  \<open>wait_xmodem_request\<close>: the bytes of \<open>_read_byte\<close> until the deadline, \<open>None\<close> for one
  of its own timeouts. \<open>True\<close> asks for CRC.
\<close>

fun wait_xmodem_request :: "byte option list \<Rightarrow> py_exc + bool" where
  "wait_xmodem_request [] = Inl RuntimeError"
| "wait_xmodem_request (b # bs) =
     (if b = Some CRCCHR then Inr True
      else if b = Some NAK then Inr False
      else if b = Some CAN then Inl RuntimeError
      else wait_xmodem_request bs)"

text \<open>
  \<open>_read_xmodem_response\<close>: the first protocol byte of what arrives and the number of chunks
  taken; the rest of the chunk it stands in is dropped. \<open>None\<close> is the timeout (-1).
\<close>

fun find_protocol :: "bytes \<Rightarrow> byte option" where
  "find_protocol [] = None"
| "find_protocol (b # bs) = (if b \<in> {ACK, NAK, CAN} then Some b else find_protocol bs)"

fun read_chunks :: "bytes list \<Rightarrow> nat \<Rightarrow> byte option \<times> nat" where
  "read_chunks [] n = (None, n)"
| "read_chunks (c # cs) n =
     (case find_protocol c of Some b \<Rightarrow> (Some b, Suc n) | None \<Rightarrow> read_chunks cs (Suc n))"

definition read_xmodem_response :: "'e port \<Rightarrow> 'e \<Rightarrow> byte option \<times> 'e" where
  "read_xmodem_response ser e = (let (r, n) = read_chunks (po_arrive ser e) 0 in (r, po_read ser n e))"

section \<open>Sending\<close>

definition exchange :: "'e port \<Rightarrow> bytes \<Rightarrow> 'e \<Rightarrow> byte option \<times> 'e" where
  "exchange ser data e = read_xmodem_response ser (po_write ser data e)"

text \<open>
  The retry loop of one packet. \<open>Inr True\<close> is sent, \<open>Inr False\<close> is out of tries, \<open>Inl\<close>
  is the cancellation.
\<close>

fun try_packet :: "'e port \<Rightarrow> bytes \<Rightarrow> nat \<Rightarrow> 'e \<Rightarrow> (py_exc + bool) \<times> 'e" where
  "try_packet ser packet 0 e = (Inr False, e)"
| "try_packet ser packet (Suc n) e =
     (let (resp, e) = exchange ser packet e in
      if resp = Some ACK then (Inr True, e)
      else if resp = Some CAN then (Inl RuntimeError, e)
      else try_packet ser packet n e)"

text \<open>The block from \<open>offset\<close> on, filled up; \<open>rest\<close> is \<open>image[offset:]\<close>.\<close>

definition block_of :: "nat \<Rightarrow> bytes \<Rightarrow> bytes" where
  "block_of bs rest = take bs rest @ replicate (bs - min bs (length rest)) PAD"

function send_blocks :: "'e port \<Rightarrow> bool \<Rightarrow> nat \<Rightarrow> nat \<Rightarrow> bytes \<Rightarrow> nat \<Rightarrow> 'e \<Rightarrow> (py_exc + unit) \<times> 'e" where
  "send_blocks ser use_crc max_retries bs rest packet_no e =
     (if rest = [] \<or> bs = 0 then (Inr (), e)
      else case build_xmodem_packet (block_of bs rest) packet_no use_crc bs of
        Inl x \<Rightarrow> (Inl x, e)
      | Inr packet \<Rightarrow>
          (case try_packet ser packet max_retries e of
             (Inl x, e) \<Rightarrow> (Inl x, e)
           | (Inr False, e) \<Rightarrow> (Inl RuntimeError, e)
           | (Inr True, e) \<Rightarrow>
               send_blocks ser use_crc max_retries bs (drop (min bs (length rest)) rest)
                 ((packet_no + 1) AND 0xFF) e))"
  by pat_completeness auto

termination
  by (relation "measure (\<lambda>(ser, c, m, bs, rest, k, e). length rest)") auto

declare send_blocks.simps [simp del]

fun send_eot :: "'e port \<Rightarrow> nat \<Rightarrow> 'e \<Rightarrow> (py_exc + unit) \<times> 'e" where
  "send_eot ser 0 e = (Inl RuntimeError, e)"
| "send_eot ser (Suc n) e =
     (let (resp, e) = exchange ser [EOT] e in
      if resp = Some ACK then (Inr (), e)
      else if resp = Some CAN then (Inl RuntimeError, e)
      else send_eot ser n e)"

text \<open>A block size of 0 divides by zero when the packets are counted (ZeroDivisionError).\<close>

definition send_xmodem :: "'e port \<Rightarrow> bytes \<Rightarrow> bool \<Rightarrow> nat \<Rightarrow> nat \<Rightarrow> 'e \<Rightarrow> (py_exc + unit) \<times> 'e" where
  "send_xmodem ser firmware use_crc max_retries bs e =
     (if bs = 0 then (Inl ZeroDivisionError, e)
      else case send_blocks ser use_crc max_retries bs firmware 1 e of
        (Inl x, e) \<Rightarrow> (Inl x, e)
      | (Inr _, e) \<Rightarrow> send_eot ser max_retries e)"

section \<open>The check sequence\<close>

text \<open>
  What a receiver checks: header, number and its complement, and the check bytes.
\<close>

definition packet_ok :: "bool \<Rightarrow> nat \<Rightarrow> bytes \<Rightarrow> bool" where
  "packet_ok use_crc bs p \<longleftrightarrow>
     length p = 3 + bs + (if use_crc then 2 else 1)
     \<and> p ! 0 = (if bs = 128 then SOH else STX) \<and> unat (p ! 1) + unat (p ! 2) = 255
     \<and> (if use_crc then foldl crc_byte 0 (drop 3 p) = 0
        else of_nat (byte_sum (py_slice p 3 (3 + bs))) = p ! (3 + bs))"

lemma crc_shift_plain: "\<not> bit c 15 \<Longrightarrow> crc_shift c = push_bit 1 c"
proof -
  assume "\<not> bit c 15"
  then have "c AND 2 ^ 15 = 0" by (simp only: and_exp_eq_0_iff_not_bit) simp
  then have "c AND 0x8000 = 0" by simp
  then show ?thesis by (simp add: crc_shift_def)
qed

lemma crc_shift_low: "k \<le> 8 \<Longrightarrow> (crc_shift ^^ k) (ucast (x :: byte)) = push_bit k (ucast x)"
proof (induction k)
  case (Suc k)
  then have "\<not> bit (push_bit k (ucast x) :: 16 word) 15" by (auto simp: bit_simps dest: bit_imp_le_length)
  with Suc show ?case by (simp add: crc_shift_plain)
qed simp

lemma crc_low_part: "(c :: 16 word) XOR push_bit 8 (ucast (ucast (drop_bit 8 c) :: byte)) = ucast (ucast c :: byte)"
  by (rule bit_word_eqI) (auto simp: bit_simps)

lemma crc_residue: "crc_byte (crc_byte c (ucast (drop_bit 8 c))) (ucast c) = 0"
proof -
  have "crc_byte c (ucast (drop_bit 8 c)) = push_bit 8 (ucast (ucast c :: byte))"
    unfolding crc_byte_def crc_low_part by (rule crc_shift_low) simp
  moreover have "(crc_shift ^^ 8) 0 = 0" by code_simp
  ultimately show ?thesis by (simp add: crc_byte_def)
qed

lemma packet_shape:
  assumes "length block = bs"
  shows "\<exists>check. build_xmodem_packet block k use_crc bs
      = Inr ([if bs = 128 then SOH else STX, of_nat (k mod 256), of_nat (255 - k mod 256)] @ block @ check)
    \<and> length check = (if use_crc then 2 else 1)
    \<and> (if use_crc then foldl crc_byte 0 (block @ check) = 0 else check = [of_nat (byte_sum block)])"
proof -
  have m: "(255 - k mod 256) AND 255 = (255 - k mod 256 :: nat)" by (simp add: nat_and_masks)
  have w: "(of_nat (byte_sum block mod 256) :: byte) = of_nat (byte_sum block)"
    by (simp add: word_unat_eq_iff unat_of_nat_byte)
  define c where "c = foldl crc_byte 0 block"
  have "crc16_xmodem block 0 None = Some c" by (simp add: crc16_xmodem_def c_def slice_simps)
  with assms m w show ?thesis
    by (cases use_crc)
      (auto simp: build_xmodem_packet_def Let_def nat_and_masks c_def [symmetric] crc_residue)
qed

text \<open>
  Every packet the sender builds is one a receiver accepts: the length of its
  mode, the header of its block size, a number and its complement, the block, and check bytes
  that bring the CRC register to zero or are the sum of the block.
\<close>

theorem packet_accepted:
  "build_xmodem_packet block k use_crc (length block) \<in> Inr ` {p. packet_ok use_crc (length block) p
      \<and> unat (p ! 1) = k mod 256 \<and> py_slice p 3 (3 + length block) = block}"
proof -
  from packet_shape [OF refl, of block k use_crc] obtain check where
    b: "build_xmodem_packet block k use_crc (length block)
      = Inr ([if length block = 128 then SOH else STX, of_nat (k mod 256), of_nat (255 - k mod 256)] @ block @ check)"
    and c: "length check = (if use_crc then 2 else 1)"
      "if use_crc then foldl crc_byte 0 (block @ check) = 0 else check = [of_nat (byte_sum block)]" by blast
  let ?p = "[if length block = 128 then SOH else STX, of_nat (k mod 256), of_nat (255 - k mod 256)] @ block @ check"
  have n: "unat (of_nat n :: byte) = n" if "n < 256" for n using that by (simp add: unat_of_nat_byte)
  have "unat (?p ! 2) = unat (of_nat (255 - k mod 256) :: byte)" by simp
  also have "\<dots> = 255 - k mod 256" by (rule n) simp
  finally have u: "unat (?p ! 1) = k mod 256" "unat (?p ! 2) = 255 - k mod 256"
    using n [of "k mod 256"] by simp_all
  have s: "py_slice ?p 3 (3 + length block) = block" by (simp add: py_slice_def)
  moreover have "k mod 256 + (255 - k mod 256) = 255"
    using mod_less_divisor [of 256 k] by linarith
  ultimately have "packet_ok use_crc (length block) ?p"
    using c u unfolding packet_ok_def s by (auto simp: nth_append split: if_splits)
  with b u s show ?thesis by blast
qed

section \<open>What a transfer delivers\<close>

text \<open>
  The receiving side that the sender is written for, on a state \<open>e\<close> with the blocks \<open>got e\<close>
  it has taken. A packet with the next number is taken, whatever becomes of the answer, or it is
  not and no ACK is read; the last packet sent again, and an EOT, change nothing.
\<close>

definition receives :: "'e port \<Rightarrow> bool \<Rightarrow> nat \<Rightarrow> ('e \<Rightarrow> bytes list) \<Rightarrow> bool" where
  "receives ser use_crc bs got \<longleftrightarrow>
     (\<forall>e block p. length block = bs
        \<longrightarrow> build_xmodem_packet block (Suc (length (got e))) use_crc bs = Inr p
        \<longrightarrow> got (snd (exchange ser p e)) = got e @ [block]
          \<or> got (snd (exchange ser p e)) = got e \<and> fst (exchange ser p e) \<noteq> Some ACK)
   \<and> (\<forall>e done block p. got e = done @ [block] \<and> length block = bs
        \<longrightarrow> build_xmodem_packet block (Suc (length done)) use_crc bs = Inr p
        \<longrightarrow> got (snd (exchange ser p e)) = got e)
   \<and> (\<forall>e. got (snd (exchange ser [EOT] e)) = got e)"

text \<open>A line with at most \<open>faults e\<close> further answers that are not an ACK, none of them CAN.\<close>

definition faulty_at_most :: "'e port \<Rightarrow> ('e \<Rightarrow> nat) \<Rightarrow> bool" where
  "faulty_at_most ser faults \<longleftrightarrow> (\<forall>d e.
     fst (exchange ser d e) = Some ACK \<and> faults (snd (exchange ser d e)) \<le> faults e
     \<or> fst (exchange ser d e) \<notin> {Some ACK, Some CAN} \<and> faults (snd (exchange ser d e)) < faults e)"

text \<open>The blocks of a firmware.\<close>

fun blocks :: "nat \<Rightarrow> bytes \<Rightarrow> bytes list" where
  "blocks bs rest = (if rest = [] \<or> bs = 0 then [] else block_of bs rest # blocks bs (drop bs rest))"

declare blocks.simps [simp del]

lemma length_block_of [simp]: "length (block_of bs rest) = bs"
  by (simp add: block_of_def)

lemma padded_blocks:
  "0 < bs \<Longrightarrow> \<exists>k < bs. concat (blocks bs rest) = rest @ replicate k PAD \<and> bs dvd length rest + k"
proof (induction bs rest rule: blocks.induct)
  case (1 bs rest)
  show ?case
  proof (cases "length rest \<le> bs")
    case True
    show ?thesis
    proof (cases "rest = []")
      case False
      with True 1 have "concat (blocks bs rest) = rest @ replicate (bs - length rest) PAD"
        by (simp add: blocks.simps [of bs rest] blocks.simps [of bs "[]"] block_of_def min_absorb2)
      moreover have "bs - length rest < bs" using False 1 by simp
      ultimately show ?thesis using True by (intro exI [of _ "bs - length rest"]) simp
    qed (use 1 in \<open>simp add: blocks.simps [of bs "[]"]\<close>)
  next
    case False
    then have "rest \<noteq> []" by auto
    then have "\<not> (rest = [] \<or> bs = 0)" using "1.prems" by simp
    from "1.IH" [OF this "1.prems"] obtain k where k: "k < bs"
        "concat (blocks bs (drop bs rest)) = drop bs rest @ replicate k PAD"
        "bs dvd length (drop bs rest) + k" by blast
    moreover have "block_of bs rest = take bs rest" using False by (simp add: block_of_def)
    then have "concat (blocks bs rest) = take bs rest @ concat (blocks bs (drop bs rest))"
      using \<open>\<not> (rest = [] \<or> bs = 0)\<close> by (simp add: blocks.simps [of bs rest])
    then have "concat (blocks bs rest) = rest @ replicate k PAD" unfolding k(2) by simp
    moreover have "length rest + k = bs + (length (drop bs rest) + k)" using False by simp
    then have "bs dvd length rest + k" using k(3) by (metis dvd_add dvd_refl)
    ultimately show ?thesis by blast
  qed
qed

lemma build_mod: "build_xmodem_packet block (k mod 256) use_crc bs = build_xmodem_packet block k use_crc bs"
  by (simp add: build_xmodem_packet_def Let_def nat_and_masks)

lemma build_cong:
  "j mod 256 = k mod 256 \<Longrightarrow> build_xmodem_packet block j use_crc bs = build_xmodem_packet block k use_crc bs"
  by (metis build_mod)

lemma try_packet_delivers:
  assumes "receives ser use_crc bs got" "length block = bs"
    and "build_xmodem_packet block (Suc (length before)) use_crc bs = Inr p"
  shows "got e = before \<or> got e = before @ [block] \<Longrightarrow> try_packet ser p n e = (x, e')
    \<Longrightarrow> (got e' = before \<or> got e' = before @ [block]) \<and> (x = Inr True \<longrightarrow> got e' = before @ [block])"
proof (induction n arbitrary: e)
  case (Suc n)
  obtain r e1 where r: "exchange ser p e = (r, e1)" by (cases "exchange ser p e")
  have "got e1 = before @ [block] \<or> got e1 = before \<and> r \<noteq> Some ACK"
  proof (cases "got e = before")
    case True
    with assms r show ?thesis unfolding receives_def by (metis fst_conv snd_conv)
  next
    case False
    with Suc.prems assms r show ?thesis unfolding receives_def by (metis snd_conv)
  qed
  with Suc r show ?case by (auto split: if_splits)
qed auto

lemma send_blocks_delivers:
  assumes "receives ser use_crc bs got"
  shows "got e = before \<Longrightarrow> k mod 256 = Suc (length before) mod 256
    \<Longrightarrow> send_blocks ser use_crc m bs rest k e = (Inr (), e') \<Longrightarrow> 0 < bs \<Longrightarrow> got e' = before @ blocks bs rest"
proof (induction "length rest" arbitrary: rest before k e rule: less_induct)
  case less
  show ?case
  proof (cases "rest = []")
    case True
    with less.prems show ?thesis by (simp add: send_blocks.simps blocks.simps)
  next
    case False
    obtain p where p: "build_xmodem_packet (block_of bs rest) (Suc (length before)) use_crc bs = Inr p"
      using packet_shape [OF length_block_of, of bs rest] by blast
    moreover have pk: "build_xmodem_packet (block_of bs rest) k use_crc bs = Inr p"
      using p build_cong [OF less.prems(2)] by metis
    obtain e1 where e1: "try_packet ser p m e = (Inr True, e1)"
      and s: "send_blocks ser use_crc m bs (drop (min bs (length rest)) rest) ((k + 1) AND 0xFF) e1 = (Inr (), e')"
      using less.prems(3) False \<open>0 < bs\<close> pk
      by (subst (asm) send_blocks.simps) (auto split: prod.splits sum.splits bool.splits)
    have g: "got e1 = before @ [block_of bs rest]"
      using try_packet_delivers [OF assms length_block_of p _ e1] less.prems(1) by blast
    have "got e' = (before @ [block_of bs rest]) @ blocks bs (drop (min bs (length rest)) rest)"
    proof (rule less.hyps [OF _ g _ s])
      show "length (drop (min bs (length rest)) rest) < length rest" using False \<open>0 < bs\<close> by simp
      have "((k + 1) AND 0xFF) mod 256 = Suc k mod 256" by (simp add: nat_and_masks)
      also have "\<dots> = Suc (Suc (length before)) mod 256" using less.prems(2) by (metis mod_Suc_eq)
      finally show "((k + 1) AND 0xFF) mod 256 = Suc (length (before @ [block_of bs rest])) mod 256" by simp
    qed fact
    moreover have "drop (min bs (length rest)) rest = drop bs rest" by (cases "bs \<le> length rest") simp_all
    ultimately show ?thesis using False \<open>0 < bs\<close> by (simp add: blocks.simps [of bs rest])
  qed
qed

lemma send_eot_keeps:
  "receives ser use_crc bs got \<Longrightarrow> got (snd (send_eot ser m e)) = got e"
proof (induction m arbitrary: e)
  case (Suc m)
  from Suc.prems have "got (snd (exchange ser [EOT] e)) = got e" by (simp add: receives_def)
  with Suc show ?case by (simp add: split_beta Let_def)
qed simp

lemma send_xmodem_delivers:
  assumes "receives ser use_crc bs got" "got e = []" "send_xmodem ser firmware use_crc m bs e = (Inr (), e')"
  shows "got e' = blocks bs firmware"
proof -
  from assms(3) obtain e1 where b: "0 < bs" "send_blocks ser use_crc m bs firmware 1 e = (Inr (), e1)"
    "send_eot ser m e1 = (Inr (), e')"
    by (auto simp: send_xmodem_def split: if_splits prod.splits sum.splits)
  from send_blocks_delivers [OF assms(1,2) _ b(2,1)] have "got e1 = blocks bs firmware" by simp
  with send_eot_keeps [OF assms(1), of m e1] b(3) show ?thesis by simp
qed

lemma try_packet_returns:
  "faulty_at_most ser faults \<Longrightarrow> faults e < m
    \<Longrightarrow> \<exists>e'. try_packet ser p m e = (Inr True, e') \<and> faults e' \<le> faults e"
proof (induction m arbitrary: e)
  case (Suc m)
  obtain r e1 where r: "exchange ser p e = (r, e1)" by (cases "exchange ser p e")
  from Suc.prems(1) consider "r = Some ACK" "faults e1 \<le> faults e"
    | "r \<noteq> Some ACK" "r \<noteq> Some CAN" "faults e1 < faults e"
    unfolding faulty_at_most_def using r by (metis fst_conv insertI1 insertI2 snd_conv)
  then show ?case
  proof cases
    case 2
    with Suc.prems obtain e' where "try_packet ser p m e1 = (Inr True, e')" "faults e' \<le> faults e1"
      using Suc.IH [of e1] by auto
    with 2 r show ?thesis by auto
  qed (use r in auto)
qed simp

lemma send_eot_returns:
  "faulty_at_most ser faults \<Longrightarrow> faults e < m \<Longrightarrow> \<exists>e'. send_eot ser m e = (Inr (), e')"
proof (induction m arbitrary: e)
  case (Suc m)
  obtain r e1 where r: "exchange ser [EOT] e = (r, e1)" by (cases "exchange ser [EOT] e")
  from Suc.prems(1) consider "r = Some ACK" | "r \<noteq> Some ACK" "r \<noteq> Some CAN" "faults e1 < faults e"
    unfolding faulty_at_most_def using r by (metis fst_conv insertI1 insertI2 snd_conv)
  then show ?case
  proof cases
    case 2
    with Suc show ?thesis using r by auto
  qed (use r in auto)
qed simp

lemma send_blocks_returns:
  "faulty_at_most ser faults \<Longrightarrow> faults e < m
    \<Longrightarrow> \<exists>e'. send_blocks ser use_crc m bs rest k e = (Inr (), e') \<and> faults e' \<le> faults e"
proof (induction "length rest" arbitrary: rest k e rule: less_induct)
  case less
  show ?case
  proof (cases "rest = [] \<or> bs = 0")
    case False
    obtain p where p: "build_xmodem_packet (block_of bs rest) k use_crc bs = Inr p"
      using packet_shape [OF length_block_of, of bs rest] by blast
    obtain e1 where e1: "try_packet ser p m e = (Inr True, e1)" "faults e1 \<le> faults e"
      using try_packet_returns [OF less.prems] by blast
    obtain e2 where "send_blocks ser use_crc m bs (drop (min bs (length rest)) rest) ((k + 1) AND 0xFF) e1 = (Inr (), e2)"
        "faults e2 \<le> faults e1"
      using less.hyps [of "drop (min bs (length rest)) rest" e1 "(k + 1) AND 0xFF"] False less.prems e1(2) by auto
    with False p e1 show ?thesis by (subst send_blocks.simps) auto
  qed (simp add: send_blocks.simps)
qed

lemma send_xmodem_returns:
  assumes "faulty_at_most ser faults" "faults e < m" "0 < bs"
  shows "\<exists>e'. send_xmodem ser firmware use_crc m bs e = (Inr (), e')"
proof -
  from send_blocks_returns [OF assms(1,2), of use_crc bs firmware 1] obtain e1
    where "send_blocks ser use_crc m bs firmware 1 e = (Inr (), e1)" "faults e1 \<le> faults e" by blast
  with send_eot_returns [OF assms(1), of e1 m] assms(2,3) show ?thesis by (auto simp: send_xmodem_def)
qed


text \<open>
  C22. With fewer lost answers on the line than tries allowed for a packet, the
  transfer of any firmware ends with success and with all its blocks delivered.
\<close>

theorem xmodem_completes:
  assumes "receives ser use_crc bs got" "got e = []" "faulty_at_most ser faults" "faults e < m" "0 < bs"
  shows "\<exists>e'. send_xmodem ser firmware use_crc m bs e = (Inr (), e') \<and> got e' = blocks bs firmware"
  using send_xmodem_returns [OF assms(3-5)] send_xmodem_delivers [OF assms(1,2)] by metis

text \<open>
  A receiver of two-byte blocks with checksums, on a line that spoils the next \<open>n\<close> exchanges: the
  packet is lost when \<open>n\<close> is odd and the answer when it is even, and only a dot comes back.
\<close>

definition lab_take :: "bytes list \<Rightarrow> bytes \<Rightarrow> bytes list" where
  "lab_take taken p =
     (if length p = 6 \<and> unat (p ! 1) = Suc (length taken) mod 256 then taken @ [py_slice p 3 5] else taken)"

definition lab_port :: "(bytes list \<times> nat \<times> bytes list) port" where
  "lab_port = \<lparr>po_write = (\<lambda>p (taken, n, line). (if odd n then taken else lab_take taken p, n - 1,
                 if n = 0 then [[ACK]] else [[0x2E]])),
     po_arrive = (\<lambda>(taken, n, line). line),
     po_read = (\<lambda>k (taken, n, line). (taken, n, drop k line))\<rparr>"

lemma lab_exchange:
  "exchange lab_port p (taken, n, line) = (if n = 0 then Some ACK else None,
     (if odd n then taken else lab_take taken p, n - 1, []))"
  by (simp add: exchange_def read_xmodem_response_def lab_port_def ACK_def NAK_def CAN_def)

lemma lab_shape:
  assumes "length block = 2" "build_xmodem_packet block (Suc k) False 2 = Inr p"
  shows "length p = 6 \<and> unat (p ! 1) = Suc k mod 256 \<and> py_slice p 3 5 = block"
proof -
  have "unat (of_nat (Suc k mod 256) :: byte) = Suc k mod 256"
    using mod_less_divisor [of 256 "Suc k"] by (simp only: unat_of_nat_byte) simp
  with packet_shape [OF assms(1), of "Suc k" False] assms show ?thesis by (auto simp: py_slice_def)
qed

lemma lab_next:
  "length block = 2 \<Longrightarrow> build_xmodem_packet block (Suc (length taken)) False 2 = Inr p
    \<Longrightarrow> lab_take taken p = taken @ [block]"
  using lab_shape [of block "length taken" p] by (simp add: lab_take_def)

lemma lab_again:
  assumes "length block = 2" "build_xmodem_packet block (Suc (length before)) False 2 = Inr p"
  shows "lab_take (before @ [block]) p = before @ [block]"
proof -
  have "Suc k mod 256 \<noteq> Suc (Suc k) mod (256 :: nat)" for k
    by (cases "Suc (Suc k mod 256) = 256") (simp_all add: mod_Suc [of "Suc k"] del: mod_Suc_eq)
  then have "unat (p ! 1) \<noteq> Suc (length (before @ [block])) mod 256" using lab_shape [OF assms] by simp
  then show ?thesis unfolding lab_take_def by (simp only: simp_thms if_False)
qed

lemma lab_receives: "receives lab_port False 2 fst"
  unfolding receives_def
proof (intro conjI allI impI; (elim conjE)?)
  fix e :: "bytes list \<times> nat \<times> bytes list" and block p
  assume "length block = 2" "build_xmodem_packet block (Suc (length (fst e))) False 2 = Inr p"
  then show "fst (snd (exchange lab_port p e)) = fst e @ [block]
      \<or> fst (snd (exchange lab_port p e)) = fst e \<and> fst (exchange lab_port p e) \<noteq> Some ACK"
    by (cases e) (auto simp: lab_exchange lab_next elim: oddE)
next
  fix e :: "bytes list \<times> nat \<times> bytes list" and before block p
  assume "fst e = before @ [block]" "length block = 2"
    "build_xmodem_packet block (Suc (length before)) False 2 = Inr p"
  then show "fst (snd (exchange lab_port p e)) = fst e" by (cases e) (simp add: lab_exchange lab_again)
next
  show "fst (snd (exchange lab_port [EOT] e)) = fst e" for e
    by (cases e) (simp add: lab_exchange lab_take_def)
qed

lemma lab_faults: "faulty_at_most lab_port (\<lambda>e. fst (snd e))"
  by (auto simp: faulty_at_most_def lab_exchange)

lemma lab_run:
  "send_xmodem lab_port [1, 2, 3] False 4 2 ([], 3, []) = (Inr (), ([[1, 2], [3, PAD]], 0, []))"
  by code_simp


theorem xmodem_completes_witness:
  "\<exists>e'. send_xmodem lab_port [1, 2, 3] False 4 2 ([], 3, []) = (Inr (), e') \<and> fst e' = blocks 2 [1, 2, 3]"
  by (rule xmodem_completes [OF lab_receives _ lab_faults]) simp_all

section \<open>Late answers\<close>

text \<open>
  A line on which every answer arrives one reading late, with the same receiver behind it, which
  answers a spoilt packet with NAK: the packets of \<open>spoilt\<close>, counted by the writes, arrive damaged.
\<close>

definition slow_port :: "nat \<Rightarrow> (bytes list \<times> nat \<times> bytes) port" where
  "slow_port spoilt = \<lparr>po_write = (\<lambda>p (taken, n, line).
       if n = spoilt then (taken, Suc n, line @ [NAK]) else (lab_take taken p, Suc n, line @ [ACK])),
     po_arrive = (\<lambda>(taken, n, line). map (\<lambda>b. [b]) (butlast line)),
     po_read = (\<lambda>k (taken, n, line). (taken, n, drop k line))\<rparr>"


section \<open>The dialogue around the transfer\<close>

text \<open>
  \<open>flash\<close> talks to the boot loader in text before and after the transfer. What its polling loops
  see until their deadline is a list of polls: a chunk, or nothing there, with whether the time
  without data has reached the quiet period. \<open>console\<close> adds to the port the polls of a timeout
  and a quiet period in milliseconds, how many of them are over, whether nothing is waiting, the
  rounds that the boot timeout allows, the answers of \<open>_read_byte\<close> while the request is awaited,
  and the change of the baud rate. An ASCII decoding with replacement works byte by byte; the
  replacement character is \<open>CHR 0xFF\<close> here.
\<close>

datatype poll = Chunk bytes | Idle bool

record 'e console = "'e port" +
  co_polls :: "nat \<Rightarrow> nat \<Rightarrow> 'e \<Rightarrow> poll list"
  co_polled :: "nat \<Rightarrow> 'e \<Rightarrow> 'e"
  co_idle :: "'e \<Rightarrow> bool"
  co_rounds :: "'e \<Rightarrow> nat"
  co_requests :: "'e \<Rightarrow> byte option list"
  co_baud :: "int \<Rightarrow> 'e \<Rightarrow> 'e"

definition ascii_text :: "bytes \<Rightarrow> string" where
  "ascii_text = map (\<lambda>b. if unat b < 128 then char_of (unat b) else CHR 0xFF)"

fun contains :: "string \<Rightarrow> string \<Rightarrow> bool" where
  "contains [] pat = (pat = [])"
| "contains (c # s) pat = (prefix pat (c # s) \<or> contains s pat)"

fun until_quiet :: "poll list \<Rightarrow> bytes \<Rightarrow> nat \<Rightarrow> bytes \<times> nat" where
  "until_quiet [] buf n = (buf, n)"
| "until_quiet (Chunk c # ps) buf n = until_quiet ps (buf @ c) (Suc n)"
| "until_quiet (Idle quiet # ps) buf n =
     (if buf \<noteq> [] \<and> quiet then (buf, Suc n) else until_quiet ps buf (Suc n))"

definition read_text_until_quiet :: "('e, 'z) console_scheme \<Rightarrow> nat \<Rightarrow> nat \<Rightarrow> 'e \<Rightarrow> string \<times> 'e" where
  "read_text_until_quiet ser timeout quiet e =
     (let (buf, n) = until_quiet (co_polls ser timeout quiet e) [] 0 in (ascii_text buf, co_polled ser n e))"

fun until_marker :: "string list \<Rightarrow> poll list \<Rightarrow> bytes \<Rightarrow> nat \<Rightarrow> bytes \<times> nat" where
  "until_marker markers [] buf n = (buf, n)"
| "until_marker markers (Chunk c # ps) buf n =
     (if list_ex (contains (ascii_text (buf @ c))) markers then (buf @ c, Suc n)
      else until_marker markers ps (buf @ c) (Suc n))"
| "until_marker markers (Idle quiet # ps) buf n = until_marker markers ps buf (Suc n)"

definition read_text_until_marker :: "('e, 'z) console_scheme \<Rightarrow> nat \<Rightarrow> string list \<Rightarrow> 'e \<Rightarrow> string \<times> 'e" where
  "read_text_until_marker ser timeout markers e =
     (let (buf, n) = until_marker markers (co_polls ser timeout 0 e) [] 0 in (ascii_text buf, co_polled ser n e))"

definition send_line :: "('e, 'z) console_scheme \<Rightarrow> string \<Rightarrow> 'e \<Rightarrow> 'e" where
  "send_line ser line e = po_write ser (map (\<lambda>c. of_nat (of_char c)) line @ [0x0D, 0x0A]) e"

definition test_bootloader_text :: "string \<Rightarrow> bool" where
  "test_bootloader_text text \<longleftrightarrow> contains text ''[image /]#'' \<or> contains text ''You can input command''"

definition invoke_bootloader_navigation :: "('e, 'z) console_scheme \<Rightarrow> string \<Rightarrow> 'e \<Rightarrow> string \<times> 'e" where
  "invoke_bootloader_navigation ser text e =
     (let (extra, e) =
            (if contains text (''Press '' @ [CHR 0x27, CHR ''d'', CHR 0x27] @ '' key'')
             then read_text_until_quiet ser 2000 200 (po_write ser [0x64] e) else ('''', e));
          (extra, e) =
            (if contains (text @ extra) ''[root /]#''
             then (let (t, e) = read_text_until_quiet ser 2000 200 (send_line ser ''image'' e) in (extra @ t, e))
             else (extra, e))
      in (text @ extra, e))"

fun boot_rounds :: "('e, 'z) console_scheme \<Rightarrow> nat \<Rightarrow> string \<Rightarrow> 'e \<Rightarrow> bool \<times> 'e" where
  "boot_rounds ser 0 seen e = (False, e)"
| "boot_rounds ser (Suc k) seen e =
     (let e = (if co_idle ser e then po_write ser [0x03] e else e);
          (piece, e) = read_text_until_quiet ser 500 120 e in
      if piece = '''' then boot_rounds ser k seen e
      else let (t, e) = invoke_bootloader_navigation ser piece e in
        if test_bootloader_text (seen @ t) then (True, e) else boot_rounds ser k (seen @ t) e)"

text \<open>A command with a character outside ASCII cannot be sent (UnicodeEncodeError).\<close>

definition wait_bootloader_prompt ::
  "('e, 'z) console_scheme \<Rightarrow> string \<Rightarrow> nat \<Rightarrow> 'e \<Rightarrow> (py_exc + bool) \<times> 'e" where
  "wait_bootloader_prompt ser command timeout e =
     (let (text, e) = read_text_until_quiet ser timeout 200 (send_line ser '''' e);
          (text, e) = invoke_bootloader_navigation ser text e in
      if test_bootloader_text text then (Inr True, e)
      else if list_ex (\<lambda>c. 128 \<le> (of_char c :: nat)) command then (Inl ValueError, e)
      else
        let e = (if command \<noteq> '''' then send_line ser command e else e);
            (found, e) = boot_rounds ser (co_rounds ser e) '''' e
        in (Inr found, e))"

definition SUCCESS_MARKERS :: "string list" where
  "SUCCESS_MARKERS = [''Image download OK'', ''download'', ''success'']"

text \<open>
  \<open>flash\<close>, with what reading the firmware file gives as an argument (\<open>resolve_bin_path\<close> and
  the file system are outside), \<open>enter_bootloader_command\<close> and \<open>no_reboot_after\<close> as \<open>command\<close>
  and \<open>stay\<close>. The text after \<open>download\<close> is only logged.
\<close>

definition flash ::
  "('e, 'z) console_scheme \<Rightarrow> py_exc + bytes \<Rightarrow> nat \<Rightarrow> int list option \<Rightarrow> bool \<Rightarrow> string \<Rightarrow> 'e
     \<Rightarrow> (py_exc + unit) \<times> 'e" where
  "flash ser file slot baud_plan stay command e =
     (let plan = (case baud_plan of Some (b # bs) \<Rightarrow> b # bs | _ \<Rightarrow> [115200]) in
      case file of
        Inl x \<Rightarrow> (Inl x, e)
      | Inr firmware \<Rightarrow>
          (case wait_bootloader_prompt ser command 3000 (co_baud ser (hd plan) e) of
             (Inl x, e) \<Rightarrow> (Inl x, e)
           | (Inr False, e) \<Rightarrow> (Inl RuntimeError, e)
           | (Inr True, e) \<Rightarrow>
               (let (_, e) = read_text_until_quiet ser 5000 300 (send_line ser (''download '' @ show_nat slot) e);
                    (_, e) = read_text_until_quiet ser 1500 300 (send_line ser ''Y'' e) in
                case wait_xmodem_request (co_requests ser e) of
                  Inl x \<Rightarrow> (Inl x, e)
                | Inr use_crc \<Rightarrow>
                    (case send_xmodem (port.truncate ser) firmware use_crc 10 1024 e of
                       (Inl x, e) \<Rightarrow> (Inl x, e)
                     | (Inr _, e) \<Rightarrow>
                         (let (result, e) = read_text_until_marker ser 15000 SUCCESS_MARKERS e in
                          if \<not> list_ex (contains result) SUCCESS_MARKERS then (Inl RuntimeError, e)
                          else (Inr (), if stay then e
                            else snd (read_text_until_quiet ser 3000 300 (send_line ser ''reboot'' e))))))))"

text \<open>
  A boot loader that shows its prompt at once, asks for a transfer without CRC, acknowledges
  everything and then says that the download failed; its state is the text it will say.
\<close>

definition failing_console :: "bytes console" where
  "failing_console = \<lparr>po_write = (\<lambda>d s. s), po_arrive = (\<lambda>s. [[ACK]]), po_read = (\<lambda>n s. s),
     co_polls = (\<lambda>timeout quiet s.
       if timeout = 15000 then [Idle False, Chunk s]
       else [Chunk (map (\<lambda>c. of_nat (of_char c)) ''[image /]#''), Idle True]),
     co_polled = (\<lambda>n s. s), co_idle = (\<lambda>s. False), co_rounds = (\<lambda>s. 0), co_requests = (\<lambda>s. [Some NAK]),
     co_baud = (\<lambda>b s. s)\<rparr>"

lemma ascii_text_encoded:
  "list_all (\<lambda>c. (of_char c :: nat) < 128) s \<Longrightarrow> ascii_text (map (\<lambda>c. of_nat (of_char c)) s) = s"
  by (induction s) (auto simp: ascii_text_def unat_of_nat_byte)

lemma failing_prompt:
  "read_text_until_quiet failing_console t q s = (''[image /]#'', s)" if "t \<noteq> 15000" for t q s
  using that ascii_text_encoded [of "''[image /]#''"]
  by (simp add: read_text_until_quiet_def failing_console_def)

lemma failing_flash:
  assumes "list_all (\<lambda>c. (of_char c :: nat) < 128) words"
  shows "fst (flash failing_console (Inr []) 0 None True ''reboot'' (map (\<lambda>c. of_nat (of_char c)) words))
    = (if list_ex (contains words) SUCCESS_MARKERS then Inr () else Inl RuntimeError)"
proof -
  let ?s = "map (\<lambda>c. of_nat (of_char c)) words :: bytes"
  have prompt: "test_bootloader_text ''[image /]#'' " by code_simp
  have nav: "invoke_bootloader_navigation failing_console ''[image /]#'' e = (''[image /]#'', e)" for e
    by (simp add: invoke_bootloader_navigation_def)
  have line: "send_line failing_console l e = e" "co_baud failing_console b e = e"
    "co_requests failing_console e = [Some NAK]" for l b e
    by (simp_all add: send_line_def failing_console_def)
  have sent: "send_xmodem (port.truncate failing_console) [] c 10 1024 e = (Inr (), e)" for c e
    by (simp add: send_xmodem_def send_blocks.simps numeral_eq_Suc exchange_def read_xmodem_response_def
        failing_console_def port.truncate_def)
  have "read_text_until_marker failing_console 15000 SUCCESS_MARKERS e = (ascii_text e, e)" for e
    by (simp add: read_text_until_marker_def failing_console_def)
  with assms show ?thesis
    by (simp add: flash_def wait_bootloader_prompt_def failing_prompt nav prompt line sent ascii_text_encoded
        CRCCHR_def NAK_def)
qed

text \<open>
  The boot loader's words are searched for \<open>download\<close>, so that also
  a report that the download failed ends \<open>flash\<close> with success.
\<close>

theorem failed_flash_succeeds:
  "fst (flash failing_console (Inr []) 0 None True ''reboot''
      (map (\<lambda>c. of_nat (of_char c)) ''Image download failed'')) = Inr ()
   \<and> fst (flash failing_console (Inr []) 0 None True ''reboot''
      (map (\<lambda>c. of_nat (of_char c)) ''Image rejected'')) = Inl RuntimeError"
proof -
  have "list_ex (contains ''Image download failed'') SUCCESS_MARKERS" by code_simp
  moreover have "\<not> list_ex (contains ''Image rejected'') SUCCESS_MARKERS" by code_simp
  moreover have "list_all (\<lambda>c. (of_char c :: nat) < 128) ''Image download failed''"
    "list_all (\<lambda>c. (of_char c :: nat) < 128) ''Image rejected''" by simp_all
  ultimately show ?thesis by (simp only: failing_flash if_True if_False simp_thms)
qed

end
