(* ===== verification/Log_Sequence.thy ===== *)
theory Log_Sequence
  imports Py_Values "HOL-Library.AList"
begin

text \<open>
  Event rules over several log lines, \<open>libs/loghooks/sequence.py\<close> with the data of
  \<open>libs/loghooks/rules.py\<close> and \<open>sources.py\<close>: the tracker that follows one rule through
  interleaved flows, one state machine per bucket.

  Rules bring their own regular expressions; matching one is an argument \<open>re\<close> of the model, which
  gives the groups of the first match, the whole match as group 0. Time stamps count in
  milliseconds without a change of the offset of local time, and are compared exactly.
\<close>

section \<open>Rules and lines\<close>

type_synonym groups = "string option list"
type_synonym search = "string \<Rightarrow> string list \<Rightarrow> string \<Rightarrow> groups option"

record match_def =
  md_mode :: string
  md_pattern :: "string option"
  md_flags :: "string list"
  md_field :: "string option"
  md_op :: "string option"
  md_value :: pv
  md_file :: "string option"
  md_line :: "int option"
  md_tolerance :: int

record sequence_step =
  ss_step :: string
  ss_pattern :: string
  ss_flags :: "string list"
  ss_group :: "int option"

record sequence_def =
  sd_steps :: "sequence_step list"
  sd_window :: int
  sd_complete :: "(string \<times> string) list option"
  sd_timeout :: "(string \<times> string) list option"
  sd_bucket :: "string option"

record log_rule =
  lr_id :: string
  lr_category :: string
  lr_level :: string
  lr_scope :: string
  lr_module :: string
  lr_province :: "string option"
  lr_source :: "string list"
  lr_match :: "match_def option"
  lr_sequence :: "sequence_def option"
  lr_capture :: "(string \<times> pv) list"
  lr_event :: "(string \<times> string) list"

record parsed_line =
  pl_source :: string
  pl_raw :: string
  pl_time :: "string option"
  pl_text :: "string option"
  pl_fields :: "pv option"
  pl_line :: "int option"
  pl_idx :: "int option"   \<comment> \<open>\<open>metadata.get("_idx")\<close>\<close>

section \<open>Time stamps\<close>

text \<open>Days since 1970 of a date, counted from March; \<open>None\<close> where \<open>datetime\<close> raises.\<close>

definition leap :: "int \<Rightarrow> bool" where
  "leap y \<longleftrightarrow> y mod 4 = 0 \<and> (y mod 100 \<noteq> 0 \<or> y mod 400 = 0)"

definition month_days :: "int \<Rightarrow> int \<Rightarrow> int" where
  "month_days y m = (if m = 2 then (if leap y then 29 else 28) else if m \<in> {4, 6, 9, 11} then 30 else 31)"

definition day_number :: "int \<Rightarrow> int \<Rightarrow> int \<Rightarrow> int" where
  "day_number y m d =
     (let y' = (if m \<le> 2 then y - 1 else y); m' = (if m \<le> 2 then m + 9 else m - 3)
      in 365 * y' + y' div 4 - y' div 100 + y' div 400 + (153 * m' + 2) div 5 + d - 719469)"

definition date_ms :: "int \<Rightarrow> int \<Rightarrow> int \<Rightarrow> int \<Rightarrow> int \<Rightarrow> int \<Rightarrow> int \<Rightarrow> int option" where
  "date_ms y mo d h mi s ms =
     (if 1 \<le> y \<and> 1 \<le> mo \<and> mo \<le> 12 \<and> 1 \<le> d \<and> d \<le> month_days y mo \<and> h < 24 \<and> mi < 60 \<and> s < 60
      then Some ((((day_number y mo d * 24 + h) * 60 + mi) * 60 + s) * 1000 + ms) else None)"

text \<open>\<open>re.match\<close> with \<open>YYYYMMDD-HH:MM:SS:mmm\<close>: what follows the 21 characters is ignored.\<close>

definition num_at :: "string \<Rightarrow> nat \<Rightarrow> nat \<Rightarrow> int option" where
  "num_at s i n = (let t = py_slice s i (i + n) in
     if length t = n \<and> list_all is_digit t then map_option int (int_digits 0 t) else None)"

definition parse_ts_to_ms :: "string \<Rightarrow> int option" where
  "parse_ts_to_ms ts =
     (if map (\<lambda>i. py_at ts i) [8, 11, 14, 17] = [Some CHR ''-'', Some CHR '':'', Some CHR '':'', Some CHR '':'']
      then do { y \<leftarrow> num_at ts 0 4;
                mo \<leftarrow> num_at ts 4 2;
                d \<leftarrow> num_at ts 6 2;
                h \<leftarrow> num_at ts 9 2;
                mi \<leftarrow> num_at ts 12 2;
                s \<leftarrow> num_at ts 15 2;
                ms \<leftarrow> num_at ts 18 3;
                date_ms y mo d h mi s ms }
      else None)"

section \<open>Messages\<close>

text \<open>
  \<open>template.format(**captures)\<close> for templates of text, doubled braces and \<open>{name}\<close>: a missing
  name is a KeyError, a number or nothing as the name an IndexError, a lone brace a ValueError.
  Fields with a conversion, a format, an attribute or an index count as a lone brace.
\<close>

definition py_field :: "string \<Rightarrow> pdict \<Rightarrow> string res" where
  "py_field name caps =
     (if list_ex (\<lambda>c. c \<in> set ''!:.[{'') name then Inl ValueError
      else if list_all is_digit name then Inl IndexError
      else case map_of caps name of None \<Rightarrow> Inl KeyError | Some v \<Rightarrow> Inr (to_str v))"

fun py_format_from :: "string \<Rightarrow> string option \<Rightarrow> pdict \<Rightarrow> string res" where
  "py_format_from [] None caps = Inr []"
| "py_format_from [] (Some name) caps = Inl ValueError"
| "py_format_from (c # cs) (Some name) caps =
     (if c = CHR 0x7D
      then andThen (py_field name caps) (\<lambda>t. andThen (py_format_from cs None caps) (\<lambda>r. Inr (t @ r)))
      else py_format_from cs (Some (name @ [c])) caps)"
| "py_format_from (c # cs) None caps =
     (if c = CHR 0x7B
      then (case cs of d # ds \<Rightarrow>
              if d = CHR 0x7B then andThen (py_format_from ds None caps) (\<lambda>r. Inr (c # r))
              else py_format_from cs (Some []) caps
            | [] \<Rightarrow> Inl ValueError)
      else if c = CHR 0x7D
      then (case cs of d # ds \<Rightarrow>
              if d = CHR 0x7D then andThen (py_format_from ds None caps) (\<lambda>r. Inr (c # r)) else Inl ValueError
            | [] \<Rightarrow> Inl ValueError)
      else andThen (py_format_from cs None caps) (\<lambda>r. Inr (c # r)))"

definition py_format :: "string \<Rightarrow> pdict \<Rightarrow> string res" where
  "py_format template caps = py_format_from template None caps"

section \<open>The tracker\<close>

type_synonym bucket = "string option"   \<comment> \<open>\<open>None\<close> where the group of the bucket took no part\<close>

record sequence_event =
  se_rule :: string
  se_type :: string
  se_label :: string
  se_message :: string
  se_level :: string
  se_time :: string
  se_bucket :: bucket
  se_captures :: pdict

record machine =
  mc_start :: string
  mc_start_ms :: "int option"
  mc_current :: nat
  mc_times :: "string option list"
  mc_captures :: pdict

record tracker =
  tk_machines :: "(bucket \<times> machine) list"
  tk_events :: "sequence_event list"

definition new_tracker :: tracker where
  "new_tracker = \<lparr>tk_machines = [], tk_events = []\<rparr>"

definition time_of :: "parsed_line \<Rightarrow> string" where
  "time_of line = (case pl_time line of None \<Rightarrow> '''' | Some t \<Rightarrow> t)"

text \<open>\<open>dict.update\<close>\<close>

definition dict_update :: "pdict \<Rightarrow> pdict \<Rightarrow> pdict" where
  "dict_update d e = fold (\<lambda>(k, v). AList.update k v) e d"

definition new_machine :: "sequence_def \<Rightarrow> parsed_line \<Rightarrow> machine" where
  "new_machine seq line = \<lparr>mc_start = time_of line, mc_start_ms = parse_ts_to_ms (time_of line),
     mc_current = 0, mc_times = replicate (length (sd_steps seq)) None, mc_captures = []\<rparr>"

definition advance :: "nat \<Rightarrow> parsed_line \<Rightarrow> pdict \<Rightarrow> machine \<Rightarrow> machine" where
  "advance i line caps mc = mc\<lparr>mc_times := (mc_times mc)[i := pl_time line],
     mc_captures := dict_update (mc_captures mc) caps, mc_current := Suc i\<rparr>"

definition is_expired :: "sequence_def \<Rightarrow> int option \<Rightarrow> machine \<Rightarrow> bool" where
  "is_expired seq now mc =
     (if sd_window seq \<le> 0 then False
      else case (now, mc_start_ms mc) of
        (Some n, Some s) \<Rightarrow> s + sd_window seq < n
      | _ \<Rightarrow> False)"

text \<open>\<open>_get_field\<close>: a path of names separated by dots.\<close>

fun split_dots :: "string \<Rightarrow> string \<Rightarrow> string list" where
  "split_dots acc [] = [acc]"
| "split_dots acc (c # cs) = (if c = CHR ''.'' then acc # split_dots [] cs else split_dots (acc @ [c]) cs)"

fun walk_path :: "pv \<Rightarrow> string list \<Rightarrow> pv option" where
  "walk_path v [] = Some v"
| "walk_path v (p # ps) =
     (case v of PDict d \<Rightarrow> (case map_of d p of None \<Rightarrow> None | Some w \<Rightarrow> walk_path w ps) | _ \<Rightarrow> None)"

definition get_field :: "parsed_line \<Rightarrow> string \<Rightarrow> pv" where
  "get_field line path =
     (case pl_fields line of
        None \<Rightarrow> PNone
      | Some v \<Rightarrow> (case walk_path v (split_dots [] path) of None \<Rightarrow> PNone | Some w \<Rightarrow> w))"

text \<open>\<open>m.group(n)\<close>: \<open>None\<close> is the IndexError.\<close>

definition group_of :: "groups \<Rightarrow> int \<Rightarrow> string option option" where
  "group_of g n = (if 0 \<le> n then py_at g (nat n) else None)"

fun step_bucket :: "search \<Rightarrow> sequence_step list \<Rightarrow> parsed_line \<Rightarrow> bucket" where
  "step_bucket re [] line = Some ''_default''"
| "step_bucket re (st # sts) line =
     (case ss_group st of
        None \<Rightarrow> step_bucket re sts line
      | Some n \<Rightarrow>
          (case re (ss_pattern st) (ss_flags st) (case pl_text line of None \<Rightarrow> '''' | Some t \<Rightarrow> t) of
             None \<Rightarrow> step_bucket re sts line
           | Some g \<Rightarrow>
               (case group_of g n of None \<Rightarrow> step_bucket re sts line | Some b \<Rightarrow> b)))"

definition bucket_for :: "search \<Rightarrow> sequence_def \<Rightarrow> parsed_line \<Rightarrow> bucket" where
  "bucket_for re seq line =
     (case sd_bucket seq of
        None \<Rightarrow> step_bucket re (sd_steps seq) line
      | Some path \<Rightarrow>
          (if path \<noteq> '''' \<and> get_field line path \<noteq> PNone then Some (to_str (get_field line path))
           else step_bucket re (sd_steps seq) line))"

text \<open>
  \<open>_try_match_step\<close>: \<open>step<i>\<close> is the i-th group, whatever the step; a capture of the rule
  names a step by its number and takes the first group. The step is looked up by its value.
\<close>

definition group_captures :: "groups \<Rightarrow> pdict" where
  "group_captures g = concat (map (\<lambda>i. case g ! i of None \<Rightarrow> [] | Some t \<Rightarrow> [(''step'' @ show_nat i, PStr t)])
     [1..<length g])"

definition rule_captures :: "(string \<times> pv) list \<Rightarrow> nat option \<Rightarrow> groups \<Rightarrow> pdict" where
  "rule_captures specs index g = concat (map (\<lambda>(name, spec).
     case (to_int spec, index, py_at g 1) of
       (Inr n, Some i, Some (Some t)) \<Rightarrow> if n - 1 = int i then [(name, PStr t)] else []
     | _ \<Rightarrow> []) specs)"

definition try_match_step :: "search \<Rightarrow> log_rule \<Rightarrow> sequence_def \<Rightarrow> sequence_step \<Rightarrow> parsed_line \<Rightarrow> pdict option" where
  "try_match_step re rule seq st line =
     (case pl_text line of
        None \<Rightarrow> None
      | Some text \<Rightarrow>
          map_option (\<lambda>g. dict_update (dict_update [] (group_captures g))
              (rule_captures (lr_capture rule) (find_from st 0 (sd_steps seq)) g))
            (re (ss_pattern st) (ss_flags st) text))"

definition getd_str :: "(string \<times> string) list \<Rightarrow> string \<Rightarrow> string \<Rightarrow> string" where
  "getd_str d k dflt = (case map_of d k of None \<Rightarrow> dflt | Some v \<Rightarrow> v)"

text \<open>The last time of a step that is there; a \<open>next\<close> over the reversed list.\<close>

definition last_time :: "string option list \<Rightarrow> string" where
  "last_time ts = (case filter (\<lambda>t. t \<noteq> None \<and> t \<noteq> Some '''') (rev ts) of Some t # _ \<Rightarrow> t | _ \<Rightarrow> '''')"

definition emit_complete :: "log_rule \<Rightarrow> sequence_def \<Rightarrow> machine \<Rightarrow> bucket \<Rightarrow> sequence_event list res" where
  "emit_complete rule seq mc b =
     (case sd_complete seq of
        None \<Rightarrow> Inr []
      | Some [] \<Rightarrow> Inr []
      | Some oc \<Rightarrow>
          let ty = getd_str oc ''type'' (lr_id rule @ ''.complete''); template = getd_str oc ''message'' '''' in
          andThen (case py_format template (mc_captures mc) of Inl KeyError \<Rightarrow> Inr template | r \<Rightarrow> r)
            (\<lambda>msg. Inr [\<lparr>se_rule = lr_id rule, se_type = ty, se_label = getd_str oc ''label'' ty,
               se_message = (if msg = '''' then ty else msg), se_level = getd_str oc ''level'' (lr_level rule),
               se_time = last_time (mc_times mc), se_bucket = b, se_captures = mc_captures mc\<rparr>]))"

definition emit_timeout :: "log_rule \<Rightarrow> sequence_def \<Rightarrow> machine \<Rightarrow> bucket \<Rightarrow> sequence_event list" where
  "emit_timeout rule seq mc b =
     (case sd_timeout seq of
        None \<Rightarrow> []
      | Some [] \<Rightarrow> []
      | Some ot \<Rightarrow>
          let ty = getd_str ot ''type'' (lr_id rule @ ''.timeout'') in
          [\<lparr>se_rule = lr_id rule, se_type = ty, se_label = getd_str ot ''label'' ty,
            se_message = getd_str ot ''message'' (lr_id rule @ '' timeout''), se_level = getd_str ot ''level'' ''warn'',
            se_time = mc_start mc, se_bucket = b, se_captures = mc_captures mc\<rparr>])"

text \<open>\<open>_cleanup\<close>, \<open>_current_step_for\<close> and the loop over the steps of \<open>feed\<close>.\<close>

definition cleanup :: "log_rule \<Rightarrow> sequence_def \<Rightarrow> int option \<Rightarrow> tracker \<Rightarrow> tracker" where
  "cleanup rule seq now tk = tk\<lparr>
     tk_machines := filter (\<lambda>(b, mc). \<not> is_expired seq now mc) (tk_machines tk),
     tk_events := tk_events tk @ concat (map (\<lambda>(b, mc). if is_expired seq now mc then emit_timeout rule seq mc b else [])
       (tk_machines tk))\<rparr>"

definition current_step_for :: "tracker \<Rightarrow> bucket \<Rightarrow> nat" where
  "current_step_for tk b = (case map_of (tk_machines tk) b of None \<Rightarrow> 0 | Some mc \<Rightarrow> mc_current mc)"

fun first_step :: "search \<Rightarrow> log_rule \<Rightarrow> sequence_def \<Rightarrow> parsed_line \<Rightarrow> nat \<Rightarrow> nat \<Rightarrow> sequence_step list
    \<Rightarrow> (nat \<times> pdict) option" where
  "first_step re rule seq line cur i [] = None"
| "first_step re rule seq line cur i (st # sts) =
     (if i < cur then first_step re rule seq line cur (Suc i) sts
      else case try_match_step re rule seq st line of
        None \<Rightarrow> first_step re rule seq line cur (Suc i) sts
      | Some caps \<Rightarrow> Some (i, caps))"

definition put_machine :: "bucket \<Rightarrow> machine \<Rightarrow> tracker \<Rightarrow> tracker" where
  "put_machine b mc tk = tk\<lparr>tk_machines := AList.update b mc (tk_machines tk)\<rparr>"

definition drop_machine :: "bucket \<Rightarrow> tracker \<Rightarrow> tracker" where
  "drop_machine b tk = tk\<lparr>tk_machines := AList.delete b (tk_machines tk)\<rparr>"

text \<open>\<open>_reset_to\<close> when a step is skipped, \<open>_get_or_create\<close> and \<open>advance\<close>.\<close>

definition step_machine :: "sequence_def \<Rightarrow> parsed_line \<Rightarrow> bucket \<Rightarrow> nat \<Rightarrow> pdict \<Rightarrow> tracker \<Rightarrow> tracker" where
  "step_machine seq line b i caps tk =
     (let tk = (if current_step_for tk b < i then drop_machine b tk else tk);
          mc = (case map_of (tk_machines tk) b of None \<Rightarrow> new_machine seq line | Some mc \<Rightarrow> mc)
      in put_machine b (advance i line caps mc) tk)"

definition finish_machine :: "log_rule \<Rightarrow> sequence_def \<Rightarrow> bucket \<Rightarrow> tracker \<Rightarrow> unit res \<times> tracker" where
  "finish_machine rule seq b tk =
     (case map_of (tk_machines tk) b of
        None \<Rightarrow> (Inr (), tk)
      | Some mc \<Rightarrow>
          if length (sd_steps seq) \<le> mc_current mc
          then (case emit_complete rule seq mc b of
                  Inl e \<Rightarrow> (Inl e, tk)
                | Inr evs \<Rightarrow> (Inr (), drop_machine b (tk\<lparr>tk_events := tk_events tk @ evs\<rparr>)))
          else (Inr (), tk))"

text \<open>The events that have gathered are returned and forgotten.\<close>

definition take_events :: "tracker \<Rightarrow> sequence_event list res \<times> tracker" where
  "take_events tk = (Inr (tk_events tk), tk\<lparr>tk_events := []\<rparr>)"

definition tracker_feed :: "search \<Rightarrow> log_rule \<Rightarrow> parsed_line \<Rightarrow> tracker \<Rightarrow> sequence_event list res \<times> tracker" where
  "tracker_feed re rule line tk =
     (case lr_sequence rule of
        None \<Rightarrow> (Inr [], tk)
      | Some seq \<Rightarrow>
          let tk = cleanup rule seq (parse_ts_to_ms (time_of line)) tk;
              b = bucket_for re seq line
          in case first_step re rule seq line (current_step_for tk b) 0 (sd_steps seq) of
               None \<Rightarrow> take_events tk
             | Some (i, caps) \<Rightarrow>
                 (case finish_machine rule seq b (step_machine seq line b i caps tk) of
                    (Inl e, tk) \<Rightarrow> (Inl e, tk)
                  | (Inr _, tk) \<Rightarrow> take_events tk))"

definition tracker_flush :: "log_rule \<Rightarrow> tracker \<Rightarrow> sequence_event list \<times> tracker" where
  "tracker_flush rule tk =
     (case lr_sequence rule of
        None \<Rightarrow> (tk_events tk, tk\<lparr>tk_events := []\<rparr>)
      | Some seq \<Rightarrow>
          (tk_events tk @ concat (map (\<lambda>(b, mc).
              if mc_current mc < length (sd_steps seq) then emit_timeout rule seq mc b else []) (tk_machines tk)),
           \<lparr>tk_machines = [], tk_events = []\<rparr>))"

text \<open>A caller that feeds line after line, up to the first exception.\<close>

fun tracker_run :: "search \<Rightarrow> log_rule \<Rightarrow> parsed_line list \<Rightarrow> tracker \<Rightarrow> sequence_event list res \<times> tracker" where
  "tracker_run re rule [] tk = (Inr [], tk)"
| "tracker_run re rule (l # ls) tk =
     (case tracker_feed re rule l tk of
        (Inl e, tk) \<Rightarrow> (Inl e, tk)
      | (Inr evs, tk) \<Rightarrow>
          (case tracker_run re rule ls tk of
             (Inl e, tk) \<Rightarrow> (Inl e, tk)
           | (Inr more_evs, tk) \<Rightarrow> (Inr (evs @ more_evs), tk)))"

section \<open>Buckets do not interfere\<close>

text \<open>
  One bucket on its own: its machine, if it has one, sees every line, but lines of other buckets
  only as the time that passes.
\<close>

definition bucket_step :: "search \<Rightarrow> log_rule \<Rightarrow> sequence_def \<Rightarrow> bucket \<Rightarrow> parsed_line \<Rightarrow> machine option
    \<Rightarrow> sequence_event list \<times> machine option" where
  "bucket_step re rule seq b line m =
     (let now = parse_ts_to_ms (time_of line);
          expired = (case m of None \<Rightarrow> False | Some mc \<Rightarrow> is_expired seq now mc);
          evs = (if expired then emit_timeout rule seq (the m) b else []);
          m = (if expired then None else m);
          cur = (case m of None \<Rightarrow> 0 | Some mc \<Rightarrow> mc_current mc)
      in if bucket_for re seq line \<noteq> b then (evs, m)
         else case first_step re rule seq line cur 0 (sd_steps seq) of
           None \<Rightarrow> (evs, m)
         | Some (i, caps) \<Rightarrow>
             let mc = advance i line caps
               (if cur < i then new_machine seq line else case m of None \<Rightarrow> new_machine seq line | Some mc \<Rightarrow> mc)
             in if length (sd_steps seq) \<le> Suc i
                then (evs @ (case emit_complete rule seq mc b of Inl e \<Rightarrow> [] | Inr es \<Rightarrow> es), None)
                else (evs, Some mc))"

fun bucket_run :: "search \<Rightarrow> log_rule \<Rightarrow> sequence_def \<Rightarrow> bucket \<Rightarrow> parsed_line list \<Rightarrow> machine option
    \<Rightarrow> sequence_event list \<times> machine option" where
  "bucket_run re rule seq b [] m = ([], m)"
| "bucket_run re rule seq b (l # ls) m =
     (let (evs, m) = bucket_step re rule seq b l m; (evs', m) = bucket_run re rule seq b ls m in (evs @ evs', m))"

definition keys_ok :: "tracker \<Rightarrow> bool" where
  "keys_ok tk \<longleftrightarrow> distinct (map fst (tk_machines tk)) \<and> tk_events tk = []"

abbreviation of_bucket :: "bucket \<Rightarrow> sequence_event list \<Rightarrow> sequence_event list" where
  "of_bucket b \<equiv> filter (\<lambda>e. se_bucket e = b)"

lemma emit_timeout_bucket: "of_bucket b (emit_timeout rule seq mc b') = (if b' = b then emit_timeout rule seq mc b' else [])"
  by (auto simp: emit_timeout_def Let_def split: option.split list.split)

lemma emit_complete_bucket: "emit_complete rule seq mc b = Inr es \<Longrightarrow> of_bucket b' es = (if b = b' then es else [])"
  by (auto simp: emit_complete_def Let_def andThen_def split: option.splits list.splits sum.splits py_exc.splits)

lemma filter_machines:
  "distinct (map fst ms) \<Longrightarrow>
     map_of (filter (\<lambda>(b, mc). \<not> p mc) ms) b = (case map_of ms b of Some mc \<Rightarrow> if p mc then None else Some mc | None \<Rightarrow> None)"
  by (induction ms) (auto split: option.splits simp: map_of_eq_None_iff rev_image_eqI)

lemma timeouts_of:
  "distinct (map fst ms) \<Longrightarrow>
     of_bucket b (concat (map (\<lambda>(b, mc). if p mc then emit_timeout rule seq mc b else []) ms))
       = (case map_of ms b of Some mc \<Rightarrow> if p mc then emit_timeout rule seq mc b else [] | None \<Rightarrow> [])"
proof (induction ms)
  case (Cons x ms)
  have "fst x = b \<Longrightarrow> map_of ms b = None" using Cons.prems by (auto simp: map_of_eq_None_iff)
  with Cons show ?case by (cases x) (auto simp: emit_timeout_bucket split: option.splits)
qed simp

lemma feed_bucket:
  assumes seq: "lr_sequence rule = Some seq" and ok: "keys_ok tk" and f: "tracker_feed re rule line tk = (Inr evs, tk')"
  shows "keys_ok tk'" "bucket_step re rule seq b line (map_of (tk_machines tk) b) = (of_bucket b evs, map_of (tk_machines tk') b)"
proof -
  define now where "now = parse_ts_to_ms (time_of line)"
  define b0 where "b0 = bucket_for re seq line"
  define tk1 where "tk1 = cleanup rule seq now tk"
  have ok1: "distinct (map fst (tk_machines tk1))"
    using ok by (auto simp: keys_ok_def tk1_def cleanup_def distinct_map_filter)
  have m1: "map_of (tk_machines tk1) c = (case map_of (tk_machines tk) c of
      Some mc \<Rightarrow> if is_expired seq now mc then None else Some mc | None \<Rightarrow> None)" for c
    using ok by (simp add: keys_ok_def tk1_def cleanup_def filter_machines)
  have e1: "of_bucket c (tk_events tk1) = (case map_of (tk_machines tk) c of
      Some mc \<Rightarrow> if is_expired seq now mc then emit_timeout rule seq mc c else [] | None \<Rightarrow> [])" for c
    using ok by (simp add: keys_ok_def tk1_def cleanup_def timeouts_of)
  let ?cur = "current_step_for tk1 b0"
  have step: "bucket_step re rule seq b line (map_of (tk_machines tk) b) =
     (if b0 \<noteq> b then (of_bucket b (tk_events tk1), map_of (tk_machines tk1) b)
      else case first_step re rule seq line (current_step_for tk1 b) 0 (sd_steps seq) of
        None \<Rightarrow> (of_bucket b (tk_events tk1), map_of (tk_machines tk1) b)
      | Some (i, caps) \<Rightarrow>
          let mc = advance i line caps (if current_step_for tk1 b < i then new_machine seq line
            else case map_of (tk_machines tk1) b of None \<Rightarrow> new_machine seq line | Some mc \<Rightarrow> mc)
          in if length (sd_steps seq) \<le> Suc i
             then (of_bucket b (tk_events tk1) @ (case emit_complete rule seq mc b of Inl e \<Rightarrow> [] | Inr es \<Rightarrow> es), None)
             else (of_bucket b (tk_events tk1), Some mc))"
    unfolding bucket_step_def Let_def now_def [symmetric] b0_def [symmetric] e1 m1 current_step_for_def
    by (cases "map_of (tk_machines tk) b") (simp_all cong: option.case_cong prod.case_cong if_cong)
  have "keys_ok tk' \<and> bucket_step re rule seq b line (map_of (tk_machines tk) b) = (of_bucket b evs, map_of (tk_machines tk') b)"
  proof (cases "first_step re rule seq line ?cur 0 (sd_steps seq)")
    case None
    with f seq have "evs = tk_events tk1" "tk' = tk1\<lparr>tk_events := []\<rparr>"
      by (auto simp: tracker_feed_def Let_def take_events_def tk1_def now_def b0_def)
    with ok1 None show ?thesis by (auto simp: keys_ok_def step)
  next
    case (Some a)
    obtain i caps where a: "a = (i, caps)" by force
    define mc where "mc = advance i line caps (if ?cur < i then new_machine seq line
       else case map_of (tk_machines tk1) b0 of None \<Rightarrow> new_machine seq line | Some mc \<Rightarrow> mc)"
    define tk2 where "tk2 = step_machine seq line b0 i caps tk1"
    have m2: "map_of (tk_machines tk2) = (map_of (tk_machines tk1)) (b0 \<mapsto> mc)"
      by (auto simp: tk2_def step_machine_def put_machine_def drop_machine_def mc_def Let_def update_conv' delete_conv'
          split: option.splits)
    have ok2: "distinct (map fst (tk_machines tk2))" "tk_events tk2 = tk_events tk1"
      using ok1 by (auto simp: tk2_def step_machine_def put_machine_def drop_machine_def Let_def distinct_update distinct_delete)
    have cur: "mc_current mc = Suc i" by (simp add: mc_def advance_def)
    show ?thesis
    proof (cases "length (sd_steps seq) \<le> Suc i")
      case True
      with f seq Some a cur m2 obtain es where es: "emit_complete rule seq mc b0 = Inr es"
        and r: "evs = tk_events tk1 @ es" "tk' = drop_machine b0 (tk2\<lparr>tk_events := []\<rparr>)"
        by (auto simp: tracker_feed_def Let_def take_events_def tk1_def [symmetric] now_def [symmetric] b0_def [symmetric]
            tk2_def [symmetric] finish_machine_def ok2 drop_machine_def split: sum.splits prod.splits)
      have "map_of (tk_machines tk') = (map_of (tk_machines tk1)) (b0 := None)"
        by (simp add: r drop_machine_def delete_conv' m2)
      moreover have "keys_ok tk'" using ok2 by (simp add: keys_ok_def r drop_machine_def distinct_delete)
      ultimately show ?thesis
        using True Some a es [unfolded mc_def] r emit_complete_bucket [OF es] by (auto simp: step)
    next
      case False
      with f seq Some a cur m2 have r: "evs = tk_events tk1" "tk' = tk2\<lparr>tk_events := []\<rparr>"
        by (auto simp: tracker_feed_def Let_def take_events_def tk1_def [symmetric] now_def [symmetric] b0_def [symmetric]
            tk2_def [symmetric] finish_machine_def ok2 split: sum.splits prod.splits)
      then show ?thesis
        using False Some a m2 [unfolded mc_def] ok2 by (auto simp: keys_ok_def step)
    qed
  qed
  then show "keys_ok tk'" "bucket_step re rule seq b line (map_of (tk_machines tk) b) = (of_bucket b evs, map_of (tk_machines tk') b)"
    by simp_all
qed

lemma run_bucket:
  "lr_sequence rule = Some seq \<Longrightarrow> keys_ok tk \<Longrightarrow> tracker_run re rule ls tk = (Inr evs, tk')
    \<Longrightarrow> bucket_run re rule seq b ls (map_of (tk_machines tk) b) = (of_bucket b evs, map_of (tk_machines tk') b)"
proof (induction ls arbitrary: tk evs)
  case (Cons l ls)
  from Cons.prems(3) obtain evs1 tk1 evs2 where f: "tracker_feed re rule l tk = (Inr evs1, tk1)"
    and g: "tracker_run re rule ls tk1 = (Inr evs2, tk')" and evs: "evs = evs1 @ evs2"
    by (auto split: prod.splits sum.splits)
  note h = feed_bucket [OF Cons.prems(1,2) f]
  with Cons.IH [OF Cons.prems(1) h(1) g] evs show ?case by (simp add: Let_def)
qed simp

text \<open>
  C24. However the lines of several flows are interleaved, the tracker does
  for each bucket exactly what one state machine of its own would do that saw the other lines
  only as passing time: the same events in the same order, and the same state at the end.
\<close>

theorem tracker_refines_buckets:
  assumes "lr_sequence rule = Some seq" "tracker_run re rule ls new_tracker = (Inr evs, tk)"
  shows "bucket_run re rule seq b ls None = (of_bucket b evs, map_of (tk_machines tk) b)"
  using run_bucket [OF assms(1) _ assms(2), of b] by (simp add: new_tracker_def keys_ok_def)

section \<open>What the machines of a tracker are\<close>

text \<open>
  Every machine is in the middle of its flow, has a time only for steps that it has passed, and is
  not over its window at the time \<open>now\<close>.
\<close>

definition machine_ok :: "sequence_def \<Rightarrow> machine \<Rightarrow> bool" where
  "machine_ok seq mc \<longleftrightarrow> 0 < mc_current mc \<and> mc_current mc < length (sd_steps seq)
     \<and> length (mc_times mc) = length (sd_steps seq) \<and> list_all (\<lambda>i. mc_times mc ! i = None) [mc_current mc..<length (sd_steps seq)]"

lemma first_step_range:
  "first_step re rule seq line cur i sts = Some (j, caps) \<Longrightarrow> i \<le> j \<and> j < i + length sts \<and> cur \<le> j"
  by (induction sts arbitrary: i) (force split: if_splits option.splits)+

lemma advance_ok:
  "length (mc_times mc) = length (sd_steps seq) \<Longrightarrow> Suc i < length (sd_steps seq)
    \<Longrightarrow> list_all (\<lambda>j. mc_times mc ! j = None) [i..<length (sd_steps seq)] \<Longrightarrow> machine_ok seq (advance i line caps mc)"
  by (auto simp: machine_ok_def advance_def list_all_iff)

lemma bucket_step_ok:
  assumes "\<forall>mc. m = Some mc \<longrightarrow> machine_ok seq mc" "bucket_step re rule seq b line m = (evs, Some mc)"
  shows "machine_ok seq mc \<and> (now = parse_ts_to_ms (time_of line) \<longrightarrow> \<not> is_expired seq now mc)"
proof -
  define m1 where "m1 = (if (case m of None \<Rightarrow> False | Some mc \<Rightarrow> is_expired seq (parse_ts_to_ms (time_of line)) mc)
    then None else m)"
  have m1: "\<forall>mc. m1 = Some mc \<longrightarrow> machine_ok seq mc \<and> \<not> is_expired seq (parse_ts_to_ms (time_of line)) mc"
    using assms(1) by (auto simp: m1_def split: option.splits if_splits)
  let ?cur = "case m1 of None \<Rightarrow> 0 | Some mc \<Rightarrow> mc_current mc"
  let ?mc = "\<lambda>i caps. advance i line caps (if ?cur < i then new_machine seq line
         else case m1 of None \<Rightarrow> new_machine seq line | Some mc \<Rightarrow> mc)"
  obtain ev0 where e: "(if bucket_for re seq line \<noteq> b then (ev0, m1)
      else case first_step re rule seq line ?cur 0 (sd_steps seq) of None \<Rightarrow> (ev0, m1)
        | Some (i, caps) \<Rightarrow> if length (sd_steps seq) \<le> Suc i
            then (ev0 @ (case emit_complete rule seq (?mc i caps) b of Inl e \<Rightarrow> [] | Inr es \<Rightarrow> es), None)
            else (ev0, Some (?mc i caps))) = (evs, Some mc)"
    using assms(2) unfolding bucket_step_def Let_def m1_def [symmetric] by (rule that)
  consider "m1 = Some mc" | i caps where "first_step re rule seq line ?cur 0 (sd_steps seq) = Some (i, caps)"
      "Suc i < length (sd_steps seq)" "mc = ?mc i caps"
  proof (cases "bucket_for re seq line \<noteq> b")
    case False
    show ?thesis
    proof (cases "first_step re rule seq line ?cur 0 (sd_steps seq)")
      case (Some a)
      obtain i caps where "a = (i, caps)" by force
      with False Some e that(2) [of i caps] show ?thesis by (cases "length (sd_steps seq) \<le> Suc i") simp_all
    next
      case None
      show ?thesis by (rule that(1)) (use False None e in simp)
    qed
  next
    case True
    show ?thesis by (rule that(1)) (use True e in simp)
  qed
  then show ?thesis
  proof cases
    case 2
    have new: "machine_ok seq (advance i line caps (new_machine seq line))"
      "\<not> is_expired seq (parse_ts_to_ms (time_of line)) (advance i line caps (new_machine seq line))"
      using 2(2) by (auto simp: new_machine_def advance_def is_expired_def machine_ok_def list_all_iff split: option.split)
    show ?thesis
    proof (cases m1)
      case (Some mc1)
      with 2 first_step_range [OF 2(1)] have "\<not> mc_current mc1 < i \<Longrightarrow> mc_current mc1 = i" by simp
      with 2 new Some m1 advance_ok [of mc1 seq i line caps] show ?thesis
        by (auto simp: machine_ok_def is_expired_def advance_def split: option.splits)
    qed (use 2 new in auto)
  qed (use m1 in auto)
qed

lemma run_machines:
  "lr_sequence rule = Some seq \<Longrightarrow> keys_ok tk \<Longrightarrow> \<forall>b mc. map_of (tk_machines tk) b = Some mc \<longrightarrow> machine_ok seq mc
    \<Longrightarrow> tracker_run re rule ls tk = (Inr evs, tk')
    \<Longrightarrow> keys_ok tk' \<and> (\<forall>b mc. map_of (tk_machines tk') b = Some mc \<longrightarrow> machine_ok seq mc
      \<and> (ls \<noteq> [] \<longrightarrow> \<not> is_expired seq (parse_ts_to_ms (time_of (last ls))) mc))"
proof (induction ls arbitrary: tk evs)
  case (Cons l ls)
  from Cons.prems(4) obtain evs1 tk1 evs2 where f: "tracker_feed re rule l tk = (Inr evs1, tk1)"
    and g: "tracker_run re rule ls tk1 = (Inr evs2, tk')"
    by (auto split: prod.splits sum.splits)
  note h = feed_bucket [OF Cons.prems(1,2) f]
  have m: "machine_ok seq mc \<and> \<not> is_expired seq (parse_ts_to_ms (time_of l)) mc"
    if "map_of (tk_machines tk1) b = Some mc" for b mc
    using bucket_step_ok [of "map_of (tk_machines tk) b" seq re rule b l] h(2) [of b] Cons.prems(3) that by auto
  show ?case
  proof (cases "ls = []")
    case True
    with g h(1) m show ?thesis by auto
  next
    case False
    with Cons.IH [OF Cons.prems(1) h(1) _ g] m show ?thesis by simp
  qed
qed auto

text \<open>
  C25. After any lines the tracker holds at most one machine per bucket, each of
  them strictly between the first and the last step, with times only for the steps behind it, and
  none older than the window at the last line.
\<close>

theorem machines_in_flow:
  assumes "lr_sequence rule = Some seq" "tracker_run re rule (ls @ [l]) new_tracker = (Inr evs, tk)"
  shows "distinct (map fst (tk_machines tk)) \<and>
    list_all (\<lambda>(b, mc). machine_ok seq mc \<and> \<not> is_expired seq (parse_ts_to_ms (time_of l)) mc) (tk_machines tk)"
proof -
  have "keys_ok tk \<and> (\<forall>b mc. map_of (tk_machines tk) b = Some mc \<longrightarrow> machine_ok seq mc
      \<and> (ls @ [l] \<noteq> [] \<longrightarrow> \<not> is_expired seq (parse_ts_to_ms (time_of (last (ls @ [l])))) mc))"
    by (rule run_machines [OF assms(1) _ _ assms(2)]) (simp_all add: new_tracker_def keys_ok_def)
  then show ?thesis by (auto simp: keys_ok_def list_all_iff)
qed

section \<open>What completes a flow\<close>

lemma py_format_plain: "list_all (\<lambda>c. c \<noteq> CHR 0x7B \<and> c \<noteq> CHR 0x7D) t \<Longrightarrow> py_format t caps = Inr t"
proof -
  have "list_all (\<lambda>c. c \<noteq> CHR 0x7B \<and> c \<noteq> CHR 0x7D) t \<Longrightarrow> py_format_from t None caps = Inr t"
    by (induction t) (auto simp: andThen_def)
  then show "list_all (\<lambda>c. c \<noteq> CHR 0x7B \<and> c \<noteq> CHR 0x7D) t \<Longrightarrow> ?thesis" by (simp add: py_format_def)
qed

lemma first_step_last:
  "list_all (\<lambda>s. try_match_step re rule seq s line = None) sts \<Longrightarrow> try_match_step re rule seq st line = Some caps
    \<Longrightarrow> first_step re rule seq line 0 i (sts @ [st]) = Some (i + length sts, caps)"
  by (induction sts arbitrary: i) auto

text \<open>
  C26. The order of the steps is not enforced: a line that matches the last step
  alone, with no flow under way, completes the sequence and reports it, whatever steps come before.
\<close>

theorem last_step_completes:
  assumes "lr_sequence rule = Some seq" "sd_steps seq = sts @ [st]"
    and "list_all (\<lambda>s. try_match_step re rule seq s line = None) sts" "try_match_step re rule seq st line = Some caps"
    and "sd_complete seq = Some oc" "map_of oc ''message'' = Some msg" "msg \<noteq> ''''"
    and "list_all (\<lambda>c. c \<noteq> CHR 0x7B \<and> c \<noteq> CHR 0x7D) msg"
  shows "\<exists>ev. tracker_feed re rule line new_tracker = (Inr [ev], new_tracker) \<and> se_message ev = msg
    \<and> se_type ev = getd_str oc ''type'' (lr_id rule @ ''.complete'')"
proof -
  have "first_step re rule seq line 0 0 (sd_steps seq) = Some (length sts, caps)"
    using first_step_last [OF assms(3,4), of 0] assms(2) by simp
  moreover have "oc \<noteq> []" using assms(6) by auto
  moreover have "py_format (getd_str oc ''message'' '''') c = Inr msg" for c
    using assms(6) py_format_plain [OF assms(8)] by (simp add: getd_str_def)
  ultimately show ?thesis using assms(1,2,5,7)
    by (auto simp: tracker_feed_def new_tracker_def cleanup_def current_step_for_def step_machine_def put_machine_def
        finish_machine_def advance_def emit_complete_def andThen_def drop_machine_def take_events_def Let_def
        split: list.splits)
qed

text \<open>
  The rule of \<open>sta.json\<close> for a station that joins the network, with the steps' patterns cut to
  their text, and lines that are found by their text.
\<close>

definition lit :: search where
  "lit pattern flags text = (if prefix pattern text then Some [Some text] else None)"

definition sta_step :: "string \<Rightarrow> sequence_step" where
  "sta_step p = \<lparr>ss_step = p, ss_pattern = p, ss_flags = [], ss_group = None\<rparr>"

definition sta_seq :: sequence_def where
  "sta_seq = \<lparr>sd_steps = map sta_step [''nwk disc done'', ''start nwk assoc'', ''nwk track done ind'', ''nwk assoc ok''],
     sd_window = 30000, sd_complete = Some [(''type'', ''join.sta.ok''), (''message'', ''joined in full'')],
     sd_timeout = Some [(''type'', ''join.sta.timeout'')], sd_bucket = None\<rparr>"

definition sta_rule :: log_rule where
  "sta_rule = \<lparr>lr_id = ''sta.join'', lr_category = ''join'', lr_level = ''info'', lr_scope = ''common'', lr_module = ''sta'',
     lr_province = None, lr_source = [''module_log''], lr_match = None, lr_sequence = Some sta_seq, lr_capture = [],
     lr_event = []\<rparr>"

definition log_line :: "string \<Rightarrow> string \<Rightarrow> parsed_line" where
  "log_line time text = \<lparr>pl_source = ''module_log'', pl_raw = text, pl_time = Some time, pl_text = Some text,
     pl_fields = None, pl_line = None, pl_idx = None\<rparr>"

theorem last_step_completes_witness:
  "\<exists>ev. tracker_feed lit sta_rule (log_line ''20260811-19:15:00:000'' ''nwk assoc ok'') new_tracker = (Inr [ev], new_tracker)
     \<and> se_message ev = ''joined in full'' \<and> se_type ev = ''join.sta.ok''"
  using last_step_completes [of sta_rule sta_seq "map sta_step [''nwk disc done'', ''start nwk assoc'', ''nwk track done ind'']"
      "sta_step ''nwk assoc ok''" lit "log_line ''20260811-19:15:00:000'' ''nwk assoc ok''" "[]" _ "''joined in full''"]
  by (simp add: sta_rule_def sta_seq_def log_line_def try_match_step_def sta_step_def lit_def getd_str_def
      group_captures_def rule_captures_def dict_update_def)

text \<open>A rule of two steps whose first group, the rest of the line, is the bucket, and two flows.\<close>

definition rest_re :: search where
  "rest_re pattern flags text =
     (if prefix pattern text then Some [Some text, Some (drop (length pattern) text)] else None)"

definition pair_seq :: sequence_def where
  "pair_seq = \<lparr>sd_steps = map (\<lambda>p. \<lparr>ss_step = p, ss_pattern = p, ss_flags = [], ss_group = Some 1\<rparr>) [''join '', ''done ''],
     sd_window = 30000, sd_complete = Some [(''type'', ''ok'')], sd_timeout = None, sd_bucket = None\<rparr>"

definition pair_rule :: log_rule where
  "pair_rule = \<lparr>lr_id = ''pair'', lr_category = ''join'', lr_level = ''info'', lr_scope = ''common'', lr_module = ''sta'',
     lr_province = None, lr_source = [''module_log''], lr_match = None, lr_sequence = Some pair_seq, lr_capture = [],
     lr_event = []\<rparr>"

definition pair_lines :: "parsed_line list" where
  "pair_lines = [log_line '''' ''join n1'', log_line '''' ''join n2'']"

definition pair_done :: parsed_line where
  "pair_done = log_line '''' ''done n1''"

definition pair_ran :: "sequence_event list res \<times> tracker" where
  "pair_ran = tracker_run rest_re pair_rule (pair_lines @ [pair_done]) new_tracker"

lemma pair_run:
  "(case pair_ran of (Inl e, tk) \<Rightarrow> False | (Inr evs, tk) \<Rightarrow>
     map se_bucket evs = [Some ''n1''] \<and> map fst (tk_machines tk) = [Some ''n2''])"
  by code_simp

theorem tracker_refines_buckets_witness:
  "case pair_ran of (Inl e, tk) \<Rightarrow> False | (Inr evs, tk) \<Rightarrow>
     bucket_run rest_re pair_rule pair_seq (Some ''n1'') (pair_lines @ [pair_done]) None
       = (filter (\<lambda>e. se_bucket e = Some ''n1'') evs, map_of (tk_machines tk) (Some ''n1''))"
  using pair_run tracker_refines_buckets [of pair_rule pair_seq rest_re "pair_lines @ [pair_done]" _ _ "Some ''n1''"]
  by (auto simp: pair_ran_def pair_rule_def split: prod.splits sum.splits)

theorem machines_in_flow_witness:
  "case pair_ran of (Inl e, tk) \<Rightarrow> False | (Inr evs, tk) \<Rightarrow> distinct (map fst (tk_machines tk))
     \<and> list_all (\<lambda>(b, mc). machine_ok pair_seq mc
         \<and> \<not> is_expired pair_seq (parse_ts_to_ms (time_of pair_done)) mc) (tk_machines tk)"
  using pair_run machines_in_flow [of pair_rule pair_seq rest_re pair_lines pair_done]
  by (auto simp: pair_ran_def pair_rule_def split: prod.splits sum.splits)

end
