(* ===== verification/Log_Rules.thy ===== *)
theory Log_Rules
  imports Log_Sequence "HOL-Library.List_Lexorder" "HOL-Library.Char_ord"
begin

text \<open>
  The rule tables of \<open>libs/loghooks/rules.py\<close>: validation of the JSON objects, their loading into
  rules, the selection by module and province, and the detection of the province from the rules
  hit. Reading the files is not modelled; SchemaError is a ValueError.
\<close>

section \<open>Validation\<close>

text \<open>\<open>field not in m\<close> and \<open>m[field]\<close> on any value.\<close>

definition value_in :: "string \<Rightarrow> pv \<Rightarrow> bool res" where
  "value_in k m = (case m of
     PDict d \<Rightarrow> Inr (k \<in> fst ` set d)
   | PStr s \<Rightarrow> Inr (sublist k s)
   | PList xs \<Rightarrow> Inr (PStr k \<in> set xs)
   | _ \<Rightarrow> Inl TypeError)"

definition subscript :: "pv \<Rightarrow> string \<Rightarrow> pv res" where
  "subscript m k = (case m of
     PDict d \<Rightarrow> (case map_of d k of None \<Rightarrow> Inl KeyError | Some v \<Rightarrow> Inr v)
   | _ \<Rightarrow> Inl TypeError)"

definition require :: "bool \<Rightarrow> unit res" where
  "require b = (if b then Inr () else Inl ValueError)"

definition check_required :: "pv \<Rightarrow> string \<Rightarrow> unit res" where
  "check_required m k = andThen (value_in k m) require"

definition check_type :: "pdict \<Rightarrow> string \<Rightarrow> (pv \<Rightarrow> bool) \<Rightarrow> unit res" where
  "check_type d k ty = require (case map_of d k of None \<Rightarrow> True | Some v \<Rightarrow> ty v)"

definition is_str :: "pv \<Rightarrow> bool" where "is_str v = (case v of PStr s \<Rightarrow> True | _ \<Rightarrow> False)"
definition is_list :: "pv \<Rightarrow> bool" where "is_list v = (case v of PList xs \<Rightarrow> True | _ \<Rightarrow> False)"
definition is_dict :: "pv \<Rightarrow> bool" where "is_dict v = (case v of PDict d \<Rightarrow> True | _ \<Rightarrow> False)"

fun each :: "('a \<Rightarrow> unit res) \<Rightarrow> 'a list \<Rightarrow> unit res" where
  "each f [] = Inr ()"
| "each f (x # xs) = andThen (f x) (\<lambda>_. each f xs)"

definition validate_match :: "pv \<Rightarrow> unit res" where
  "validate_match m =
     andThen (check_required m ''mode'') (\<lambda>_.
     andThen (subscript m ''mode'') (\<lambda>mode.
     andThen (require (mode = PStr ''text'' \<or> mode = PStr ''field'')) (\<lambda>_.
     andThen (as_dict m) (\<lambda>d.
     andThen (require (\<not> (mode = PStr ''text'' \<and> \<not> truthy (pget d ''pattern'')))) (\<lambda>_.
       require (\<not> (mode = PStr ''field'' \<and> \<not> truthy (pget d ''field'')))))))) "

definition validate_steps :: "pv \<Rightarrow> unit res" where
  "validate_steps steps =
     andThen (require (truthy steps)) (\<lambda>_.
     andThen (elements steps) (each (\<lambda>step.
       andThen (as_dict step) (\<lambda>d. require (truthy (pget d ''step'') \<and> truthy (pget d ''pattern''))))))"

definition validate_rule :: "pv \<Rightarrow> unit res" where
  "validate_rule v = andThen (as_dict v) (\<lambda>d.
     andThen (each (check_required v) [''id'', ''category'', ''event'']) (\<lambda>_.
     andThen (check_type d ''id'' is_str) (\<lambda>_.
     andThen (check_type d ''category'' is_str) (\<lambda>_.
     andThen (check_type d ''source'' is_list) (\<lambda>_.
     andThen (check_type d ''event'' is_dict) (\<lambda>_.
       let scope = getd d ''scope'' (PStr ''common'') in
       andThen (require (scope = PStr ''common'' \<or> scope = PStr ''province'')) (\<lambda>_.
       andThen (require (\<not> (scope = PStr ''province'' \<and> \<not> truthy (pget d ''province'')))) (\<lambda>_.
       andThen (require (map_of d ''match'' \<noteq> None \<or> map_of d ''sequence'' \<noteq> None)) (\<lambda>_.
       andThen (case map_of d ''match'' of None \<Rightarrow> Inr () | Some m \<Rightarrow> validate_match m) (\<lambda>_.
         case map_of d ''sequence'' of None \<Rightarrow> Inr () | Some steps \<Rightarrow> validate_steps steps))))))))))"

fun validate_from :: "pv list \<Rightarrow> pv list \<Rightarrow> unit res" where
  "validate_from seen [] = Inr ()"
| "validate_from seen (d # ds) =
     andThen (validate_rule d) (\<lambda>_.
     andThen (subscript d ''id'') (\<lambda>rid.
     andThen (require (rid \<notin> set seen)) (\<lambda>_. validate_from (rid # seen) ds)))"

definition validate_ruleset :: "pv list \<Rightarrow> pv list res" where
  "validate_ruleset rules = andThen (validate_from [] rules) (\<lambda>_. Inr rules)"

section \<open>Loading\<close>

text \<open>\<open>MatchDef.from_dict\<close>, \<open>SequenceStep.from_dict\<close>, \<open>SequenceDef.from_dict\<close> and \<open>Rule.from_dict\<close> keep
  the values of the object as they are.\<close>

record raw_match =
  rm_mode :: pv
  rm_pattern :: pv
  rm_flags :: pv
  rm_field :: pv
  rm_op :: pv
  rm_value :: pv
  rm_file :: pv
  rm_line :: pv
  rm_tolerance :: pv

record raw_step =
  rs_step :: pv
  rs_pattern :: pv
  rs_flags :: pv
  rs_group :: pv

record raw_rule =
  rr_id :: pv
  rr_category :: pv
  rr_level :: pv
  rr_scope :: pv
  rr_module :: pv
  rr_province :: pv
  rr_source :: pv
  rr_capture :: pv
  rr_event :: pv
  rr_match :: "raw_match option"
  rr_sequence :: "(raw_step list \<times> pv \<times> pv \<times> pv \<times> pv) option"

definition match_from_dict :: "pv \<Rightarrow> raw_match res" where
  "match_from_dict v = andThen (subscript v ''mode'') (\<lambda>mode. andThen (as_dict v) (\<lambda>d.
     Inr \<lparr>rm_mode = mode, rm_pattern = pget d ''pattern'', rm_flags = getd d ''flags'' (PList []),
       rm_field = pget d ''field'', rm_op = pget d ''op'', rm_value = pget d ''value'', rm_file = pget d ''file'',
       rm_line = pget d ''line'', rm_tolerance = getd d ''line_tolerance'' (PInt 10)\<rparr>))"

definition step_from_dict :: "pv \<Rightarrow> raw_step res" where
  "step_from_dict v = andThen (subscript v ''step'') (\<lambda>st. andThen (subscript v ''pattern'') (\<lambda>p. andThen (as_dict v) (\<lambda>d.
     Inr \<lparr>rs_step = st, rs_pattern = p, rs_flags = getd d ''flags'' (PList []), rs_group = pget d ''capture_group''\<rparr>)))"

fun steps_from :: "pv list \<Rightarrow> raw_step list res" where
  "steps_from [] = Inr []"
| "steps_from (v # vs) = andThen (step_from_dict v) (\<lambda>s. andThen (steps_from vs) (\<lambda>ss. Inr (s # ss)))"

definition rule_from_dict :: "pv \<Rightarrow> pv \<Rightarrow> raw_rule res" where
  "rule_from_dict v module_hint = andThen (subscript v ''id'') (\<lambda>rid. andThen (subscript v ''category'') (\<lambda>cat.
     andThen (as_dict v) (\<lambda>d.
     andThen (case map_of d ''match'' of None \<Rightarrow> Inr None
              | Some m \<Rightarrow> andThen (match_from_dict m) (\<lambda>x. Inr (Some x))) (\<lambda>mt.
     andThen (case map_of d ''sequence'' of None \<Rightarrow> Inr None
              | Some steps \<Rightarrow> andThen (elements steps) (\<lambda>vs. andThen (steps_from vs) (\<lambda>ss.
                  Inr (Some (ss, getd d ''window_ms'' (PInt 30000), pget d ''on_complete'', pget d ''on_timeout'',
                    pget d ''bucket_field''))))) (\<lambda>sq.
       let mo = pget d ''module'' in
       Inr \<lparr>rr_id = rid, rr_category = cat, rr_level = getd d ''level'' (PStr ''info''),
         rr_scope = getd d ''scope'' (PStr ''common''),
         rr_module = (if truthy mo then mo else if truthy module_hint then module_hint else PStr ''common''),
         rr_province = pget d ''province'', rr_source = getd d ''source'' (PList [PStr ''module_log'']),
         rr_capture = getd d ''capture'' (PDict []), rr_event = getd d ''event'' (PDict []),
         rr_match = mt, rr_sequence = sq\<rparr>)))))"

section \<open>Valid rules load\<close>

declare andThen_Inr [simp]

lemma require_Inr [simp]: "require b = Inr u \<longleftrightarrow> b"
  by (simp add: require_def)

lemma each_Inr: "each f xs = Inr u \<longleftrightarrow> list_all (\<lambda>x. f x = Inr ()) xs"
  by (induction xs) auto

lemma truthy_get: "truthy (pget d k) \<Longrightarrow> \<exists>v. map_of d k = Some v"
  by (auto simp: pget_def split: option.splits)

lemma as_dict_Inr [simp]: "as_dict v = Inr d \<longleftrightarrow> v = PDict d"
  by (cases v) (auto simp: as_dict_def)

lemma match_loads: "validate_match m = Inr u \<Longrightarrow> \<exists>x. match_from_dict m = Inr x"
  by (auto simp: validate_match_def match_from_dict_def)

lemma steps_load:
  "list_all (\<lambda>x. andThen (as_dict x) (\<lambda>d. require (truthy (pget d ''step'') \<and> truthy (pget d ''pattern''))) = Inr ()) xs
    \<Longrightarrow> \<exists>ss. steps_from xs = Inr ss"
proof (induction xs)
  case (Cons x xs)
  then obtain d where "x = PDict d" "truthy (pget d ''step'')" "truthy (pget d ''pattern'')" by auto
  moreover from this obtain a b where "map_of d ''step'' = Some a" "map_of d ''pattern'' = Some b"
    using truthy_get by blast
  ultimately have "\<exists>s. step_from_dict x = Inr s" by (simp add: step_from_dict_def subscript_def)
  with Cons show ?case by auto
qed simp

lemma rule_loads:
  assumes "validate_rule v = Inr u"
  shows "\<exists>d rid x. v = PDict d \<and> map_of d ''id'' = Some (PStr rid) \<and> rule_from_dict v hint = Inr x"
proof -
  from assms obtain d where d: "v = PDict d" and
    req: "each (check_required v) [''id'', ''category'', ''event''] = Inr ()" and
    ty: "check_type d ''id'' is_str = Inr ()" and
    mt: "(case map_of d ''match'' of None \<Rightarrow> Inr () | Some m \<Rightarrow> validate_match m) = Inr ()" and
    sq: "(case map_of d ''sequence'' of None \<Rightarrow> Inr () | Some steps \<Rightarrow> validate_steps steps) = Inr ()"
    by (auto simp: validate_rule_def Let_def)
  obtain rid where rid: "map_of d ''id'' = Some (PStr rid)"
    using d req ty by (auto simp: each_Inr check_required_def value_in_def check_type_def is_str_def map_of_eq_None_iff
        split: option.splits pv.splits)
  obtain cat where cat: "map_of d ''category'' = Some cat"
    using d req by (cases "map_of d ''category''") (auto simp: each_Inr check_required_def value_in_def map_of_eq_None_iff)
  obtain m where m: "(case map_of d ''match'' of None \<Rightarrow> Inr None
      | Some m \<Rightarrow> andThen (match_from_dict m) (\<lambda>x. Inr (Some x))) = Inr m"
    using mt match_loads by (cases "map_of d ''match''") fastforce+
  have "\<exists>q. (case map_of d ''sequence'' of None \<Rightarrow> Inr None
      | Some steps \<Rightarrow> andThen (elements steps) (\<lambda>vs. andThen (steps_from vs) (\<lambda>ss.
          Inr (Some (ss, getd d ''window_ms'' (PInt 30000), pget d ''on_complete'', pget d ''on_timeout'',
            pget d ''bucket_field''))))) = Inr q"
  proof (cases "map_of d ''sequence''")
    case (Some steps)
    with sq obtain vs where "elements steps = Inr vs" and
      "list_all (\<lambda>x. andThen (as_dict x) (\<lambda>d. require (truthy (pget d ''step'') \<and> truthy (pget d ''pattern''))) = Inr ()) vs"
      by (auto simp: validate_steps_def each_Inr)
    with steps_load [of vs] Some show ?thesis by auto
  qed simp
  then obtain q where q: "(case map_of d ''sequence'' of None \<Rightarrow> Inr None
      | Some steps \<Rightarrow> andThen (elements steps) (\<lambda>vs. andThen (steps_from vs) (\<lambda>ss.
          Inr (Some (ss, getd d ''window_ms'' (PInt 30000), pget d ''on_complete'', pget d ''on_timeout'',
            pget d ''bucket_field''))))) = Inr q" by blast
  have "\<exists>x. rule_from_dict v hint = Inr x"
    unfolding rule_from_dict_def d using rid cat m q by (simp add: subscript_def Let_def)
  with d rid show ?thesis by blast
qed

lemma validate_from_Inr:
  "validate_from seen ds = Inr u \<Longrightarrow>
     list_all (\<lambda>d. validate_rule d = Inr ()) ds \<and> distinct (map (\<lambda>d. subscript d ''id'') ds)
   \<and> Inr ` set seen \<inter> (\<lambda>d. subscript d ''id'') ` set ds = {}"
proof (induction ds arbitrary: seen)
  case (Cons d ds)
  then obtain rid where r: "validate_rule d = Inr ()" "subscript d ''id'' = Inr rid" "rid \<notin> set seen"
    "validate_from (rid # seen) ds = Inr u" by auto
  from Cons.IH [OF r(4)] r show ?case by auto
qed simp

text \<open>
  A rule table that passes the validation loads without an exception, whatever
  the module of its file, and its rules have identifiers that are texts and all different.
\<close>

theorem valid_rules_load:
  assumes "validate_ruleset ds = Inr ds'"
  shows "ds' = ds \<and> list_all (\<lambda>d. (\<exists>x. rule_from_dict d hint = Inr x) \<and> (\<exists>rid. subscript d ''id'' = Inr (PStr rid))) ds
    \<and> distinct (map (\<lambda>d. subscript d ''id'') ds)"
proof -
  from assms have "ds' = ds" "validate_from [] ds = Inr ()" by (auto simp: validate_ruleset_def)
  moreover have "(\<exists>x. rule_from_dict d hint = Inr x) \<and> (\<exists>rid. subscript d ''id'' = Inr (PStr rid))"
    if "validate_rule d = Inr ()" for d
    using rule_loads [OF that, of hint] by (auto simp: subscript_def)
  ultimately show ?thesis using validate_from_Inr by (auto simp: list_all_iff)
qed

definition sample_rules :: "pv list" where
  "sample_rules =
     [PDict [(''id'', PStr ''a''), (''category'', PStr ''join''), (''event'', PDict []),
        (''match'', PDict [(''mode'', PStr ''text''), (''pattern'', PStr ''x'')])],
      PDict [(''id'', PStr ''b''), (''category'', PStr ''join''), (''event'', PDict []),
        (''sequence'', PList [PDict [(''step'', PStr ''s''), (''pattern'', PStr ''y'')]])]]"

theorem valid_rules_load_witness:
  "list_all (\<lambda>d. (\<exists>x. rule_from_dict d PNone = Inr x) \<and> (\<exists>rid. subscript d ''id'' = Inr (PStr rid))) sample_rules
    \<and> distinct (map (\<lambda>d. subscript d ''id'') sample_rules)"
proof -
  have "validate_ruleset sample_rules = Inr sample_rules" by code_simp
  from valid_rules_load [OF this] show ?thesis by blast
qed

section \<open>Selection and detection\<close>

definition by_module :: "log_rule list \<Rightarrow> string \<Rightarrow> log_rule list" where
  "by_module rules m = filter (\<lambda>r. lr_module r = m) rules"

definition is_generic :: "log_rule \<Rightarrow> bool" where
  "is_generic r = (lr_scope r \<noteq> ''province'')"

definition filter_by_module :: "log_rule list \<Rightarrow> string option \<Rightarrow> log_rule list" where
  "filter_by_module rules name =
     (let common = filter is_generic (by_module rules ''common'') in
      case name of
        None \<Rightarrow> common
      | Some m \<Rightarrow> if m = '''' \<or> m = ''common'' then common else common @ filter is_generic (by_module rules m))"

definition by_province :: "log_rule list \<Rightarrow> string option \<Rightarrow> log_rule list" where
  "by_province rules p = filter (\<lambda>r. (if lr_scope r = ''province'' then lr_province r else None) = p) rules"

definition filter_by_province :: "log_rule list \<Rightarrow> string option \<Rightarrow> log_rule list" where
  "filter_by_province rules province =
     by_province rules None @ (case province of None \<Rightarrow> [] | Some p \<Rightarrow> if p = '''' then [] else by_province rules (Some p))"

text \<open>\<open>_by_id\<close> holds the last rule of an identifier; a group of hits per province, in sorted order.\<close>

definition rule_by_id :: "log_rule list \<Rightarrow> string \<Rightarrow> log_rule option" where
  "rule_by_id rules rid = find (\<lambda>r. lr_id r = rid) (rev rules)"

definition province_of_hit :: "log_rule list \<Rightarrow> string \<Rightarrow> string option" where
  "province_of_hit rules rid =
     (case rule_by_id rules rid of
        None \<Rightarrow> None
      | Some r \<Rightarrow> if lr_scope r = ''province'' \<and> lr_province r \<noteq> Some '''' then lr_province r else None)"

definition common_hits :: "log_rule list \<Rightarrow> string list \<Rightarrow> string list" where
  "common_hits rules hits =
     filter (\<lambda>rid. case rule_by_id rules rid of None \<Rightarrow> False | Some r \<Rightarrow> lr_scope r = ''common'') hits"

datatype confidence_level = High | Medium | Common_Only

definition detect_provinces ::
  "log_rule list \<Rightarrow> string list \<Rightarrow> (string option \<times> string list \<times> confidence_level) list" where
  "detect_provinces rules hits =
     (let provs = sort (remdups (List.map_filter (province_of_hit rules) hits));
          rows = map (\<lambda>p. let rids = filter (\<lambda>rid. province_of_hit rules rid = Some p) hits in
            (Some p, rids, if 2 \<le> length rids then High else Medium)) provs
      in rows @ (if common_hits rules hits \<noteq> [] \<and> provs = [] then [(None, common_hits rules hits, Common_Only)] else []))"

end
