(* ===== verification/Log_Engine.thy ===== *)
theory Log_Engine
  imports Log_Sequence "HOL-Library.List_Lexorder" "HOL-Library.Char_ord"
begin

text \<open>
  The rule engine over log lines: \<open>libs/loghooks/matchers.py\<close> (matching one line), \<open>engine.py\<close>
  (rules, sequences, events, drift and hit statistics) and of \<open>rules.py\<close> the validation of
  rules, the filters and the detection of the province.
\<close>

section \<open>Matching a line\<close>

record match_result =
  mr_matched :: bool
  mr_groups :: "string option list"   \<comment> \<open>\<open>m.groups()\<close>\<close>
  mr_drift :: bool
  mr_actual :: "int option"
  mr_expected :: "int option"

definition no_match :: match_result where
  "no_match = \<lparr>mr_matched = False, mr_groups = [], mr_drift = False, mr_actual = None, mr_expected = None\<rparr>"

text \<open>\<open>_extract_field_value\<close>: \<open>#name\<close> looks among the fields of the application for a key that ends so.\<close>

fun ending_field :: "string \<Rightarrow> pdict \<Rightarrow> pv" where
  "ending_field name [] = PNone"
| "ending_field name ((k, v) # kvs) =
     (if suffix name k then (case v of PDict d \<Rightarrow> pget d ''value'' | _ \<Rightarrow> v) else ending_field name kvs)"

definition extract_field_value :: "pv \<Rightarrow> string \<Rightarrow> pv res" where
  "extract_field_value obj path =
     (case obj of
        PDict d \<Rightarrow>
          (case path of
             c # name \<Rightarrow>
               if c = CHR ''#''
               then andThen (as_dict (getd d ''application'' (PDict []))) (\<lambda>app.
                      andThen (as_dict (getd app ''fields'' (PDict []))) (\<lambda>fields. Inr (ending_field name fields)))
               else Inr (case walk_path obj (split_dots [] path) of None \<Rightarrow> PNone | Some w \<Rightarrow> w)
           | [] \<Rightarrow> Inr (case walk_path obj (split_dots [] path) of None \<Rightarrow> PNone | Some w \<Rightarrow> w))
      | _ \<Rightarrow> Inr PNone)"

definition match_field_value :: "search \<Rightarrow> pv \<Rightarrow> string \<Rightarrow> pv \<Rightarrow> bool" where
  "match_field_value re actual op expected =
     (let a = to_str actual; e = to_str expected in
      if op = ''=='' \<or> op = ''='' then a = e
      else if op = ''!='' then a \<noteq> e
      else if op = ''contains'' then sublist e a
      else if op = ''startswith'' then prefix e a
      else if op = ''regex'' then re e [] a \<noteq> None
      else False)"

definition or_empty :: "string option \<Rightarrow> string" where
  "or_empty s = (case s of None \<Rightarrow> '''' | Some t \<Rightarrow> t)"

text \<open>The content decides; \<open>None\<close> is no match, \<open>Some\<close> the groups. An unknown mode matches.\<close>

definition match_content :: "search \<Rightarrow> parsed_line \<Rightarrow> match_def \<Rightarrow> string option list option res" where
  "match_content re line md =
     (if md_mode md = ''text''
      then Inr (case pl_text line of
                  None \<Rightarrow> None
                | Some t \<Rightarrow> map_option tl (re (or_empty (md_pattern md)) (md_flags md) t))
      else if md_mode md = ''field''
      then (case pl_fields line of
              None \<Rightarrow> Inr None
            | Some obj \<Rightarrow> andThen (extract_field_value obj (or_empty (md_field md))) (\<lambda>actual.
                Inr (if actual = PNone then None
                     else if match_field_value re actual
                               (case md_op md of None \<Rightarrow> ''=='' | Some op \<Rightarrow> if op = '''' then ''=='' else op) (md_value md)
                     then Some [] else None)))
      else Inr (Some []))"

definition match_line :: "search \<Rightarrow> parsed_line \<Rightarrow> match_def \<Rightarrow> match_result res" where
  "match_line re line md = andThen (match_content re line md) (\<lambda>m.
     Inr (case m of
            None \<Rightarrow> no_match
          | Some gs \<Rightarrow>
              (let found = no_match\<lparr>mr_matched := True, mr_groups := gs\<rparr> in
               case (md_line md, pl_line line) of
                 (Some expected, Some actual) \<Rightarrow>
                   if md_tolerance md < \<bar>actual - expected\<bar>
                   then found\<lparr>mr_drift := True, mr_actual := Some actual, mr_expected := Some expected\<rparr>
                   else found
               | _ \<Rightarrow> found)))"

text \<open>\<open>apply_capture\<close>: a group by its number in text mode, a field by its path in field mode.\<close>

definition group_pv :: "string option \<Rightarrow> pv" where
  "group_pv g = (case g of None \<Rightarrow> PNone | Some t \<Rightarrow> PStr t)"

definition capture_one :: "parsed_line \<Rightarrow> match_def \<Rightarrow> match_result \<Rightarrow> string \<times> pv \<Rightarrow> pdict \<Rightarrow> pdict res" where
  "capture_one line md mr spec caps =
     (if md_mode md = ''text''
      then (case to_int (snd spec) of
              Inr n \<Rightarrow> Inr (if 0 \<le> n - 1 \<and> n - 1 < int (length (mr_groups mr))
                         then AList.update (fst spec) (group_pv (mr_groups mr ! nat (n - 1))) caps else caps)
            | Inl _ \<Rightarrow> Inr (AList.update (fst spec) (PStr (to_str (snd spec))) caps))
      else if md_mode md = ''field''
      then andThen (extract_field_value (case pl_fields line of None \<Rightarrow> PDict [] | Some v \<Rightarrow> if truthy v then v else PDict [])
                     (to_str (snd spec))) (\<lambda>v. Inr (if v = PNone then caps else AList.update (fst spec) v caps))
      else Inr caps)"

fun apply_capture :: "parsed_line \<Rightarrow> match_def \<Rightarrow> match_result \<Rightarrow> (string \<times> pv) list \<Rightarrow> pdict \<Rightarrow> pdict res" where
  "apply_capture line md mr [] caps = Inr caps"
| "apply_capture line md mr (spec # specs) caps =
     andThen (capture_one line md mr spec caps) (apply_capture line md mr specs)"

definition format_message :: "string \<Rightarrow> pdict \<Rightarrow> string res" where
  "format_message template caps = (case py_format template caps of Inl KeyError \<Rightarrow> Inr template | r \<Rightarrow> r)"

section \<open>The engine\<close>

record engine_event =
  ee_type :: string
  ee_label :: string
  ee_message :: string
  ee_level :: string
  ee_time :: string
  ee_rule :: string
  ee_category :: string
  ee_source :: string
  ee_source_line :: string
  ee_captures :: pdict
  ee_drift :: bool
  ee_actual :: "int option"
  ee_expected :: "int option"
  ee_idx :: "int option"

record drift_info =
  di_rule :: string
  di_file :: string
  di_expected :: int
  di_actual :: int
  di_tolerance :: int

text \<open>
  \<open>Engine.__init__\<close>: a tracker per identifier of a sequence rule, bound to the last rule that has
  it. The hook \<open>on_event\<close> is left out; hit identifiers and drift keys are lists without repetition.
\<close>

record engine =
  en_source :: string
  en_match :: "log_rule list"
  en_seq :: "log_rule list"
  en_trackers :: "(string \<times> log_rule \<times> tracker) list"
  en_events :: "engine_event list"
  en_hits :: "string list"
  en_drifts :: "drift_info list"
  en_keys :: "(string \<times> int option \<times> int option) list"
  en_unmatched :: nat
  en_total :: nat

definition new_engine :: "log_rule list \<Rightarrow> string \<Rightarrow> engine" where
  "new_engine rules source =
     (let seqs = filter (\<lambda>r. lr_sequence r \<noteq> None) rules in
      \<lparr>en_source = source, en_match = filter (\<lambda>r. lr_sequence r = None) rules, en_seq = seqs,
        en_trackers = fold (\<lambda>r. AList.update (lr_id r) (r, new_tracker)) seqs [],
        en_events = [], en_hits = [], en_drifts = [], en_keys = [], en_unmatched = 0, en_total = 0\<rparr>)"

definition emit :: "engine_event \<Rightarrow> engine \<Rightarrow> engine" where
  "emit ev en = en\<lparr>en_events := en_events en @ [ev]\<rparr>"

definition hit :: "string \<Rightarrow> engine \<Rightarrow> engine" where
  "hit r en = en\<lparr>en_hits := List.insert r (en_hits en)\<rparr>"

definition note_drift :: "log_rule \<Rightarrow> match_def \<Rightarrow> match_result \<Rightarrow> engine \<Rightarrow> engine" where
  "note_drift rule md mr en =
     (let key = (lr_id rule, mr_expected mr, mr_actual mr) in
      if \<not> mr_drift mr \<or> key \<in> set (en_keys en) then en
      else en\<lparr>en_keys := key # en_keys en, en_drifts := en_drifts en @
        [\<lparr>di_rule = lr_id rule, di_file = or_empty (md_file md),
          di_expected = (case mr_expected mr of None \<Rightarrow> 0 | Some n \<Rightarrow> n),
          di_actual = (case mr_actual mr of None \<Rightarrow> 0 | Some n \<Rightarrow> n), di_tolerance = md_tolerance md\<rparr>]\<rparr>)"

text \<open>One rule of one line; the hit is noted before the captures and the message may raise.\<close>

definition line_event :: "parsed_line \<Rightarrow> log_rule \<Rightarrow> match_result \<Rightarrow> pdict \<Rightarrow> string \<Rightarrow> engine_event" where
  "line_event line rule mr caps msg =
     \<lparr>ee_type = getd_str (lr_event rule) ''type'' (lr_id rule), ee_label = getd_str (lr_event rule) ''label'' (lr_id rule),
       ee_message = msg, ee_level = lr_level rule, ee_time = time_of line, ee_rule = lr_id rule,
       ee_category = lr_category rule, ee_source = pl_source line, ee_source_line = pl_raw line, ee_captures = caps,
       ee_drift = mr_drift mr, ee_actual = mr_actual mr, ee_expected = mr_expected mr, ee_idx = pl_idx line\<rparr>"

definition apply_match_rule :: "search \<Rightarrow> parsed_line \<Rightarrow> log_rule \<Rightarrow> engine \<Rightarrow> bool res \<times> engine" where
  "apply_match_rule re line rule en =
     (case lr_match rule of
        None \<Rightarrow> (Inr False, en)
      | Some md \<Rightarrow>
          if lr_source rule = [] then (Inl IndexError, en)
          else if hd (lr_source rule) \<noteq> en_source en then (Inr False, en)
          else case match_line re line md of
            Inl x \<Rightarrow> (Inl x, en)
          | Inr mr \<Rightarrow>
              if \<not> mr_matched mr then (Inr False, en)
              else
                let en = hit (lr_id rule) en in
                case andThen (apply_capture line md mr (lr_capture rule) []) (\<lambda>caps.
                       andThen (format_message (getd_str (lr_event rule) ''message'' '''') caps) (\<lambda>msg. Inr (caps, msg))) of
                  Inl x \<Rightarrow> (Inl x, en)
                | Inr (caps, msg) \<Rightarrow> (Inr True, note_drift rule md mr (emit (line_event line rule mr caps msg) en)))"

fun match_rules :: "search \<Rightarrow> parsed_line \<Rightarrow> log_rule list \<Rightarrow> bool \<Rightarrow> engine \<Rightarrow> bool res \<times> engine" where
  "match_rules re line [] any en = (Inr any, en)"
| "match_rules re line (r # rs) any en =
     (case apply_match_rule re line r en of
        (Inl x, en) \<Rightarrow> (Inl x, en)
      | (Inr m, en) \<Rightarrow> match_rules re line rs (any \<or> m) en)"

definition flow_event :: "log_rule \<Rightarrow> string \<Rightarrow> string \<Rightarrow> int option \<Rightarrow> sequence_event \<Rightarrow> engine_event" where
  "flow_event rule source raw idx se =
     \<lparr>ee_type = se_type se, ee_label = se_label se, ee_message = se_message se, ee_level = se_level se,
       ee_time = se_time se, ee_rule = lr_id rule, ee_category = lr_category rule, ee_source = source,
       ee_source_line = raw, ee_captures = se_captures se, ee_drift = False, ee_actual = None, ee_expected = None,
       ee_idx = idx\<rparr>"

text \<open>The tracker of a sequence rule; the KeyError of a missing one cannot occur.\<close>

definition apply_sequence_rule :: "search \<Rightarrow> parsed_line \<Rightarrow> log_rule \<Rightarrow> engine \<Rightarrow> bool res \<times> engine" where
  "apply_sequence_rule re line rule en =
     (case map_of (en_trackers en) (lr_id rule) of
        None \<Rightarrow> (Inl KeyError, en)
      | Some (owner, tk) \<Rightarrow>
          (case tracker_feed re owner line tk of
             (Inl x, tk) \<Rightarrow> (Inl x, en\<lparr>en_trackers := AList.update (lr_id rule) (owner, tk) (en_trackers en)\<rparr>)
           | (Inr ses, tk) \<Rightarrow>
               let en = en\<lparr>en_trackers := AList.update (lr_id rule) (owner, tk) (en_trackers en)\<rparr> in
               if ses = [] then (Inr False, en)
               else (Inr True, fold emit (map (flow_event rule (pl_source line) (pl_raw line) (pl_idx line)) ses)
                 (hit (lr_id rule) en))))"

fun sequence_rules :: "search \<Rightarrow> parsed_line \<Rightarrow> log_rule list \<Rightarrow> bool \<Rightarrow> engine \<Rightarrow> bool res \<times> engine" where
  "sequence_rules re line [] any en = (Inr any, en)"
| "sequence_rules re line (r # rs) any en =
     (case apply_sequence_rule re line r en of
        (Inl x, en) \<Rightarrow> (Inl x, en)
      | (Inr m, en) \<Rightarrow> sequence_rules re line rs (any \<or> m) en)"

definition engine_feed :: "search \<Rightarrow> parsed_line \<Rightarrow> engine \<Rightarrow> unit res \<times> engine" where
  "engine_feed re line en =
     (let en = en\<lparr>en_total := Suc (en_total en)\<rparr> in
      if pl_source line \<noteq> en_source en then (Inr (), en)
      else case match_rules re line (en_match en) False en of
        (Inl x, en) \<Rightarrow> (Inl x, en)
      | (Inr any, en) \<Rightarrow>
          (case sequence_rules re line (en_seq en) any en of
             (Inl x, en) \<Rightarrow> (Inl x, en)
           | (Inr any, en) \<Rightarrow> (Inr (), if any then en else en\<lparr>en_unmatched := Suc (en_unmatched en)\<rparr>)))"

record scan_result =
  sr_source :: string
  sr_events :: "engine_event list"
  sr_hits :: "string list"
  sr_drifts :: "drift_info list"
  sr_unmatched :: nat
  sr_total :: nat

definition flush_one :: "string \<times> log_rule \<times> tracker \<Rightarrow> engine \<Rightarrow> engine" where
  "flush_one entry en =
     (case entry of (rid, owner, tk) \<Rightarrow>
        (case tracker_flush owner tk of (ses, tk) \<Rightarrow>
           let en = en\<lparr>en_trackers := AList.update rid (owner, tk) (en_trackers en)\<rparr> in
           case find (\<lambda>r. lr_id r = rid) (en_seq en) of
             None \<Rightarrow> en
           | Some rule \<Rightarrow> fold emit (map (flow_event rule (en_source en) '''' None) ses) en))"

definition engine_finalize :: "engine \<Rightarrow> scan_result \<times> engine" where
  "engine_finalize en =
     (let en = fold flush_one (en_trackers en) en in
      (\<lparr>sr_source = en_source en, sr_events = en_events en, sr_hits = sort (en_hits en), sr_drifts = en_drifts en,
         sr_unmatched = en_unmatched en, sr_total = en_total en\<rparr>, en))"

fun engine_lines :: "search \<Rightarrow> parsed_line list \<Rightarrow> engine \<Rightarrow> unit res \<times> engine" where
  "engine_lines re [] en = (Inr (), en)"
| "engine_lines re (l # ls) en =
     (case engine_feed re l en of (Inl x, en) \<Rightarrow> (Inl x, en) | (Inr _, en) \<Rightarrow> engine_lines re ls en)"

definition run_scan :: "search \<Rightarrow> parsed_line list \<Rightarrow> log_rule list \<Rightarrow> string \<Rightarrow> scan_result res" where
  "run_scan re lines rules source =
     (case engine_lines re lines (new_engine rules source) of
        (Inl x, en) \<Rightarrow> Inl x
      | (Inr _, en) \<Rightarrow> Inr (fst (engine_finalize en)))"

section \<open>What a scan accounts for\<close>

text \<open>One step of the engine on a line: new events of that line, their rules hit, nothing else counted.\<close>

definition effect :: "parsed_line \<Rightarrow> engine \<Rightarrow> engine_event list \<Rightarrow> engine \<Rightarrow> bool" where
  "effect line en new en' \<longleftrightarrow>
     en_events en' = en_events en @ new \<and> set (en_hits en') = set (en_hits en) \<union> ee_rule ` set new
   \<and> (distinct (en_hits en) \<longrightarrow> distinct (en_hits en')) \<and> list_all (\<lambda>e. ee_source_line e = pl_raw line) new
   \<and> en_source en' = en_source en \<and> en_match en' = en_match en \<and> en_seq en' = en_seq en
   \<and> en_unmatched en' = en_unmatched en \<and> en_total en' = en_total en"

lemma effect_none [simp]: "effect line en [] en"
  by (simp add: effect_def)

lemma effect_trans: "effect line en new en1 \<Longrightarrow> effect line en1 new' en2 \<Longrightarrow> effect line en (new @ new') en2"
  by (auto simp: effect_def)

lemma emits:
  "fold emit evs en = en\<lparr>en_events := en_events en @ evs\<rparr>"
  by (induction evs arbitrary: en) (simp_all add: emit_def)

lemma apply_match_rule_effect:
  assumes "apply_match_rule re line rule en = (Inr m, en')"
  shows "\<exists>new. effect line en new en' \<and> (m \<longleftrightarrow> new \<noteq> [])"
proof (cases m)
  case True
  with assms obtain md mr caps msg where
    "en' = note_drift rule md mr (emit (line_event line rule mr caps msg) (hit (lr_id rule) en))"
    by (auto simp: apply_match_rule_def Let_def split: option.splits if_splits sum.splits)
  with True show ?thesis
    by (intro exI [of _ "[line_event line rule mr caps msg]"])
      (auto simp: effect_def hit_def emit_def note_drift_def line_event_def Let_def)
next
  case False
  with assms have "en' = en"
    by (auto simp: apply_match_rule_def Let_def split: option.splits if_splits sum.splits)
  with False show ?thesis by (intro exI [of _ "[]"]) simp
qed

lemma apply_sequence_rule_effect:
  assumes "apply_sequence_rule re line rule en = (Inr m, en')"
  shows "\<exists>new. effect line en new en' \<and> (m \<longleftrightarrow> new \<noteq> [])"
proof -
  obtain owner tk ses tk' where tr: "map_of (en_trackers en) (lr_id rule) = Some (owner, tk)"
    and f: "tracker_feed re owner line tk = (Inr ses, tk')"
    using assms by (auto simp: apply_sequence_rule_def split: option.splits prod.splits sum.splits)
  let ?new = "map (flow_event rule (pl_source line) (pl_raw line) (pl_idx line)) ses"
  show ?thesis
  proof (rule exI [of _ ?new])
    show "effect line en ?new en' \<and> (m \<longleftrightarrow> ?new \<noteq> [])"
      using assms tr f
      by (cases ses)
        (auto simp: apply_sequence_rule_def effect_def hit_def emit_def emits list_all_iff flow_event_def Let_def)
  qed
qed

lemma match_rules_effect:
  "match_rules re line rs any en = (Inr m, en') \<Longrightarrow> \<exists>new. effect line en new en' \<and> (m \<longleftrightarrow> any \<or> new \<noteq> [])"
proof (induction rs arbitrary: any en)
  case (Cons r rs)
  then obtain m1 en1 where a: "apply_match_rule re line r en = (Inr m1, en1)"
    and b: "match_rules re line rs (any \<or> m1) en1 = (Inr m, en')"
    by (auto split: prod.splits sum.splits)
  from apply_match_rule_effect [OF a] Cons.IH [OF b] show ?case
    by (metis append_is_Nil_conv effect_trans)
qed (auto intro: exI [of _ "[]"])

lemma sequence_rules_effect:
  "sequence_rules re line rs any en = (Inr m, en') \<Longrightarrow> \<exists>new. effect line en new en' \<and> (m \<longleftrightarrow> any \<or> new \<noteq> [])"
proof (induction rs arbitrary: any en)
  case (Cons r rs)
  then obtain m1 en1 where a: "apply_sequence_rule re line r en = (Inr m1, en1)"
    and b: "sequence_rules re line rs (any \<or> m1) en1 = (Inr m, en')"
    by (auto split: prod.splits sum.splits)
  from apply_sequence_rule_effect [OF a] Cons.IH [OF b] show ?case
    by (metis append_is_Nil_conv effect_trans)
qed (auto intro: exI [of _ "[]"])

lemma engine_feed_effect:
  assumes "engine_feed re line en = (Inr u, en')"
  shows "\<exists>new. effect line en new (en'\<lparr>en_total := en_total en, en_unmatched := en_unmatched en\<rparr>)
    \<and> en_total en' = Suc (en_total en)
    \<and> (if pl_source line = en_source en
       then en_unmatched en' = en_unmatched en + (if new = [] then 1 else 0)
       else new = [] \<and> en_unmatched en' = en_unmatched en)"
proof (cases "pl_source line = en_source en")
  case True
  define en0 where "en0 = en\<lparr>en_total := Suc (en_total en)\<rparr>"
  from assms True obtain m1 en1 m2 en2 where a: "match_rules re line (en_match en0) False en0 = (Inr m1, en1)"
    and b: "sequence_rules re line (en_seq en1) m1 en1 = (Inr m2, en2)"
    and e: "en' = (if m2 then en2 else en2\<lparr>en_unmatched := Suc (en_unmatched en2)\<rparr>)"
    by (auto simp: engine_feed_def en0_def Let_def split: prod.splits sum.splits)
  from match_rules_effect [OF a] sequence_rules_effect [OF b] obtain new1 new2
    where n: "effect line en0 new1 en1" "effect line en1 new2 en2" "m2 \<longleftrightarrow> new1 \<noteq> [] \<or> new2 \<noteq> []" by auto
  from effect_trans [OF n(1,2)] n(3) e True show ?thesis
    by (intro exI [of _ "new1 @ new2"]) (auto simp: effect_def en0_def)
qed (use assms in \<open>auto simp: engine_feed_def effect_def\<close>)

lemma engine_lines_effect:
  "engine_lines re ls en = (Inr u, en') \<Longrightarrow> distinct (en_hits en) \<Longrightarrow>
    \<exists>per. list_all2 (\<lambda>l new. list_all (\<lambda>e. ee_source_line e = pl_raw l) new) (filter (\<lambda>l. pl_source l = en_source en) ls) per
      \<and> en_events en' = en_events en @ concat per
      \<and> set (en_hits en') = set (en_hits en) \<union> ee_rule ` set (concat per) \<and> distinct (en_hits en')
      \<and> en_total en' = en_total en + length ls
      \<and> en_unmatched en' = en_unmatched en + length (filter (\<lambda>new. new = []) per) \<and> en_source en' = en_source en"
proof (induction ls arbitrary: en)
  case (Cons l ls)
  then obtain en1 where f: "engine_feed re l en = (Inr (), en1)" and g: "engine_lines re ls en1 = (Inr u, en')"
    by (auto split: prod.splits sum.splits)
  from engine_feed_effect [OF f] obtain new where e: "effect l en new (en1\<lparr>en_total := en_total en, en_unmatched := en_unmatched en\<rparr>)"
    and t: "en_total en1 = Suc (en_total en)"
    and m: "if pl_source l = en_source en then en_unmatched en1 = en_unmatched en + (if new = [] then 1 else 0)
       else new = [] \<and> en_unmatched en1 = en_unmatched en" by blast
  from e Cons.prems(2) have "distinct (en_hits en1)" by (auto simp: effect_def)
  from Cons.IH [OF g this] obtain per where
    p: "list_all2 (\<lambda>l new. list_all (\<lambda>e. ee_source_line e = pl_raw l) new) (filter (\<lambda>l. pl_source l = en_source en1) ls) per"
      "en_events en' = en_events en1 @ concat per"
      "set (en_hits en') = set (en_hits en1) \<union> ee_rule ` set (concat per)" "distinct (en_hits en')"
      "en_total en' = en_total en1 + length ls"
      "en_unmatched en' = en_unmatched en1 + length (filter (\<lambda>new. new = []) per)" "en_source en' = en_source en1"
    by blast
  show ?case
    by (rule exI [of _ "if pl_source l = en_source en then new # per else per"])
      (use p e t m in \<open>auto simp: effect_def\<close>)
qed simp

lemma flush_one_effect:
  "\<exists>new. en_events (flush_one e en) = en_events en @ new \<and> list_all (\<lambda>e. ee_source_line e = '''') new
     \<and> en_hits (flush_one e en) = en_hits en \<and> en_unmatched (flush_one e en) = en_unmatched en
     \<and> en_total (flush_one e en) = en_total en"
proof -
  obtain rid owner tk where e: "e = (rid, owner, tk)" by (cases e)
  obtain ses tk' where f: "tracker_flush owner tk = (ses, tk')" by force
  show ?thesis
  proof (cases "find (\<lambda>r. lr_id r = rid) (en_seq en)")
    case (Some rule)
    with e f show ?thesis
      by (intro exI [of _ "map (flow_event rule (en_source en) '''' None) ses"])
        (simp add: flush_one_def emits Let_def flow_event_def list_all_iff)
  qed (use e f in \<open>auto simp: flush_one_def Let_def\<close>)
qed

lemma flush_effect:
  "\<exists>new. en_events (fold flush_one es en) = en_events en @ new \<and> list_all (\<lambda>e. ee_source_line e = []) new
     \<and> en_hits (fold flush_one es en) = en_hits en \<and> en_unmatched (fold flush_one es en) = en_unmatched en
     \<and> en_total (fold flush_one es en) = en_total en"
proof (induction es arbitrary: en)
  case (Cons e es)
  obtain new where n: "en_events (flush_one e en) = en_events en @ new" "list_all (\<lambda>e. ee_source_line e = []) new"
      "en_hits (flush_one e en) = en_hits en" "en_unmatched (flush_one e en) = en_unmatched en"
      "en_total (flush_one e en) = en_total en"
    using flush_one_effect [of e en] by blast
  obtain new' where "en_events (fold flush_one es (flush_one e en)) = en_events (flush_one e en) @ new'"
      "list_all (\<lambda>e. ee_source_line e = []) new'"
      "en_hits (fold flush_one es (flush_one e en)) = en_hits (flush_one e en)"
      "en_unmatched (fold flush_one es (flush_one e en)) = en_unmatched (flush_one e en)"
      "en_total (fold flush_one es (flush_one e en)) = en_total (flush_one e en)"
    using Cons.IH [of "flush_one e en"] by blast
  with n show ?case by (intro exI [of _ "new @ new'"]) simp
qed simp

text \<open>
  C27. A scan that ends accounts for every line: it counts them all, its events are those
  of the lines of its own source, line by line and in their order, and after them those of the
  flows cut off at the end; a line is unmatched exactly when it gave no event, and the rules hit
  are, once each, those of the events of the lines.
\<close>

theorem scan_accounts:
  assumes "run_scan re ls rules source = Inr r"
  shows "\<exists>per flushed. sr_events r = concat per @ flushed
    \<and> list_all2 (\<lambda>l new. list_all (\<lambda>e. ee_source_line e = pl_raw l) new) (filter (\<lambda>l. pl_source l = source) ls) per
    \<and> list_all (\<lambda>e. ee_source_line e = '''') flushed
    \<and> sr_unmatched r = length (filter (\<lambda>new. new = []) per) \<and> sr_total r = length ls
    \<and> set (sr_hits r) = ee_rule ` set (concat per) \<and> distinct (sr_hits r)"
proof -
  from assms obtain en where g: "engine_lines re ls (new_engine rules source) = (Inr (), en)"
    and r: "r = fst (engine_finalize en)"
    by (auto simp: run_scan_def split: prod.splits sum.splits)
  from engine_lines_effect [OF g] obtain per where
    p: "list_all2 (\<lambda>l new. list_all (\<lambda>e. ee_source_line e = pl_raw l) new) (filter (\<lambda>l. pl_source l = source) ls) per"
      "en_events en = concat per" "set (en_hits en) = ee_rule ` set (concat per)" "distinct (en_hits en)"
      "en_total en = length ls" "en_unmatched en = length (filter (\<lambda>new. new = []) per)"
    by (auto simp: new_engine_def Let_def)
  obtain flushed where "en_events (fold flush_one (en_trackers en) en) = en_events en @ flushed"
    "list_all (\<lambda>e. ee_source_line e = '''') flushed"
    "en_hits (fold flush_one (en_trackers en) en) = en_hits en"
    "en_unmatched (fold flush_one (en_trackers en) en) = en_unmatched en"
    "en_total (fold flush_one (en_trackers en) en) = en_total en"
    using flush_effect by blast
  with p r show ?thesis
    by (intro exI [of _ per] exI [of _ flushed]) (simp add: engine_finalize_def Let_def)
qed

definition joined_lines :: "parsed_line list" where
  "joined_lines = map (log_line '''') [''nwk disc done'', ''noise'', ''nwk assoc ok'', ''nwk disc done'']"

definition joined_scan :: "scan_result res" where
  "joined_scan = run_scan lit joined_lines [sta_rule] ''module_log''"

lemma joined_scan_result:
  "(case joined_scan of Inl x \<Rightarrow> False | Inr r \<Rightarrow> map ee_type (sr_events r) = [''join.sta.ok'', ''join.sta.timeout'']
     \<and> sr_hits r = [''sta.join''] \<and> sr_unmatched r = 3 \<and> sr_total r = 4)"
  by code_simp

theorem scan_accounts_witness:
  "\<exists>r. joined_scan = Inr r \<and> (\<exists>per flushed. sr_events r = concat per @ flushed
    \<and> list_all2 (\<lambda>l new. list_all (\<lambda>e. ee_source_line e = pl_raw l) new)
        (filter (\<lambda>l. pl_source l = ''module_log'') joined_lines) per
    \<and> list_all (\<lambda>e. ee_source_line e = '''') flushed
    \<and> sr_unmatched r = length (filter (\<lambda>new. new = []) per) \<and> sr_total r = length joined_lines
    \<and> set (sr_hits r) = ee_rule ` set (concat per) \<and> distinct (sr_hits r))"
proof -
  obtain r where r: "joined_scan = Inr r" using joined_scan_result by (auto split: sum.splits)
  from scan_accounts [OF r [unfolded joined_scan_def]] r show ?thesis by blast
qed

section \<open>Watching files\<close>

text \<open>
  \<open>watch\<close>: the rules and, for a pattern, one more; each round brings the parsed lines that the files
  have gained, until the time is over or the pattern was hit. The hits are collected by the hook
  \<open>_default_on_event\<close>, which is installed only when the caller brings none (\<open>observed\<close>).
\<close>

definition pattern_rule :: "string \<Rightarrow> log_rule" where
  "pattern_rule pattern = \<lparr>lr_id = ''watch.pattern'', lr_category = ''watch'', lr_level = ''info'', lr_scope = ''common'',
     lr_module = ''common'', lr_province = None, lr_source = [''module_log''],
     lr_match = Some \<lparr>md_mode = ''text'', md_pattern = Some pattern, md_flags = [''i''], md_field = None, md_op = None,
       md_value = PNone, md_file = None, md_line = None, md_tolerance = 10\<rparr>,
     lr_sequence = None, lr_capture = [],
     lr_event = [(''type'', ''watch.hit''), (''label'', ''hit: '' @ pattern), (''message'', ''matched: '' @ pattern)]\<rparr>"

definition new_hits :: "bool \<Rightarrow> string option \<Rightarrow> engine \<Rightarrow> engine \<Rightarrow> string list" where
  "new_hits observed pattern en en' =
     (if observed \<or> pattern \<in> {None, Some ''''} then []
      else map ee_time (filter (\<lambda>e. ee_rule e = ''watch.pattern'') (drop (length (en_events en)) (en_events en'))))"

fun watch_rounds :: "search \<Rightarrow> bool \<Rightarrow> string option \<Rightarrow> parsed_line list list \<Rightarrow> engine \<Rightarrow> string list
    \<Rightarrow> (bool \<times> string list \<times> engine_event list) res" where
  "watch_rounds re observed pattern [] en hits = Inr (hits \<noteq> [], hits, en_events en)"
| "watch_rounds re observed pattern (ls # rounds) en hits =
     (case engine_lines re ls en of
        (Inl x, en') \<Rightarrow> Inl x
      | (Inr _, en') \<Rightarrow>
          let hits = hits @ new_hits observed pattern en en' in
          if pattern \<notin> {None, Some ''''} \<and> hits \<noteq> [] then Inr (True, hits, en_events en')
          else watch_rounds re observed pattern rounds en' hits)"

definition watch :: "search \<Rightarrow> log_rule list \<Rightarrow> bool \<Rightarrow> string option \<Rightarrow> parsed_line list list
    \<Rightarrow> (bool \<times> string list \<times> engine_event list) res" where
  "watch re rules observed pattern rounds =
     watch_rounds re observed pattern rounds
       (new_engine (rules @ (case pattern of None \<Rightarrow> [] | Some p \<Rightarrow> if p = '''' then [] else [pattern_rule p])) ''module_log'') []"

text \<open>With a hook of the caller's the pattern never counts as hit, and the watch runs to its end.\<close>

lemma observed_rounds_never_hit:
  "watch_rounds re True pattern rounds en [] = Inr (stopped, hits, evs) \<Longrightarrow> \<not> stopped \<and> hits = []"
  by (induction rounds arbitrary: en) (auto simp: new_hits_def split: prod.splits sum.splits)

lemma observed_watch_never_hits:
  "watch re rules True pattern rounds = Inr (stopped, hits, evs) \<Longrightarrow> \<not> stopped \<and> hits = []"
  unfolding watch_def by (rule observed_rounds_never_hit)

text \<open>
  The pattern of a watch becomes part of a message template: a regular
  expression with a count in braces, such as \<open>a{3}\<close>, ends the watch with an IndexError at its
  first hit, whatever the caller's hook, while one without braces reports the hit.
\<close>

theorem watch_pattern_raises:
  "watch (\<lambda>p f t. if t = ''aaa'' then Some [Some t] else None) [] observed (Some ''a{3}'')
      [[log_line '''' ''aaa'']] = Inl IndexError
   \<and> (case watch (\<lambda>p f t. if t = ''aaa'' then Some [Some t] else None) [] False (Some ''a+'')
        [[log_line '''' ''aaa'']] of Inl x \<Rightarrow> False | Inr (stopped, hits, evs) \<Rightarrow> stopped \<and> length hits = 1)"
  by (simp add: watch_def new_engine_def engine_feed_def Let_def pattern_rule_def log_line_def apply_match_rule_def
      match_line_def match_content_def andThen_def or_empty_def no_match_def hit_def format_message_def getd_str_def
      py_format_def py_field_def is_digit_def new_hits_def emit_def note_drift_def line_event_def)

end
