(* ===== verification/Period_Stats.thy ===== *)
theory Period_Stats
  imports Py_Values "HOL-Library.AList" "HOL-Library.Multiset"
begin

text \<open>
  The statistics of concurrent meter reading per period, \<open>libs/sim_concentrator/period_stats.py\<close>:
  reading attempts gathered in buckets of time, with their counts, the mean duration and the
  highest number of attempts in flight. Times are exact fractions of a second.
\<close>

section \<open>Attempts and buckets\<close>

text \<open>A time in an attempt as given: missing or \<open>None\<close>, a number, or nothing \<open>float\<close> takes.\<close>

datatype time_field = No_Time | Time rat | Bad_Time

record raw_attempt =
  ra_meter :: string
  ra_start :: time_field
  ra_end :: time_field
  ra_status :: string
  ra_duplicate :: bool

record attempt =
  at_meter :: string
  at_start :: rat
  at_end :: "rat option"
  at_status :: string
  at_duplicate :: bool

record stat_bucket =
  sb_dispatch :: nat
  sb_success :: nat
  sb_failed :: nat
  sb_duplicate :: nat
  sb_avg :: "int option"
  sb_peak :: int

definition empty_bucket :: stat_bucket where
  "empty_bucket = \<lparr>sb_dispatch = 0, sb_success = 0, sb_failed = 0, sb_duplicate = 0, sb_avg = None, sb_peak = 0\<rparr>"

text \<open>\<open>parse_period\<close>: digits with a unit; 15 minutes for everything else.\<close>

definition DEFAULT_PERIOD_SECONDS :: int where
  "DEFAULT_PERIOD_SECONDS = 900"

definition lower :: "char \<Rightarrow> char" where
  "lower c = (let n = (of_char c :: nat) in
     if (65 \<le> n \<and> n \<le> 90) \<or> (192 \<le> n \<and> n \<le> 222 \<and> n \<noteq> 215) then char_of (n + 32) else c)"

definition parse_period :: "pv \<Rightarrow> int" where
  "parse_period v =
     (if v = PNone \<or> v = PStr '''' then DEFAULT_PERIOD_SECONDS
      else
        let s = map lower (py_strip (to_str v)); ds = takeWhile is_digit s; unit = dropWhile is_digit s in
        if ds = [] then DEFAULT_PERIOD_SECONDS
        else case int_digits 0 ds of
          None \<Rightarrow> DEFAULT_PERIOD_SECONDS
        | Some n \<Rightarrow>
            (if unit = '''' \<or> unit = ''s'' then int n
             else if unit = ''m'' then int n * 60
             else if unit = ''h'' then int n * 3600
             else DEFAULT_PERIOD_SECONDS))"

definition read_attempt :: "raw_attempt \<Rightarrow> attempt option" where
  "read_attempt a =
     (case (ra_start a, ra_end a) of
        (Time s, No_Time) \<Rightarrow> Some \<lparr>at_meter = ra_meter a, at_start = s, at_end = None, at_status = ra_status a,
          at_duplicate = ra_duplicate a\<rparr>
      | (Time s, Time e) \<Rightarrow> Some \<lparr>at_meter = ra_meter a, at_start = s, at_end = Some e, at_status = ra_status a,
          at_duplicate = ra_duplicate a\<rparr>
      | _ \<Rightarrow> None)"

definition bucket_start :: "rat \<Rightarrow> int \<Rightarrow> int" where
  "bucket_start epoch period = \<lfloor>epoch / of_int period\<rfloor> * period"

text \<open>The loop over the attempts in the order of their starts.\<close>

definition count_in :: "bool \<Rightarrow> bool \<Rightarrow> stat_bucket \<Rightarrow> stat_bucket" where
  "count_in success dup b = b\<lparr>sb_dispatch := Suc (sb_dispatch b),
     sb_success := sb_success b + (if success then 1 else 0), sb_failed := sb_failed b + (if success then 0 else 1),
     sb_duplicate := sb_duplicate b + (if dup then 1 else 0)\<rparr>"

fun count_attempts :: "int \<Rightarrow> attempt list \<Rightarrow> (string \<times> rat) list \<Rightarrow> (int \<times> stat_bucket) list \<Rightarrow> (int \<times> stat_bucket) list" where
  "count_attempts period [] open_until bs = bs"
| "count_attempts period (a # as) open_until bs =
     (let key = bucket_start (at_start a) period;
          b = (case map_of bs key of None \<Rightarrow> empty_bucket | Some b \<Rightarrow> b);
          seen = (case map_of open_until (at_meter a) of None \<Rightarrow> 0 | Some t \<Rightarrow> t);
          dup = (at_duplicate a \<or> at_end a \<noteq> None \<and> at_start a < seen)
      in count_attempts period as
           (case at_end a of None \<Rightarrow> open_until | Some e \<Rightarrow> AList.update (at_meter a) e open_until)
           (AList.update key (count_in (at_status a = ''success'') dup b) bs))"

text \<open>The sweep over the starts and ends of a bucket: ends before starts at the same time.\<close>

definition marks_of :: "attempt list \<Rightarrow> (rat \<times> int) list" where
  "marks_of as = concat (map (\<lambda>a. (at_start a, 1) # (case at_end a of None \<Rightarrow> [] | Some e \<Rightarrow> [(e, -1)])) as)"

fun sweep :: "(rat \<times> int) list \<Rightarrow> int \<Rightarrow> int \<Rightarrow> int" where
  "sweep [] cur peak = peak"
| "sweep ((t, d) # ms) cur peak = sweep ms (cur + d) (max peak (cur + d))"

definition mark_le :: "rat \<times> int \<Rightarrow> rat \<times> int \<Rightarrow> bool" where
  "mark_le m n \<longleftrightarrow> fst m < fst n \<or> fst m = fst n \<and> snd m \<le> snd n"

fun insort_mark :: "rat \<times> int \<Rightarrow> (rat \<times> int) list \<Rightarrow> (rat \<times> int) list" where
  "insort_mark m [] = [m]"
| "insort_mark m (n # ns) = (if mark_le m n then m # n # ns else n # insort_mark m ns)"

definition sort_marks :: "(rat \<times> int) list \<Rightarrow> (rat \<times> int) list" where
  "sort_marks ms = foldr insort_mark ms []"

definition durations :: "attempt list \<Rightarrow> rat list" where
  "durations as = List.map_filter (\<lambda>a. map_option (\<lambda>e. (e - at_start a) * 1000) (at_end a)) as"

text \<open>\<open>int()\<close> cuts towards zero.\<close>

definition rat_trunc :: "rat \<Rightarrow> int" where
  "rat_trunc x = (if x < 0 then - \<lfloor>- x\<rfloor> else \<lfloor>x\<rfloor>)"

definition finish_bucket :: "int \<Rightarrow> attempt list \<Rightarrow> int \<times> stat_bucket \<Rightarrow> int \<times> stat_bucket" where
  "finish_bucket period atts kb =
     (case kb of (key, b) \<Rightarrow>
        let here = filter (\<lambda>a. of_int key \<le> at_start a \<and> at_start a < of_int (key + period)) atts; durs = durations here in
        (key, b\<lparr>sb_peak := sweep (sort_marks (marks_of here)) 0 0,
           sb_avg := (if durs = [] then None else Some (rat_trunc (sum_list durs / of_nat (length durs))))\<rparr>))"

record period_stats =
  ps_period :: int
  ps_buckets :: "(int \<times> stat_bucket) list"
  ps_total :: nat

definition aggregate :: "raw_attempt list \<Rightarrow> int \<Rightarrow> period_stats res" where
  "aggregate attempts period =
     (let atts = List.map_filter read_attempt attempts in
      if period = 0 \<and> atts \<noteq> [] then Inl ZeroDivisionError
      else
        let bs = count_attempts period (sort_key at_start atts) [] [] in
        Inr \<lparr>ps_period = period, ps_buckets = sort_key fst (map (finish_bucket period atts) bs), ps_total = length atts\<rparr>)"

section \<open>The sweep counts what is in flight\<close>

definition in_flight :: "attempt list \<Rightarrow> rat \<Rightarrow> int" where
  "in_flight as t = int (length (filter (\<lambda>a. at_start a \<le> t \<and> (case at_end a of None \<Rightarrow> True | Some e \<Rightarrow> t < e)) as))"

text \<open>The highest number in flight at the start of any of the attempts.\<close>

definition busiest :: "attempt list \<Rightarrow> int" where
  "busiest as = fold max (map (in_flight as \<circ> at_start) as) 0"

definition proper :: "attempt \<Rightarrow> bool" where
  "proper a = (case at_end a of None \<Rightarrow> True | Some e \<Rightarrow> at_start a \<le> e)"

definition level :: "(rat \<times> int) list \<Rightarrow> rat \<Rightarrow> int" where
  "level ms t = sum_list (map snd (filter (\<lambda>m. fst m \<le> t) ms))"

lemma mset_insort_mark [simp]: "mset (insort_mark m ns) = add_mset m (mset ns)"
  by (induction ns) simp_all

lemma mset_sort_marks [simp]: "mset (sort_marks ms) = mset ms"
  by (induction ms) (simp_all add: sort_marks_def)

lemma mark_le_trans: "mark_le l m \<Longrightarrow> mark_le m n \<Longrightarrow> mark_le l n"
  by (auto simp: mark_le_def)

lemma sorted_insort_mark: "sorted_wrt mark_le ns \<Longrightarrow> sorted_wrt mark_le (insort_mark m ns)"
proof (induction ns)
  case (Cons n ns)
  have "set (insort_mark m ns) = insert m (set ns)" by (metis mset_insort_mark set_mset_add_mset_insert set_mset_mset)
  moreover have "\<not> mark_le m n \<Longrightarrow> mark_le n m" by (auto simp: mark_le_def)
  ultimately show ?case using Cons mark_le_trans by auto
qed simp

lemma sorted_sort_marks: "sorted_wrt mark_le (sort_marks ms)"
  by (induction ms) (simp_all add: sort_marks_def sorted_insort_mark)

lemma level_mset: "mset ms = mset ns \<Longrightarrow> level ms t = level ns t"
proof -
  assume "mset ms = mset ns"
  then have "mset (map snd (filter (\<lambda>m. fst m \<le> t) ms)) = mset (map snd (filter (\<lambda>m. fst m \<le> t) ns))" by simp
  then show ?thesis unfolding level_def by (metis sum_mset_sum_list)
qed

lemma level_marks: "list_all proper as \<Longrightarrow> level (marks_of as) t = in_flight as t"
proof (induction as)
  case (Cons a as)
  have "level (marks_of (a # as)) t = (if at_start a \<le> t then 1 else 0)
      + (case at_end a of None \<Rightarrow> 0 | Some e \<Rightarrow> if e \<le> t then -1 else 0) + level (marks_of as) t"
    by (auto simp: level_def marks_of_def split: option.splits)
  with Cons show ?case by (auto simp: in_flight_def proper_def split: option.splits)
qed (simp add: level_def marks_of_def in_flight_def)

lemma sweep_peak: "peak \<le> sweep ms cur peak"
proof (induction ms arbitrary: cur peak)
  case (Cons m ms)
  then show ?case by (cases m) (metis max.bounded_iff sweep.simps(2))
qed simp

lemma sweep_append: "sweep (xs @ ys) cur peak = sweep ys (cur + sum_list (map snd xs)) (sweep xs cur peak)"
  by (induction xs cur peak rule: sweep.induct) (simp_all add: add.assoc)

text \<open>Every level at a mark is reached by the sweep, and it never goes above them.\<close>

lemma filter_prefix:
  "sorted_wrt mark_le ms \<Longrightarrow> ms = filter (\<lambda>m. fst m \<le> t) ms @ filter (\<lambda>m. \<not> fst m \<le> t) ms"
proof (induction ms)
  case (Cons m ms)
  show ?case
  proof (cases "fst m \<le> t")
    case False
    with Cons.prems have "filter (\<lambda>m. fst m \<le> t) ms = []" by (auto simp: filter_empty_conv mark_le_def)
    moreover have "filter (\<lambda>m. \<not> fst m \<le> t) ms = ms" using Cons calculation by simp
    ultimately show ?thesis using False by simp
  qed (use Cons in auto)
qed simp

lemma level_le_sweep:
  assumes "sorted_wrt mark_le ms" "filter (\<lambda>m. fst m \<le> t) ms \<noteq> []"
  shows "level ms t \<le> sweep ms 0 0"
proof -
  let ?xs = "filter (\<lambda>m. fst m \<le> t) ms" and ?ys = "filter (\<lambda>m. \<not> fst m \<le> t) ms"
  obtain zs m where z: "?xs = zs @ [m]" using assms(2) by (cases ?xs rule: rev_cases) auto
  have "level ms t = sum_list (map snd zs) + snd m" by (simp add: level_def z)
  also have "\<dots> \<le> sweep ?xs 0 0" unfolding z sweep_append by (cases m) simp
  also have "\<dots> \<le> sweep (?xs @ ?ys) 0 0" unfolding sweep_append by (rule sweep_peak)
  finally show ?thesis using filter_prefix [OF assms(1)] by metis
qed

lemma sweep_le:
  "sorted_wrt mark_le (xs @ ys) \<Longrightarrow> list_all (\<lambda>m. snd m = 1 \<or> snd m = -1) (xs @ ys)
    \<Longrightarrow> \<forall>t d. (t, d) \<in> set (xs @ ys) \<longrightarrow> d = 1 \<longrightarrow> level (xs @ ys) t \<le> b \<Longrightarrow> 0 \<le> b
    \<Longrightarrow> sweep xs 0 0 \<le> b \<and> sum_list (map snd xs) \<le> b"
proof (induction xs arbitrary: ys rule: rev_induct)
  case (snoc m xs)
  obtain t d where m: "m = (t, d)" by (cases m)
  from snoc.prems snoc.IH [of "m # ys"] have ih: "sweep xs 0 0 \<le> b" "sum_list (map snd xs) \<le> b" by simp_all
  have "sum_list (map snd xs) + d \<le> b"
  proof (cases "d = 1")
    case True
    have before: "filter (\<lambda>m. fst m \<le> t) xs = xs"
      using snoc.prems(1) m by (auto simp: sorted_wrt_append filter_id_conv mark_le_def)
    have "snd n = 1" if "n \<in> set ys" "fst n \<le> t" for n
    proof -
      have "mark_le m n" using snoc.prems(1) that by (simp add: sorted_wrt_append)
      moreover have "snd n = 1 \<or> snd n = -1" using snoc.prems(2) that by (auto simp: list_all_iff)
      ultimately show ?thesis using that True m by (auto simp: mark_le_def)
    qed
    then have "0 \<le> sum_list (map snd (filter (\<lambda>m. fst m \<le> t) ys))" by (intro sum_list_nonneg) auto
    then have "sum_list (map snd xs) + d \<le> level ((xs @ [m]) @ ys) t"
      by (simp add: level_def before m)
    also have "\<dots> \<le> b" using snoc.prems(3) m True by simp
    finally show ?thesis .
  qed (use snoc.prems(2) m ih in auto)
  with ih show ?case by (simp add: sweep_append m)
qed simp

lemma fold_max_start: "y \<le> fold max xs (y :: int)"
proof (induction xs arbitrary: y)
  case (Cons z xs)
  have "max z y \<le> fold max xs (max z y)" by (rule Cons.IH)
  then show ?case by simp
qed simp

lemma fold_max_ge: "(x \<in> set xs \<or> x = y) \<Longrightarrow> x \<le> fold max xs (y :: int)"
proof (induction xs arbitrary: y)
  case (Cons z xs)
  have "max z y \<le> fold max xs (max z y)" by (rule fold_max_start)
  then have "y \<le> fold max xs (max z y)" "z \<le> fold max xs (max z y)" by simp_all
  moreover have "x \<in> set xs \<Longrightarrow> x \<le> fold max xs (max z y)" using Cons.IH by blast
  ultimately show ?case using Cons.prems by auto
qed simp

lemma fold_max_le: "(\<forall>x \<in> set xs. x \<le> b) \<Longrightarrow> y \<le> b \<Longrightarrow> fold max xs y \<le> (b :: int)"
  by (induction xs arbitrary: y) auto

lemma peak_busiest:
  assumes "list_all proper as"
  shows "sweep (sort_marks (marks_of as)) 0 0 = busiest as"
proof (rule antisym)
  let ?ms = "sort_marks (marks_of as)"
  have lv: "level ?ms t = in_flight as t" for t
    using level_mset [OF mset_sort_marks, of "marks_of as" t] level_marks [OF assms] by simp
  have set: "set ?ms = set (marks_of as)" by (metis mset_sort_marks set_mset_mset)
  have starts: "(t, 1) \<in> set ?ms \<longleftrightarrow> t \<in> at_start ` set as" for t
    unfolding set by (auto simp: marks_of_def split: option.splits)
  have "\<forall>t d. (t, d) \<in> set (?ms @ []) \<longrightarrow> d = 1 \<longrightarrow> level (?ms @ []) t \<le> busiest as"
    using starts by (auto simp: lv busiest_def intro!: fold_max_ge)
  moreover have "list_all (\<lambda>m. snd m = 1 \<or> snd m = -1) (?ms @ [])"
    unfolding append_Nil2 list_all_iff set by (auto simp: marks_of_def split: option.splits)
  moreover have "0 \<le> busiest as" unfolding busiest_def by (rule fold_max_ge) simp
  ultimately show "sweep ?ms 0 0 \<le> busiest as"
    using sweep_le [of ?ms "[]" "busiest as"] sorted_sort_marks by simp
  have "in_flight as (at_start a) \<le> sweep ?ms 0 0" if "a \<in> set as" for a
    using level_le_sweep [OF sorted_sort_marks, of "at_start a" "marks_of as"] starts [of "at_start a"] that lv
    by (force simp: filter_empty_conv)
  then show "busiest as \<le> sweep ?ms 0 0"
    unfolding busiest_def by (intro fold_max_le) (auto intro: sweep_peak)
qed

section \<open>What a bucket holds\<close>

definition starts_in :: "int \<Rightarrow> int \<Rightarrow> attempt list \<Rightarrow> attempt list" where
  "starts_in key period as = filter (\<lambda>a. of_int key \<le> at_start a \<and> at_start a < of_int (key + period)) as"

definition bucket_ok :: "stat_bucket \<Rightarrow> bool" where
  "bucket_ok b \<longleftrightarrow> sb_dispatch b = sb_success b + sb_failed b \<and> sb_duplicate b \<le> sb_dispatch b"

definition dispatched :: "(int \<times> stat_bucket) list \<Rightarrow> int \<Rightarrow> nat" where
  "dispatched bs key = (case map_of bs key of None \<Rightarrow> 0 | Some b \<Rightarrow> sb_dispatch b)"

lemma bucket_bounds:
  assumes "0 < p"
  shows "of_int (bucket_start x p) \<le> x" "x < of_int (bucket_start x p + p)"
proof -
  have "of_int \<lfloor>x / of_int p\<rfloor> \<le> x / of_int p" "x / of_int p < of_int \<lfloor>x / of_int p\<rfloor> + 1" by linarith+
  moreover have "(0 :: rat) < of_int p" using assms by simp
  ultimately have "of_int \<lfloor>x / of_int p\<rfloor> * of_int p \<le> x" "x < (of_int \<lfloor>x / of_int p\<rfloor> + 1) * of_int p"
    by (simp_all only: pos_le_divide_eq pos_divide_less_eq)
  then show "of_int (bucket_start x p) \<le> x" "x < of_int (bucket_start x p + p)"
    by (simp_all add: bucket_start_def algebra_simps)
qed

lemma bucket_start_iff:
  assumes "0 < p"
  shows "bucket_start x p = bucket_start y p \<longleftrightarrow> of_int (bucket_start y p) \<le> x \<and> x < of_int (bucket_start y p + p)"
proof
  assume "of_int (bucket_start y p) \<le> x \<and> x < of_int (bucket_start y p + p)"
  then have "of_int \<lfloor>y / of_int p\<rfloor> \<le> x / of_int p" "x / of_int p < of_int \<lfloor>y / of_int p\<rfloor> + 1"
    using assms by (simp_all add: bucket_start_def pos_le_divide_eq pos_divide_less_eq algebra_simps)
  then have "\<lfloor>x / of_int p\<rfloor> = \<lfloor>y / of_int p\<rfloor>" by (simp add: floor_unique)
  then show "bucket_start x p = bucket_start y p" by (simp add: bucket_start_def)
qed (use assms bucket_bounds in metis)

lemma update_subset: "set (AList.update k v al) \<subseteq> insert (k, v) (set al)"
  by (induction al) auto

lemma count_attempts_facts:
  "distinct (map fst bs) \<Longrightarrow> list_all (bucket_ok \<circ> snd) bs \<Longrightarrow>
   (let bs' = count_attempts p as ou bs in
      distinct (map fst bs') \<and> list_all (bucket_ok \<circ> snd) bs'
    \<and> set (map fst bs') = set (map fst bs) \<union> (\<lambda>a. bucket_start (at_start a) p) ` set as
    \<and> (\<forall>key. dispatched bs' key = dispatched bs key + length (filter (\<lambda>a. bucket_start (at_start a) p = key) as)))"
proof (induction as arbitrary: ou bs)
  case (Cons a as)
  define key where "key = bucket_start (at_start a) p"
  define b where "b = (case map_of bs key of None \<Rightarrow> empty_bucket | Some b \<Rightarrow> b)"
  define dup where "dup = (at_duplicate a \<or> at_end a \<noteq> None
    \<and> at_start a < (case map_of ou (at_meter a) of None \<Rightarrow> 0 | Some t \<Rightarrow> t))"
  let ?b = "count_in (at_status a = ''success'') dup b"
  let ?ou = "case at_end a of None \<Rightarrow> ou | Some e \<Rightarrow> AList.update (at_meter a) e ou"
  let ?bs = "AList.update key ?b bs"
  have "bucket_ok b"
  proof (cases "map_of bs key")
    case (Some c)
    with Cons.prems(2) map_of_SomeD [of bs key c] show ?thesis by (force simp: b_def list_all_iff)
  qed (simp add: b_def empty_bucket_def bucket_ok_def)
  then have "bucket_ok ?b" by (simp add: count_in_def bucket_ok_def)
  then have ok: "distinct (map fst ?bs)" "list_all (bucket_ok \<circ> snd) ?bs"
    using Cons.prems update_subset [of key ?b bs] by (auto simp: distinct_update list_all_iff)
  have "count_attempts p (a # as) ou bs = count_attempts p as ?ou ?bs"
    by (simp add: Let_def key_def b_def dup_def)
  moreover have "dispatched ?bs k = dispatched bs k + (if k = key then 1 else 0)" for k
    by (auto simp: dispatched_def update_conv' b_def empty_bucket_def count_in_def split: option.splits)
  moreover have "set (map fst ?bs) = insert key (set (map fst bs))"
    by (auto simp: update_keys)
  ultimately show ?case using Cons.IH [OF ok, of ?ou] by (auto simp: Let_def key_def [symmetric])
qed simp

lemma finish_bucket_parts:
  "fst (finish_bucket p as kb) = fst kb"
  "sb_dispatch (snd (finish_bucket p as kb)) = sb_dispatch (snd kb)"
  "bucket_ok (snd (finish_bucket p as kb)) = bucket_ok (snd kb)"
  "list_all proper as \<Longrightarrow> sb_peak (snd (finish_bucket p as kb)) = busiest (starts_in (fst kb) p as)"
proof -
  show "fst (finish_bucket p as kb) = fst kb" "sb_dispatch (snd (finish_bucket p as kb)) = sb_dispatch (snd kb)"
    "bucket_ok (snd (finish_bucket p as kb)) = bucket_ok (snd kb)"
    by (cases kb; simp add: finish_bucket_def Let_def bucket_ok_def)+
  assume "list_all proper as"
  then have "list_all proper (starts_in (fst kb) p as)" by (auto simp: starts_in_def list_all_iff)
  then show "sb_peak (snd (finish_bucket p as kb)) = busiest (starts_in (fst kb) p as)"
    by (cases kb) (simp add: finish_bucket_def Let_def peak_busiest [symmetric] starts_in_def)
qed

lemma bucket_counts:
  assumes "0 < p" "(key, b) \<in> set (count_attempts p (sort_key at_start as) [] [])"
  shows "bucket_ok b \<and> sb_dispatch b = length (starts_in key p as) \<and> (\<exists>a \<in> set as. key = bucket_start (at_start a) p)"
proof -
  define bs where "bs = count_attempts p (sort_key at_start as) [] []"
  have f: "distinct (map fst bs)" "list_all (bucket_ok \<circ> snd) bs"
    "set (map fst bs) = (\<lambda>a. bucket_start (at_start a) p) ` set as"
    "dispatched bs key = length (filter (\<lambda>a. bucket_start (at_start a) p = key) (sort_key at_start as))"
    using count_attempts_facts [of "[]" p "sort_key at_start as" "[]"]
    by (simp_all add: Let_def bs_def [symmetric] dispatched_def)
  have m: "map_of bs key = Some b" using f(1) assms(2) by (simp add: bs_def [symmetric])
  obtain a where a: "a \<in> set as" "key = bucket_start (at_start a) p"
    using f(3) assms(2) by (force simp: bs_def [symmetric])
  have "length (filter (\<lambda>a. bucket_start (at_start a) p = key) (sort_key at_start as))
      = length (filter (\<lambda>a. bucket_start (at_start a) p = key) as)"
    by (metis (no_types) mset_filter mset_sort size_mset)
  also have "\<dots> = length (starts_in key p as)"
    unfolding starts_in_def a(2) bucket_start_iff [OF assms(1)] ..
  finally have "sb_dispatch b = length (starts_in key p as)" using f(4) m by (simp add: dispatched_def)
  moreover have "bucket_ok b" using f(2) assms(2) by (auto simp: list_all_iff bs_def [symmetric])
  ultimately show ?thesis using a by blast
qed

text \<open>
  C28. Every attempt whose times can be read is counted in one bucket: the buckets are
  in order, each counts the attempts that start in it, as successes or failures, and its peak is
  the highest number of those in flight at a time, when no attempt ends before it starts.
\<close>

theorem stats_account:
  assumes "aggregate attempts period = Inr r" "0 < period" "list_all proper (List.map_filter read_attempt attempts)"
  shows "sorted_wrt (<) (map fst (ps_buckets r)) \<and> ps_total r = length (List.map_filter read_attempt attempts)
    \<and> list_all (\<lambda>(key, b). bucket_ok b \<and> 0 < sb_dispatch b
        \<and> sb_dispatch b = length (starts_in key period (List.map_filter read_attempt attempts))
        \<and> sb_peak b = busiest (starts_in key period (List.map_filter read_attempt attempts))) (ps_buckets r)
    \<and> list_all (\<lambda>a. bucket_start (at_start a) period \<in> fst ` set (ps_buckets r)) (List.map_filter read_attempt attempts)"
proof -
  define as where "as = List.map_filter read_attempt attempts"
  define bs where "bs = count_attempts period (sort_key at_start as) [] []"
  from assms(1,2) have r: "ps_buckets r = sort_key fst (map (finish_bucket period as) bs)" "ps_total r = length as"
    by (auto simp: aggregate_def Let_def as_def bs_def)
  have keys: "map fst (map (finish_bucket period as) bs) = map fst bs" by (simp add: finish_bucket_parts)
  have f: "distinct (map fst bs)" "set (map fst bs) = (\<lambda>a. bucket_start (at_start a) period) ` set as"
    using count_attempts_facts [of "[]" period "sort_key at_start as" "[]"] by (simp_all add: Let_def bs_def)
  have "distinct (map fst (ps_buckets r))"
    using f(1) keys unfolding r by (metis distinct_map mset_map mset_sort mset_eq_imp_distinct_iff)
  moreover have "sorted (map fst (ps_buckets r))" by (simp add: r)
  ultimately have "sorted_wrt (<) (map fst (ps_buckets r))" by (simp add: strict_sorted_iff)
  moreover have "bucket_ok b \<and> 0 < sb_dispatch b \<and> sb_dispatch b = length (starts_in key period as)
      \<and> sb_peak b = busiest (starts_in key period as)" if "(key, b) \<in> set (ps_buckets r)" for key b
  proof -
    from that obtain b0 where b: "(key, b0) \<in> set bs" "(key, b) = finish_bucket period as (key, b0)"
      by (auto simp: r) (metis fst_conv finish_bucket_parts(1) prod.collapse)
    from bucket_counts [OF assms(2) b(1) [unfolded bs_def]] obtain a where
      c: "bucket_ok b0" "sb_dispatch b0 = length (starts_in key period as)" "a \<in> set as" "key = bucket_start (at_start a) period"
      by blast
    have "a \<in> set (starts_in key period as)"
      using c(3,4) bucket_bounds [OF assms(2), of "at_start a"] by (simp add: starts_in_def)
    then have "0 < sb_dispatch b0" using c(2) by (cases "starts_in key period as") auto
    with c b(2) finish_bucket_parts(2-4) [where p = period and as = as and kb = "(key, b0)"] assms(3) show ?thesis
      by (metis as_def fst_conv snd_conv)
  qed
  moreover have "fst ` set (ps_buckets r) = (\<lambda>a. bucket_start (at_start a) period) ` set as"
    using f(2) keys by (metis list.set_map r(1) set_sort)
  ultimately show ?thesis using r(2) by (auto simp: as_def list_all_iff)
qed

definition reading :: "string \<Rightarrow> int \<Rightarrow> int option \<Rightarrow> string \<Rightarrow> raw_attempt" where
  "reading meter start end_time status = \<lparr>ra_meter = meter, ra_start = Time (of_int start),
     ra_end = (case end_time of None \<Rightarrow> No_Time | Some e \<Rightarrow> Time (of_int e)), ra_status = status, ra_duplicate = False\<rparr>"

text \<open>Two attempts in the first quarter of an hour, one of them until the second, and one there.\<close>

definition sample_readings :: "raw_attempt list" where
  "sample_readings = [reading ''a'' 0 (Some 1000) ''success'', reading ''b'' 10 None ''timeout'', reading ''b'' 20 (Some 30) ''success'',
     reading ''c'' 950 (Some 960) ''success'']"

lemma bucket_start_of_int: "bucket_start (of_int n) p = n div p * p"
  by (simp add: bucket_start_def floor_divide_of_int_eq)

definition sample_attempts :: "attempt list" where
  "sample_attempts =
     map (\<lambda>(m, s, e, st). \<lparr>at_meter = m, at_start = of_int s, at_end = map_option of_int e, at_status = st, at_duplicate = False\<rparr>)
       [(''a'', 0, Some 1000, ''success''), (''b'', 10, None, ''timeout''), (''b'', 20, Some 30, ''success''),
        (''c'', 950, Some 960, ''success'')]"

lemma sample_read: "List.map_filter read_attempt sample_readings = sample_attempts"
  by (simp add: sample_readings_def reading_def read_attempt_def map_filter_simps sample_attempts_def)

lemma sample_sorted: "sort_key at_start sample_attempts = sample_attempts"
  by (rule sort_key_id_if_sorted) (simp add: sample_attempts_def)

lemma sample_counts:
  "count_attempts 900 sample_attempts [] [] =
    [(0, empty_bucket\<lparr>sb_dispatch := 3, sb_success := 2, sb_failed := 1\<rparr>),
     (900, empty_bucket\<lparr>sb_dispatch := 1, sb_success := 1\<rparr>)]"
  by (simp add: sample_attempts_def bucket_start_of_int [of 0, simplified] bucket_start_of_int [of "numeral k" for k, simplified]
      count_in_def empty_bucket_def Let_def)

lemma sample_peaks:
  "sweep (sort_marks (marks_of (filter (\<lambda>a. of_int 0 \<le> at_start a \<and> at_start a < of_int (0 + 900)) sample_attempts))) 0 0 = 3"
  "sweep (sort_marks (marks_of (filter (\<lambda>a. of_int 900 \<le> at_start a \<and> at_start a < of_int (900 + 900)) sample_attempts))) 0 0 = 1"
  by (simp_all add: sample_attempts_def marks_of_def sort_marks_def mark_le_def)

definition sample_result :: period_stats where
  "sample_result = \<lparr>ps_period = 900,
     ps_buckets = sort_key fst (map (finish_bucket 900 sample_attempts) (count_attempts 900 sample_attempts [] [])), ps_total = 4\<rparr>"

lemma sample_aggregate: "aggregate sample_readings 900 = Inr sample_result"
  by (simp add: aggregate_def sample_read sample_sorted sample_result_def Let_def) (simp add: sample_attempts_def)

lemma sample_buckets:
  "map (\<lambda>(k, b). (k, sb_dispatch b, sb_duplicate b, sb_peak b)) (ps_buckets sample_result) = [(0, 3, 0, 3), (900, 1, 0, 1)]"
proof -
  have p: "sweep (sort_marks (marks_of (filter (\<lambda>a. of_int k \<le> at_start a \<and> at_start a < of_int (k + 900)) sample_attempts))) 0 0 = n"
    if "(k, n) \<in> {(0, 3), (900, 1)}" for k n
    using that sample_peaks by auto
  have "map (\<lambda>(k, b). (k, sb_dispatch b, sb_duplicate b, sb_peak b))
      (map (finish_bucket 900 sample_attempts) (count_attempts 900 sample_attempts [] [])) = [(0, 3, 0, 3), (900, 1, 0, 1)]"
    unfolding sample_counts
    by (simp only: list.map finish_bucket_def Let_def prod.case p [of 0 3] p [of 900 1] insert_iff simp_thms)
      (simp add: empty_bucket_def)
  moreover have "sort_key fst [x, y] = [x, y]" if "fst x \<le> fst y" for x y :: "int \<times> stat_bucket"
    using that by simp
  ultimately show ?thesis
    unfolding sample_result_def sample_counts
    by (simp add: finish_bucket_def Let_def)
qed

theorem stats_account_witness:
  "sorted_wrt (<) (map fst (ps_buckets sample_result)) \<and> ps_total sample_result = length (List.map_filter read_attempt sample_readings)
    \<and> list_all (\<lambda>(key, b). bucket_ok b \<and> 0 < sb_dispatch b
        \<and> sb_dispatch b = length (starts_in key 900 (List.map_filter read_attempt sample_readings))
        \<and> sb_peak b = busiest (starts_in key 900 (List.map_filter read_attempt sample_readings))) (ps_buckets sample_result)
    \<and> list_all (\<lambda>a. bucket_start (at_start a) 900 \<in> fst ` set (ps_buckets sample_result)) (List.map_filter read_attempt sample_readings)"
proof (rule stats_account [OF sample_aggregate])
  show "list_all proper (List.map_filter read_attempt sample_readings)"
    unfolding sample_read by (simp add: sample_attempts_def proper_def)
qed simp

text \<open>
  Two of the figures are not what they are described as. An attempt that
  is still in flight when a period begins does not count for the peak of that period: at 950 s
  three attempts are in flight, and the peak of the period from 900 s on is 1. And an attempt that
  never settles makes no later one of the same meter a duplicate: meter b, sent again at 20 s with
  the first attempt open, counts no duplicate.
\<close>

theorem stats_miss_carried_over:
  "\<exists>r. aggregate sample_readings 900 = Inr r
    \<and> map (\<lambda>(k, b). (k, sb_dispatch b, sb_duplicate b, sb_peak b)) (ps_buckets r) = [(0, 3, 0, 3), (900, 1, 0, 1)]
    \<and> in_flight (List.map_filter read_attempt sample_readings) 950 = 3"
  by (rule exI [of _ sample_result])
    (use sample_aggregate sample_buckets in \<open>simp add: sample_read; simp add: in_flight_def sample_attempts_def\<close>)

end
