(* ===== verification/Sim_Frames.thy ===== *)
theory Sim_Frames
  imports App_Data
begin

text \<open>
  The simulated concentrator's frames, \<open>libs/sim_concentrator\<close>: cutting frames out of a buffer and
  reading one (\<open>frame_codec.py\<close>), turning the description of a message into a frame
  (\<open>scenario_codec.py\<close>) and recognising concurrent meter reading (\<open>concurrent_match.py\<close>).

  The fields of a decoded frame stand under short names: L, C (control), R (information), A
  (address), AFN, DT, FN and CS for the check sum. What a nested meter frame shows depends on its
  data-item dictionary; the function that shows it is an argument.
\<close>

unbundle bit_operations_syntax

section \<open>Cutting\<close>

text \<open>\<open>scan_frame\<close>: the loop from position \<open>i\<close>.\<close>

function scan_from :: "bytes \<Rightarrow> nat \<Rightarrow> (bytes \<times> nat) option" where
  "scan_from buf i =
     (let n = length buf in
      if n \<le> i then None
      else if buf ! i \<noteq> 0x68 then scan_from buf (i + 1)
      else if n < i + 4 then None
      else
        let frame_len = pair16 (buf ! (i + 1)) (buf ! (i + 2)) in
        if frame_len < 10 then scan_from buf (i + 1)
        else if n < i + frame_len then None
        else
          let candidate = py_slice buf i (i + frame_len) in
          if candidate ! 3 \<noteq> 0x68 \<and> last candidate = 0x16
             \<and> byte_sum (py_slice candidate 3 (frame_len - 2)) mod 256 = unat (candidate ! (frame_len - 2))
          then Some (candidate, i + frame_len)
          else scan_from buf (i + 1))"
  by pat_completeness auto
termination by (relation "measure (\<lambda>(buf, i). length buf - i)") auto

declare scan_from.simps [simp del]

text \<open>\<open>(None, 0)\<close> is \<open>None\<close>.\<close>

definition scan_frame :: "bytes \<Rightarrow> (bytes \<times> nat) option" where
  "scan_frame buf = scan_from buf 0"

definition extract_frame :: "bytes \<Rightarrow> bytes option" where
  "extract_frame buf = map_option ex_raw (try_extract_10376 buf)"

definition frame_to_hex :: "bytes \<Rightarrow> string" where
  "frame_to_hex raw = join_with '' '' (map (\<lambda>b. hex_upper [b]) raw)"

section \<open>Reading\<close>

record sc_fields =
  fd_length :: nat
  fd_control :: nat
  fd_info :: bytes
  fd_address :: bytes
  fd_afn :: nat
  fd_dt :: "nat \<times> nat"
  fd_fn :: nat
  fd_cs :: nat

record sc_frame =
  sc_raw :: bytes
  sc_fields :: "sc_fields option"
  sc_items :: "item list"
  sc_nested :: "(string \<times> (string \<times> pv) list) list"

text \<open>
  \<open>decode_frame\<close>; \<open>None\<close> is an exception of the decoder. \<open>show\<close> is the structure of a nested frame and
  the names and values of its items. The fields are missing in the frames that have no room for them.
\<close>

definition decode_frame ::
  "'p adapter list \<Rightarrow> ('p \<times> bytes \<Rightarrow> string \<times> (string \<times> pv) list) \<Rightarrow> bytes \<Rightarrow> sc_frame option" where
  "decode_frame candidates shw raw =
     do { d \<leftarrow> decode_10376 raw;
          (its, ns) \<leftarrow> decode_items candidates raw;
          let userdata = py_slice raw 4 (length raw - 2);
          let al = addr_len (dl_info d);
          Some \<lparr>sc_raw = raw,
            sc_fields = map_option (\<lambda>u.
              \<lparr>fd_length = dl_length d, fd_control = unat (raw ! 3), fd_info = py_slice userdata 0 6,
               fd_address = (if info_get (dl_info d) Module_Id = 1 then py_slice userdata 6 (6 + al) else []),
               fd_afn = au_afn u, fd_dt = (au_dt1 u, au_dt2 u), fd_fn = au_fn u,
               fd_cs = unat (raw ! (length raw - 2))\<rparr>) (dl_unit d),
            sc_items = its,
            sc_nested = map shw ns\<rparr> }"

section \<open>Describing a message\<close>

text \<open>\<open>int(s, 16)\<close>: sign, prefix, digits with single underscores between them.\<close>

fun hex_digits :: "nat \<Rightarrow> string \<Rightarrow> nat option" where
  "hex_digits acc [] = Some acc"
| "hex_digits acc (c # cs) =
     (case hex_val c of
        Some d \<Rightarrow> hex_digits (acc * 16 + d) cs
      | None \<Rightarrow> if c = CHR ''_'' then (case cs of d # _ \<Rightarrow> if hex_val d \<noteq> None then hex_digits acc cs else None | [] \<Rightarrow> None)
                else None)"

definition hex_body :: "string \<Rightarrow> nat option" where
  "hex_body s = (case s of d # _ \<Rightarrow> if hex_val d \<noteq> None then hex_digits 0 s else None | [] \<Rightarrow> None)"

definition unsigned_hex :: "string \<Rightarrow> nat option" where
  "unsigned_hex s =
     (if 2 \<le> length s \<and> s ! 0 = CHR ''0'' \<and> (s ! 1 = CHR ''x'' \<or> s ! 1 = CHR ''X'')
      then (let r = drop 2 s in hex_body (if r \<noteq> [] \<and> hd r = CHR ''_'' then tl r else r))
      else hex_body s)"

definition py_hex_int :: "string \<Rightarrow> int option" where
  "py_hex_int s =
     (case py_strip s of
        [] \<Rightarrow> None
      | c # cs \<Rightarrow> if c = CHR ''-'' then map_option (\<lambda>n. - int n) (unsigned_hex cs)
                  else if c = CHR ''+'' then map_option int (unsigned_hex cs)
                  else map_option int (unsigned_hex (c # cs)))"

text \<open>The integer a value is to Python: \<open>isinstance(v, int)\<close>.\<close>

fun as_int :: "pv \<Rightarrow> int option" where
  "as_int (PInt n) = Some n"
| "as_int (PBool b) = Some (if b then 1 else 0)"
| "as_int _ = None"

definition norm_afn :: "pv \<Rightarrow> int res" where
  "norm_afn v = (case as_int v of
     Some n \<Rightarrow> Inr (n AND 0xFF)
   | None \<Rightarrow> (case py_hex_int (to_str v) of Some n \<Rightarrow> Inr n | None \<Rightarrow> Inl ValueError))"

definition norm_fn :: "pv \<Rightarrow> int res" where
  "norm_fn v = (case as_int v of
     Some n \<Rightarrow> Inr n
   | None \<Rightarrow>
       (let s = map upper_char (py_strip (to_str v));
            t = (if s \<noteq> [] \<and> hd s = CHR ''F'' then tl s else s)
        in case py_int t of Some n \<Rightarrow> Inr n | None \<Rightarrow> Inl ValueError))"

definition BROADCAST :: string where "BROADCAST = ''999999999999''"

text \<open>
  \<open>build_address\<close>: an address text that is missing or empty is no address. The addresses in the
  parameters are texts; other values are left out of the model.
\<close>

definition text_of :: "pv \<Rightarrow> string" where
  "text_of v = (case v of PStr s \<Rightarrow> s | _ \<Rightarrow> [])"

definition build_address :: "pdict \<Rightarrow> pdict \<Rightarrow> direction \<Rightarrow> address" where
  "build_address profile params dir =
     (let src = text_of (pget params ''src'');
          dst = text_of (pget params ''dst'');
          cco = (if src \<noteq> [] then src else text_of (pget profile ''cco_addr''))
      in if src = [] \<and> dst = [] \<and> \<not> truthy (pget params ''broadcast'') then no_address
         else if cco = [] then no_address
         else
           let to_sta = (if dst \<noteq> [] then dst
                  else if pget params ''dst'' = PNone \<and> truthy (pget params ''broadcast'') then BROADCAST else [])
           in if dir = Up
              then \<lparr>ad_src = (if to_sta \<noteq> [] then to_sta else BROADCAST), ad_relay = [], ad_dst = cco\<rparr>
              else \<lparr>ad_src = cco, ad_relay = [], ad_dst = (if to_sta \<noteq> [] then to_sta else cco)\<rparr>)"

text \<open>The message's direction is a text; the builder takes every other text than \<open>"up"\<close> for down.\<close>

definition direction_of :: "pv \<Rightarrow> direction" where
  "direction_of v = (if v = PStr ''up'' then Up else Down)"

text \<open>
  \<open>build_send\<close>. A description without AFN, Fn is refused, and so is one with raw bytes. The builder's
  only exception is that of an address that is no number.
\<close>

definition build_send :: "pdict \<Rightarrow> pdict \<Rightarrow> int \<Rightarrow> bytes res" where
  "build_send send profile seq =
     (if pget send ''afn'' = PNone \<or> pget send ''fn'' = PNone \<or> truthy (pget send ''raw'') then Inl ValueError
      else
        andThen (norm_afn (pget send ''afn'')) (\<lambda>afn.
        andThen (norm_fn (pget send ''fn'')) (\<lambda>fn.
        andThen (as_dict (if truthy (pget send ''params'') then pget send ''params'' else PDict [])) (\<lambda>params.
        andThen (to_int (getd send ''comm_mode'' (getd profile ''comm_mode'' (PInt 3)))) (\<lambda>comm_mode.
        andThen (encode_app_data afn fn (Some params) Down) (\<lambda>appdata.
          let dir = direction_of (getd send ''direction'' (PStr ''down''));
              info = [Seq \<mapsto> if truthy (getd profile ''seq_auto'' (PBool True)) then seq else 0]
          in case build_13762_frame afn fn appdata dir comm_mode info (build_address profile params dir) of
               Some f \<Rightarrow> Inr f
             | None \<Rightarrow> Inl ValueError))))))"

text \<open>\<open>build_local_13762_frame\<close>: direction, mode and information field from their bytes.\<close>

definition build_local_frame :: "int \<Rightarrow> int \<Rightarrow> bytes \<Rightarrow> nat \<Rightarrow> bytes \<Rightarrow> int \<Rightarrow> bytes option" where
  "build_local_frame afn fn buff ctrl info seq =
     (let dir = (if drop_bit 7 ctrl AND 1 \<noteq> 0 then Up else Down);
          i = (if 6 \<le> length info then parse_info dir info else Map.empty)
      in build_frame_10376 dir (int (ctrl AND 0x3F)) (Some (int (drop_bit 6 ctrl AND 1)))
           (i(Seq \<mapsto> seq AND 0xFF)) no_address afn fn buff 0x16)"

section \<open>Concurrent meter reading\<close>

record data_unit =
  proto_type :: "nat option"
  unit_length :: "nat option"
  failed :: "bool option"

definition sent_down :: "string \<Rightarrow> bool" where
  "sent_down d = (map lower_char d \<in> {''down'', ''tx''})"

definition parse_data_unit :: "string \<Rightarrow> string \<Rightarrow> data_unit res" where
  "parse_data_unit dir appdata_hex =
     (case from_hex (remove_char CHR '' '' appdata_hex) of
        None \<Rightarrow> Inl ValueError
      | Some b \<Rightarrow>
          (let reserved = (if sent_down dir then 1 else 0) in
           if length b < 1 + reserved + 2 then Inr \<lparr>proto_type = None, unit_length = None, failed = None\<rparr>
           else let off = 1 + reserved; len = pair16 (b ! off) (b ! (off + 1)) in
             Inr \<lparr>proto_type = Some (unat (b ! 0)), unit_length = Some len,
               failed = Some (map lower_char dir \<in> {''up'', ''rx''} \<and> len = 0)\<rparr>))"

text \<open>\<open>s.isdigit()\<close> and \<open>int(s)\<close> of what is left after the prefix; \<open>None\<close> is a number that cannot be read.\<close>

definition norm_code :: "string \<Rightarrow> int option" where
  "norm_code v =
     (let s0 = remove_char CHR ''H'' (map upper_char (py_strip v));
          s = (if take 2 s0 = ''0X'' then drop 2 s0 else s0)
      in if s \<noteq> [] \<and> list_all is_digit s
         then (case py_int s of Some n \<Rightarrow> if n \<le> 0xFF then Some n else py_hex_int s | None \<Rightarrow> None)
         else py_hex_int s)"

definition is_concurrent_frame :: "string option \<Rightarrow> string option \<Rightarrow> bool" where
  "is_concurrent_frame afn fn = (Option.bind afn norm_code = Some 0xF1 \<and> Option.bind fn norm_code = Some 0xF1)"

section \<open>Frames in a buffer\<close>

text \<open>A frame as the cutter knows it.\<close>

definition whole_frame :: "bytes \<Rightarrow> bool" where
  "whole_frame f \<longleftrightarrow>
     10 \<le> length f \<and> f ! 0 = 0x68 \<and> pair16 (f ! 1) (f ! 2) = length f \<and> f ! 3 \<noteq> 0x68 \<and> last f = 0x16
     \<and> byte_sum (py_slice f 3 (length f - 2)) mod 256 = unat (f ! (length f - 2))"

lemma scan_skip:
  "0x68 \<notin> set junk \<Longrightarrow> scan_from (pre @ junk @ post) (length pre) = scan_from (pre @ junk @ post) (length pre + length junk)"
proof (induction junk arbitrary: pre)
  case (Cons b junk)
  have "scan_from (pre @ (b # junk) @ post) (length pre) = scan_from ((pre @ [b]) @ junk @ post) (length (pre @ [b]))"
    using Cons.prems by (subst scan_from.simps) (simp add: nth_append Let_def)
  then show ?case using Cons.IH [of "pre @ [b]"] Cons.prems by simp
qed simp

lemma scan_at_frame:
  assumes "whole_frame f"
  shows "scan_from (pre @ f @ post) (length pre) = Some (f, length pre + length f)"
proof -
  let ?b = "pre @ f @ post"
  have n: "10 \<le> length f" using assms by (simp add: whole_frame_def)
  have at: "?b ! (length pre + k) = f ! k" if "k < length f" for k
    using that by (simp add: nth_append)
  have h: "?b ! length pre = 0x68" "?b ! (length pre + 1) = f ! 1" "?b ! (length pre + 2) = f ! 2"
    using at [of 0] at [of 1] at [of 2] n assms by (simp_all add: whole_frame_def flip: length_greater_0_conv)
  have len: "pair16 (f ! 1) (f ! 2) = length f" using assms by (simp add: whole_frame_def)
  have cut: "py_slice ?b (length pre) (length pre + length f) = f" by (simp add: py_slice_def)
  have c: "f ! 3 \<noteq> 0x68 \<and> last f = 0x16
    \<and> byte_sum (py_slice f 3 (length f - 2)) mod 256 = unat (f ! (length f - 2))"
    using assms by (simp add: whole_frame_def)
  have "\<not> length ?b \<le> length pre" "\<not> length ?b < length pre + 4" "\<not> length f < 10"
    "\<not> length ?b < length pre + length f"
    using n by (simp_all flip: length_greater_0_conv)
  then show ?thesis
    by (subst scan_from.simps) (simp only: Let_def h len cut c if_True if_False simp_thms)
qed

text \<open>Noise that contains no start byte is skipped, and the first whole frame behind it is cut
out exactly, with the number of bytes consumed, whatever follows it.\<close>

theorem scan_delivers:
  assumes "0x68 \<notin> set junk" "whole_frame f"
  shows "scan_frame (junk @ f @ rest) = Some (f, length junk + length f)"
  using scan_skip [OF assms(1), of "[]" "f @ rest"] scan_at_frame [OF assms(2), of junk rest]
  by (simp add: scan_frame_def)

definition query_frame :: bytes where
  "query_frame = [0x68, 0x0F, 0, 0x43, 0, 0, 0, 0, 0, 1, 3, 2, 1, 0x4A, 0x16]"

lemma scan_delivers_witness:
  "scan_frame ([0xFF, 0x16] @ query_frame @ [0x68]) = Some (query_frame, 17)"
  using scan_delivers [of "[0xFF, 0x16]" query_frame "[0x68]"]
  by (simp add: query_frame_def whole_frame_def py_slice_def codec_simps)

text \<open>A stray start byte whose next two bytes read as a length holds back everything
behind it: as long as fewer bytes have arrived than the false length says, no frame is cut out, however
many whole frames the buffer holds.\<close>

theorem stray_start_blocks:
  assumes "0x68 \<notin> set junk" "10 \<le> pair16 lo hi" "length behind + 4 < pair16 lo hi"
  shows "scan_frame (junk @ [0x68, lo, hi, x] @ behind) = None"
proof -
  let ?b = "junk @ [0x68, lo, hi, x] @ behind"
  have at: "?b ! length junk = 0x68" "?b ! (length junk + 1) = lo" "?b ! (length junk + 2) = hi"
    by (simp_all add: nth_append)
  have "scan_frame ?b = scan_from ?b (length junk)"
    using scan_skip [OF assms(1), of "[]" "[0x68, lo, hi, x] @ behind"] by (simp add: scan_frame_def)
  also have "\<dots> = None"
    using assms(2,3) by (subst scan_from.simps) (simp only: Let_def at simp_thms if_False, simp)
  finally show ?thesis .
qed

lemma stray_start_blocks_witness:
  "scan_frame ([0x68, 0x40, 0, 0] @ query_frame @ query_frame) = None \<and> whole_frame query_frame"
  using stray_start_blocks [where junk = "[]" and lo = "0x40" and hi = 0 and x = 0 and behind = "query_frame @ query_frame"]
  by (simp add: query_frame_def whole_frame_def py_slice_def codec_simps)

section \<open>What is described is what is sent\<close>

lemma send_address:
  assumes "a = no_address \<or> full_address a" "ad_relay a = []"
  shows "addr_consistent [Seq \<mapsto> s] a"
  using assms by (auto simp: addr_consistent_def info_get_def)

lemma build_address_relay: "ad_relay (build_address profile params dir) = []"
  by (simp add: build_address_def Let_def no_address_def)

lemma packed_seq: "parse_info dir (pack_info dir i) Seq = Some (info_get i Seq mod 256)"
  by (cases dir) (simp_all add: info_roundtrip_up info_roundtrip_down)

lemma build_send_returns:
  assumes "norm_afn (pget send ''afn'') = Inr afn" "0 \<le> afn" "afn < 256"
    and "norm_fn (pget send ''fn'') = Inr fn" "1 \<le> fn" "fn \<le> 255"
    and "pget send ''afn'' \<noteq> PNone" "pget send ''fn'' \<noteq> PNone" "\<not> truthy (pget send ''raw'')"
    and "pget send ''params'' = PDict params" "params \<noteq> []"
    and "to_int (getd send ''comm_mode'' (getd profile ''comm_mode'' (PInt 3))) = Inr cm"
    and "encode_app_data afn fn (Some params) Down = Inr appdata" "length appdata \<le> 65000"
    and "a = build_address profile params (direction_of (getd send ''direction'' (PStr ''down'')))"
    and "a = no_address \<or> full_address a"
  shows "\<exists>f. build_send send profile seq = Inr f"
proof -
  let ?s = "if truthy (getd profile ''seq_auto'' (PBool True)) then seq else 0"
  have "addr_consistent [Seq \<mapsto> ?s] a" using send_address assms(15,16) build_address_relay by blast
  from decode_built_frame [OF this assms(5,6,2,3,14)]
  obtain f where "build_frame_10376 (direction_of (getd send ''direction'' (PStr ''down''))) cm None
      [Seq \<mapsto> ?s] a afn fn appdata 0x16 = Some f"
    by blast
  then show ?thesis
    using assms by (simp add: build_send_def as_dict_def build_13762_frame_def Let_def)
qed


definition sample_send :: pdict where
  "sample_send = [(''afn'', PStr ''03''), (''fn'', PStr ''F10''), (''direction'', PStr ''up''),
     (''params'', PDict [(''dst'', PStr ''112233445566'')])]"


end
