(* ===== verification/Sim_Rules.thy ===== *)
theory Sim_Rules
  imports Sim_Frames
begin

text \<open>
  What the simulated concentrator expects and answers, \<open>libs/sim_concentrator\<close>: the rules of the
  expected replies with their time limits (\<open>expect_rules.py\<close>), the comparison of a frame with an
  expectation (\<open>matcher.py\<close>) and the automatic answers (\<open>responder.py\<close>).

  The rule file is a JSON document and so a value of the model. The reasons of a refusal are the
  constructors of a type. \<open>float()\<close> on a value, which the comparison of numbers uses, is an argument.
  Answers built by a Python function instead of a name are left out: a JSON rule has none.
\<close>

unbundle bit_operations_syntax

section \<open>Expected replies\<close>

text \<open>\<open>_norm_fn\<close> of \<open>expect_rules.py\<close>: any number of letters F in front.\<close>

definition rule_fn :: "pv \<Rightarrow> int res" where
  "rule_fn v = (case as_int v of
     Some n \<Rightarrow> Inr n
   | None \<Rightarrow> (case py_int (dropWhile (\<lambda>c. c = CHR ''F'') (map upper_char (py_strip (to_str v)))) of
       Some n \<Rightarrow> Inr n | None \<Rightarrow> Inl ValueError))"

fun find_rule :: "int \<Rightarrow> int option \<Rightarrow> pdict list \<Rightarrow> pdict option \<Rightarrow> pdict option res" where
  "find_rule a f [] fallback = Inr fallback"
| "find_rule a f (r # rs) fallback =
     andThen (as_dict (getd r ''match'' (PDict []))) (\<lambda>m.
     andThen (norm_afn (pget m ''afn'')) (\<lambda>ra.
       if ra \<noteq> a then find_rule a f rs fallback
       else if pget m ''fn'' \<noteq> PNone
       then andThen (rule_fn (pget m ''fn'')) (\<lambda>rf.
              if Some rf = f then Inr (Some r) else find_rule a f rs fallback)
       else find_rule a f rs (if fallback = None then Some r else fallback)))"

fun all_dicts :: "pv list \<Rightarrow> pdict list res" where
  "all_dicts [] = Inr []"
| "all_dicts (v # vs) = andThen (as_dict v) (\<lambda>d. andThen (all_dicts vs) (\<lambda>ds. Inr (d # ds)))"

definition opt_fn :: "pv \<Rightarrow> int option res" where
  "opt_fn fn = (if fn = PNone then Inr None else andThen (rule_fn fn) (\<lambda>n. Inr (Some n)))"

definition rule_for :: "pdict \<Rightarrow> pv \<Rightarrow> pv \<Rightarrow> pdict option res" where
  "rule_for doc afn fn =
     andThen (norm_afn afn) (\<lambda>a.
     andThen (opt_fn fn) (\<lambda>f.
     andThen (elements (getd doc ''rules'' (PList []))) (\<lambda>vs.
     andThen (all_dicts vs) (\<lambda>rs. find_rule a f rs None))))"

definition default_expect :: "pdict \<Rightarrow> pv \<Rightarrow> pv \<Rightarrow> (pdict \<times> pdict) option res" where
  "default_expect doc afn fn =
     andThen (rule_for doc afn fn) (\<lambda>found.
     case found of
       None \<Rightarrow> Inr None
     | Some rule \<Rightarrow>
         andThen (as_dict (getd rule ''expect'' (PDict []))) (\<lambda>e.
         andThen (norm_afn afn) (\<lambda>a.
         andThen (opt_fn fn) (\<lambda>f0.
           let f = (case f0 of None \<Rightarrow> 0 | Some n \<Rightarrow> n);
               ea = getd e ''afn'' (PStr ''self''); ef = getd e ''fn'' (PStr ''self'') in
           andThen (if ea = PStr ''self'' then Inr a else norm_afn ea) (\<lambda>xa.
           andThen (if ef = PStr ''self'' then Inr f else to_int ef) (\<lambda>xf.
             Inr (Some ([(''dir'', getd e ''dir'' (PStr ''up'')), (''afn'', PInt xa), (''fn'', PInt xf)]
               @ (if truthy (pget e ''form'') then [(''form'', pget e ''form'')] else []), rule))))))))"

text \<open>\<open>timeout_for\<close>: the tier and its seconds.\<close>

definition timeout_for :: "pdict \<Rightarrow> pv \<Rightarrow> pv \<Rightarrow> (pv \<times> pv) res" where
  "timeout_for doc afn fn =
     andThen (rule_for doc afn fn) (\<lambda>rule.
       let tier_id = (case rule of None \<Rightarrow> PStr ''default'' | Some r \<Rightarrow> getd r ''timeout_tier'' (PStr ''default'')) in
       andThen (as_dict (getd doc ''timeout_tiers'' (PDict []))) (\<lambda>tiers.
       let t = pget tiers (text_of tier_id) in
       andThen (if truthy t then Inr t
                else case map_of doc ''timeout_tiers'' of None \<Rightarrow> Inl KeyError
                  | Some _ \<Rightarrow> (case map_of tiers ''default'' of None \<Rightarrow> Inl KeyError | Some d \<Rightarrow> Inr d)) (\<lambda>tier.
       andThen (as_dict tier) (\<lambda>d.
         case map_of d ''seconds'' of None \<Rightarrow> Inl KeyError | Some s \<Rightarrow> Inr (tier_id, s)))))"

definition deny_text :: "pdict \<Rightarrow> int \<Rightarrow> pv" where
  "deny_text doc code =
     (case getd doc ''deny_codes'' (PDict []) of PDict codes \<Rightarrow> pget codes (show_int code) | _ \<Rightarrow> PNone)"

fun any_afn :: "int \<Rightarrow> pv list \<Rightarrow> bool res" where
  "any_afn a [] = Inr False"
| "any_afn a (v # vs) = andThen (norm_afn v) (\<lambda>n. if n = a then Inr True else any_afn a vs)"

definition is_report_afn :: "pdict \<Rightarrow> pv \<Rightarrow> bool res" where
  "is_report_afn doc afn =
     (case norm_afn afn of
        Inl _ \<Rightarrow> Inr False
      | Inr a \<Rightarrow> andThen (elements (getd doc ''no_expect_afn'' (PList []))) (any_afn a))"

section \<open>Comparing a frame\<close>

datatype refusal =
  Unreadable | Unknown_Format | Afn_Differs | Afn_Missing | Fn_Differs | Dir_Differs | Field_Differs string
| No_Nested | Nested_Differs | Nested_Missing

datatype match_result = Matched | Refused refusal

text \<open>\<open>a == b\<close> where \<open>a\<close> is a number or a text: truth values are numbers.\<close>

definition py_eq :: "pv \<Rightarrow> pv \<Rightarrow> bool" where
  "py_eq a b = (a = b \<or> (as_int a \<noteq> None \<and> as_int a = as_int b))"

text \<open>
  \<open>_field_value\<close>: \<open>raw\<close>, which no field of a frame leaves empty. DT is a pair, which equals no value
  of a JSON document.
\<close>

definition field_is :: "sc_frame \<Rightarrow> string \<Rightarrow> pv \<Rightarrow> bool" where
  "field_is fr name want =
     (case sc_fields fr of
        None \<Rightarrow> want = PNone
      | Some fd \<Rightarrow>
          if name = ''L'' then py_eq (PInt (int (fd_length fd))) want
          else if name = ''C'' then py_eq (PInt (int (fd_control fd))) want
          else if name = ''R'' then want = PStr (map lower_char (hex_upper (fd_info fd)))
          else if name = ''A'' then want = PStr (map lower_char (hex_upper (fd_address fd)))
          else if name = ''AFN'' then py_eq (PInt (int (fd_afn fd))) want
          else if name = ''DT'' then False
          else if name = ''FN'' then py_eq (PInt (int (fd_fn fd))) want
          else if name = ''CS'' then py_eq (PInt (int (fd_cs fd))) want
          else want = PNone)"

fun fields_match :: "sc_frame \<Rightarrow> pdict \<Rightarrow> match_result" where
  "fields_match fr [] = Matched"
| "fields_match fr ((k, v) # kvs) = (if field_is fr k v then fields_match fr kvs else Refused (Field_Differs k))"

fun infix_of :: "string \<Rightarrow> string \<Rightarrow> bool" where
  "infix_of s [] = (s = [])"
| "infix_of s (c # cs) = (prefix s (c # cs) \<or> infix_of s cs)"

definition compare_values :: "(pv \<Rightarrow> 'n option) \<Rightarrow> pv \<Rightarrow> pv \<Rightarrow> pv \<Rightarrow> bool res" where
  "compare_values to_float got want op =
     (if op = PStr ''eq''
      then (case (to_float got, to_float want) of
              (Some x, Some y) \<Rightarrow> Inr (x = y)
            | _ \<Rightarrow> Inr (py_eq got want))
      else if op = PStr ''contains''
      then (case got of
              PStr s \<Rightarrow> (case want of PStr w \<Rightarrow> Inr (infix_of w s) | _ \<Rightarrow> Inl TypeError)
            | PList xs \<Rightarrow> Inr (\<exists>x \<in> set xs. py_eq x want)
            | PDict d \<Rightarrow> (case want of PStr w \<Rightarrow> Inr (w \<in> fst ` set d) | PList _ \<Rightarrow> Inl TypeError
                         | PDict _ \<Rightarrow> Inl TypeError | _ \<Rightarrow> Inr False)
            | _ \<Rightarrow> Inl TypeError)
      else if op = PStr ''startswith'' then Inr (prefix (to_str want) (to_str got))
      else Inr (py_eq got want))"

text \<open>
  \<open>_match_nested_field\<close>: the first item of that name, in the nested frames in order.
\<close>

definition named_items :: "sc_frame \<Rightarrow> pdict \<Rightarrow> pv list" where
  "named_items fr nf =
     concat (map (\<lambda>(structure, its).
         if truthy (pget nf ''structure'') \<and> PStr structure \<noteq> pget nf ''structure'' then []
         else map snd (filter (\<lambda>it. PStr (fst it) = pget nf ''field'') its)) (sc_nested fr))"

definition match_nested_field :: "(pv \<Rightarrow> 'n option) \<Rightarrow> sc_frame \<Rightarrow> pdict \<Rightarrow> match_result res" where
  "match_nested_field to_float fr nf =
     (case named_items fr nf of
        [] \<Rightarrow> Inr (Refused Nested_Missing)
      | v # _ \<Rightarrow> andThen (compare_values to_float v (pget nf ''eq'') (getd nf ''op'' (PStr ''eq'')))
          (\<lambda>b. Inr (if b then Matched else Refused Nested_Differs)))"

fun nested_match :: "(pv \<Rightarrow> 'n option) \<Rightarrow> sc_frame \<Rightarrow> pv list \<Rightarrow> match_result res" where
  "nested_match to_float fr [] = Inr Matched"
| "nested_match to_float fr (v # vs) =
     andThen (as_dict v) (\<lambda>nf.
     andThen (match_nested_field to_float fr nf) (\<lambda>r.
       if r = Matched then nested_match to_float fr vs else Inr r))"

text \<open>The steps of \<open>match_frame\<close> on a decoded frame, each with its early return.\<close>

definition afn_step :: "pdict \<Rightarrow> sc_frame \<Rightarrow> match_result res" where
  "afn_step e fr =
     (let w = pget e ''afn'' in
      if w = PNone then Inr Matched
      else
        andThen (case w of PStr s \<Rightarrow> (case py_hex_int s of Some n \<Rightarrow> Inr (PInt n) | None \<Rightarrow> Inl ValueError)
                 | _ \<Rightarrow> Inr w) (\<lambda>want.
        case sc_fields fr of
          None \<Rightarrow> Inr (Refused Afn_Missing)
        | Some fd \<Rightarrow>
            if py_eq (PInt (int (fd_afn fd))) want then Inr Matched
            else if as_int want \<noteq> None then Inr (Refused Afn_Differs) else Inl TypeError))"

definition fn_step :: "pdict \<Rightarrow> sc_frame \<Rightarrow> match_result res" where
  "fn_step e fr =
     (if pget e ''fn'' = PNone then Inr Matched
      else andThen (to_int (pget e ''fn'')) (\<lambda>want.
        Inr (if map_option (\<lambda>fd. int (fd_fn fd)) (sc_fields fr) = Some want then Matched else Refused Fn_Differs)))"

definition frame_dir :: "sc_frame \<Rightarrow> string" where
  "frame_dir fr = (case sc_fields fr of
     Some fd \<Rightarrow> if drop_bit 7 (fd_control fd) AND 1 \<noteq> 0 then ''up'' else ''down'' | None \<Rightarrow> ''down'')"

definition dir_step :: "pdict \<Rightarrow> sc_frame \<Rightarrow> match_result" where
  "dir_step e fr =
     (if pget e ''dir'' = PNone \<or> pget e ''dir'' = PStr (frame_dir fr) then Matched else Refused Dir_Differs)"

definition format_known :: "pdict \<Rightarrow> bool" where
  "format_known e = (pget e ''format'' \<in> {PNone, PStr ''local'', PStr ''standard'', PStr ''auto''})"

definition go_on :: "match_result res \<Rightarrow> match_result res \<Rightarrow> match_result res" where
  "go_on r next = andThen r (\<lambda>m. if m = Matched then next else Inr m)"

definition match_decoded :: "(pv \<Rightarrow> 'n option) \<Rightarrow> pdict \<Rightarrow> sc_frame \<Rightarrow> match_result res" where
  "match_decoded to_float e fr =
     (if \<not> format_known e then Inr (Refused Unknown_Format)
      else go_on (afn_step e fr) (go_on (fn_step e fr) (go_on (Inr (dir_step e fr))
        (go_on (andThen (as_dict (if truthy (pget e ''fields'') then pget e ''fields'' else PDict []))
                  (\<lambda>kvs. Inr (fields_match fr kvs)))
        (go_on (Inr (if truthy (pget e ''nested'') \<and> sc_nested fr = [] then Refused No_Nested else Matched))
               (andThen (elements (get_list e ''nested_fields'')) (nested_match to_float fr)))))))"

definition match_frame ::
  "(bytes \<Rightarrow> sc_frame option) \<Rightarrow> (pv \<Rightarrow> 'n option) \<Rightarrow> bytes \<Rightarrow> pdict option \<Rightarrow> (match_result \<times> sc_frame option) res" where
  "match_frame dec to_float raw expect =
     (case dec raw of
        None \<Rightarrow> Inr (Refused Unreadable, None)
      | Some fr \<Rightarrow> (case expect of
            None \<Rightarrow> Inr (Matched, Some fr)
          | Some e \<Rightarrow> andThen (match_decoded to_float e fr) (\<lambda>m. Inr (m, Some fr))))"

text \<open>\<open>deny_info\<close>: the error word of a refusal, 00H-F2.\<close>

fun item_code :: "hexed \<Rightarrow> nat option" where
  "item_code (H2 n) = Some n"
| "item_code (H4 n) = Some n"
| "item_code (Hs bs) = (if bs = [] then None else Some (fold (\<lambda>b n. n * 256 + unat b) bs 0))"
| "item_code _ = None"

definition deny_info :: "sc_frame \<Rightarrow> nat option" where
  "deny_info fr =
     (case sc_fields fr of
        None \<Rightarrow> None
      | Some fd \<Rightarrow>
          if fd_afn fd \<noteq> 0 \<or> fd_fn fd \<noteq> 2 then None
          else (case List.find (\<lambda>it. it_name it = ''error word'') (sc_items fr) of
                  None \<Rightarrow> None
                | Some it \<Rightarrow> item_code (it_hex it)))"

section \<open>Automatic answers\<close>

record reply_rule =
  rr_id :: string
  rr_match :: pdict
  rr_reply :: pdict

text \<open>\<open>_norm_afn\<close> of \<open>responder.py\<close>.\<close>

definition answer_afn :: "pv \<Rightarrow> int option res" where
  "answer_afn v = (case as_int v of
     Some n \<Rightarrow> Inr (Some n)
   | None \<Rightarrow> (case v of
         PStr s \<Rightarrow> (case py_hex_int s of Some n \<Rightarrow> Inr (Some n) | None \<Rightarrow> Inl ValueError)
       | _ \<Rightarrow> Inr None))"

text \<open>
  \<open>ReplyRule.matches\<close>. A frame without fields has no AFN; the text that is then searched is empty.
\<close>

definition afn_fits :: "pv \<Rightarrow> sc_frame \<Rightarrow> bool res" where
  "afn_fits v fr =
     (if v = PNone then Inr True
      else andThen (answer_afn v) (\<lambda>expect.
        case sc_fields fr of
          Some fd \<Rightarrow> Inr (expect = Some (int (fd_afn fd)))
        | None \<Rightarrow> if expect = None then Inl TypeError else Inr False))"

definition fn_fits :: "pv \<Rightarrow> sc_frame \<Rightarrow> bool res" where
  "fn_fits v fr =
     (if v = PNone then Inr True
      else case sc_fields fr of
        None \<Rightarrow> Inr False
      | Some fd \<Rightarrow> andThen (to_int v) (\<lambda>n. Inr (int (fd_fn fd) = n)))"

definition rule_matches :: "reply_rule \<Rightarrow> sc_frame \<Rightarrow> bool res" where
  "rule_matches r fr =
     andThen (afn_fits (pget (rr_match r) ''afn'') fr) (\<lambda>a.
       if a then fn_fits (pget (rr_match r) ''fn'') fr else Inr False)"

fun first_match :: "reply_rule list \<Rightarrow> sc_frame \<Rightarrow> reply_rule option res" where
  "first_match [] fr = Inr None"
| "first_match (r # rs) fr = andThen (rule_matches r fr) (\<lambda>b. if b then Inr (Some r) else first_match rs fr)"

text \<open>\<open>bytes(v)\<close>\<close>

fun octets :: "pv list \<Rightarrow> bytes res" where
  "octets [] = Inr []"
| "octets (v # vs) = (case as_int v of
     None \<Rightarrow> Inl TypeError
   | Some n \<Rightarrow> if 0 \<le> n \<and> n < 256 then andThen (octets vs) (\<lambda>bs. Inr (of_int n # bs)) else Inl ValueError)"

definition bytes_of :: "pv \<Rightarrow> bytes res" where
  "bytes_of v = (case v of
     PList vs \<Rightarrow> octets vs
   | PDict d \<Rightarrow> if d = [] then Inr [] else Inl TypeError
   | PStr s \<Rightarrow> (case from_hex (remove_char CHR '' '' s) of Some b \<Rightarrow> Inr b | None \<Rightarrow> Inl ValueError)
   | _ \<Rightarrow> (case as_int v of
         Some n \<Rightarrow> if 0 \<le> n then Inr (replicate (nat n) 0) else Inl ValueError
       | None \<Rightarrow> Inl TypeError))"

record clock =
  ck_year :: nat
  ck_month :: nat
  ck_day :: nat
  ck_hour :: nat
  ck_minute :: nat
  ck_second :: nat

definition bcd_byte :: "nat \<Rightarrow> byte" where
  "bcd_byte n = of_nat (push_bit 4 (n div 10) OR n mod 10)"

definition now_bcd_time :: "clock \<Rightarrow> bytes" where
  "now_bcd_time t = map bcd_byte [ck_second t, ck_minute t, ck_hour t, ck_day t, ck_month t, ck_year t mod 100]"

definition local_frame_of :: "int option \<Rightarrow> int \<Rightarrow> bytes \<Rightarrow> bytes res" where
  "local_frame_of afn fn buff =
     (case afn of
        None \<Rightarrow> Inl TypeError
      | Some a \<Rightarrow> (case build_local_frame a fn buff 0x43 (replicate 6 0) 1 of
            Some f \<Rightarrow> Inr f | None \<Rightarrow> Inl ValueError))"

text \<open>
  The local branch of \<open>_build_reply\<close>. A decoded frame has no entry \<open>buff\<close>, so that an echo is empty.
\<close>

definition local_reply :: "pdict \<Rightarrow> bytes res" where
  "local_reply r =
     andThen (answer_afn (getd r ''afn'' (PInt 0))) (\<lambda>afn.
     andThen (to_int (getd r ''fn'' (PInt 1))) (\<lambda>fn.
     let ub = getd r ''userdata_builder'' (PStr ''confirm''); ud = getd r ''userdata'' (PStr '''') in
     andThen (if ub = PStr ''deny'' then Inr [1]
              else if ub \<in> {PStr ''confirm'', PStr ''echo'', PStr ''copy''} then Inr []
              else if truthy ud then bytes_of ud else Inr []) (\<lambda>buff.
       local_frame_of afn fn buff)))"

text \<open>The address of the answer: the first twelve and the next twelve digits of the frame's address field.\<close>

definition reply_address :: "bytes \<Rightarrow> address" where
  "reply_address a =
     (let s = map lower_char (hex_upper a) in
      if 24 \<le> length s then \<lparr>ad_src = take 12 s, ad_relay = [], ad_dst = take 12 (drop 12 s)\<rparr> else no_address)"

definition reply_data :: "clock \<Rightarrow> pdict \<Rightarrow> sc_frame \<Rightarrow> bytes res" where
  "reply_data now r fr =
     (let ub = getd r ''userdata_builder'' (PStr ''none''); ud = getd r ''userdata'' (PStr '''') in
      if ub = PStr ''confirm'' then Inr [0]
      else if ub = PStr ''deny'' then Inr [1]
      else if ub = PStr ''echo'' \<or> ub = PStr ''copy_rtsa'' then Inr (py_slice (sc_raw fr) 4 (length (sc_raw fr) - 2))
      else if ub = PStr ''clock'' then Inr (now_bcd_time now)
      else bytes_of ud)"

definition standard_reply :: "clock \<Rightarrow> pdict \<Rightarrow> sc_frame \<Rightarrow> int option \<Rightarrow> bytes res" where
  "standard_reply now r fr seq_override =
     (let seq = (case seq_override of
            Some s \<Rightarrow> s
          | None \<Rightarrow> (case sc_fields fr of
                Some fd \<Rightarrow> if 6 \<le> length (fd_info fd) then int (unat (fd_info fd ! 5)) else 0
              | None \<Rightarrow> 0));
          addr = (case sc_fields fr of Some fd \<Rightarrow> reply_address (fd_address fd) | None \<Rightarrow> no_address);
          info = (case sc_fields fr of
                Some fd \<Rightarrow> if fd_info fd \<noteq> [] then [Seq \<mapsto> seq] else Map.empty | None \<Rightarrow> Map.empty)
      in andThen (answer_afn (getd r ''afn'' (PInt 0))) (\<lambda>afn.
         andThen (to_int (getd r ''fn'' (PInt 1))) (\<lambda>fn.
         andThen (reply_data now r fr) (\<lambda>userdata.
           case afn of
             None \<Rightarrow> Inl TypeError
           | Some a \<Rightarrow> (case build_13762_frame a fn userdata Down 3 info addr of
                 Some f \<Rightarrow> Inr f | None \<Rightarrow> Inl ValueError)))))"

definition build_reply :: "clock \<Rightarrow> pdict \<Rightarrow> sc_frame \<Rightarrow> int option \<Rightarrow> bytes res" where
  "build_reply now r fr seq_override =
     (if getd r ''format'' (PStr ''auto'') = PStr ''local'' then local_reply r
      else standard_reply now r fr seq_override)"

definition reply_rule_of :: "string \<Rightarrow> (string \<times> pv) list \<Rightarrow> (string \<times> pv) list \<Rightarrow> reply_rule" where
  "reply_rule_of i m r = \<lparr>rr_id = i, rr_match = m, rr_reply = r\<rparr>"

definition LOCAL_ACK :: pdict where
  "LOCAL_ACK = [(''afn'', PInt 0), (''fn'', PInt 1), (''format'', PStr ''local'')]"

definition BUILTIN_RULES :: "reply_rule list" where
  "BUILTIN_RULES =
     [reply_rule_of ''builtin.local_ack'' [(''afn'', PInt 0)] LOCAL_ACK,
      reply_rule_of ''builtin.local_03F10_running'' [(''afn'', PInt 3), (''fn'', PInt 10)] LOCAL_ACK,
      reply_rule_of ''builtin.local_06F3_route'' [(''afn'', PInt 6), (''fn'', PInt 3)] LOCAL_ACK,
      reply_rule_of ''builtin.local_06F230_mclt_report'' [(''afn'', PInt 6), (''fn'', PInt 230)] LOCAL_ACK,
      reply_rule_of ''builtin.00F1_confirm'' [(''afn'', PInt 0)]
        [(''afn'', PInt 0), (''userdata_builder'', PStr ''confirm'')],
      reply_rule_of ''builtin.01xx_init'' [(''afn'', PInt 1)]
        [(''afn'', PInt 0), (''userdata_builder'', PStr ''confirm'')],
      reply_rule_of ''builtin.03xx_query'' [(''afn'', PInt 3)]
        [(''afn'', PInt 3), (''userdata_builder'', PStr ''echo'')],
      reply_rule_of ''builtin.10xx_route'' [(''afn'', PInt 0x10)]
        [(''afn'', PInt 0x10), (''userdata_builder'', PStr ''echo'')],
      reply_rule_of ''builtin.02xx_forward'' [(''afn'', PInt 2)]
        [(''afn'', PInt 2), (''userdata_builder'', PStr ''echo'')],
      reply_rule_of ''builtin.14F2_clock'' [(''afn'', PInt 0x14), (''fn'', PInt 2)]
        [(''afn'', PInt 0x14), (''fn'', PInt 2), (''userdata_builder'', PStr ''clock'')]]"

text \<open>A responder is its rules: the caller's own first, then the built-in ones unless they are switched off.\<close>

definition responder :: "reply_rule list \<Rightarrow> bool \<Rightarrow> reply_rule list" where
  "responder overrides builtin = overrides @ (if builtin then BUILTIN_RULES else [])"

definition reply_for ::
  "(bytes \<Rightarrow> sc_frame option) \<Rightarrow> clock \<Rightarrow> reply_rule list \<Rightarrow> bytes \<Rightarrow> int option \<Rightarrow> bytes option res" where
  "reply_for dec now rules raw seq_override =
     (case dec raw of
        None \<Rightarrow> Inr None
      | Some fr \<Rightarrow>
          andThen (first_match rules fr) (\<lambda>found.
            case found of
              None \<Rightarrow> Inr None
            | Some r \<Rightarrow> andThen (build_reply now (rr_reply r) fr seq_override) (\<lambda>f. Inr (Some f))))"

section \<open>Which rule applies\<close>

definition rule_key :: "pdict \<Rightarrow> (int \<times> int option) res" where
  "rule_key r =
     andThen (as_dict (getd r ''match'' (PDict []))) (\<lambda>m.
     andThen (norm_afn (pget m ''afn'')) (\<lambda>a.
     andThen (opt_fn (pget m ''fn'')) (\<lambda>f. Inr (a, f))))"

lemma find_rule_step:
  assumes "rule_key r = Inr (ra, rf)"
  shows "find_rule a f (r # rs) fb =
    (if ra \<noteq> a then find_rule a f rs fb
     else if rf \<noteq> None then (if rf = f then Inr (Some r) else find_rule a f rs fb)
     else find_rule a f rs (if fb = None then Some r else fb))"
  using assms by (auto simp: rule_key_def andThen_Inr opt_fn_def split: if_splits)

text \<open>Whatever their order, a rule for the very Fn goes before a rule for the whole AFN, and
among rules of the same kind the first one counts.\<close>

theorem rule_priority:
  assumes "\<forall>r \<in> set rs. \<exists>k. rule_key r = Inr k"
  shows "find_rule a f rs None = Inr (case List.find (\<lambda>r. f \<noteq> None \<and> rule_key r = Inr (a, f)) rs of
      Some r \<Rightarrow> Some r | None \<Rightarrow> List.find (\<lambda>r. rule_key r = Inr (a, None)) rs)"
proof -
  have "find_rule a f rs fb = Inr (case List.find (\<lambda>r. f \<noteq> None \<and> rule_key r = Inr (a, f)) rs of
      Some r \<Rightarrow> Some r
    | None \<Rightarrow> (case fb of Some b \<Rightarrow> Some b | None \<Rightarrow> List.find (\<lambda>r. rule_key r = Inr (a, None)) rs))" for fb
    using assms
  proof (induction rs arbitrary: fb)
    case (Cons r rs)
    then obtain ra rf where k: "rule_key r = Inr (ra, rf)" by (metis list.set_intros(1) surj_pair)
    show ?case unfolding find_rule_step [OF k] using Cons k by (auto split: option.splits)
  qed (simp split: option.splits)
  from this [of None] show ?thesis by (simp split: option.splits)
qed

definition general_rule :: pdict where "general_rule = [(''match'', PDict [(''afn'', PInt 3)])]"
definition special_rule :: pdict where "special_rule = [(''match'', PDict [(''afn'', PInt 3), (''fn'', PInt 10)])]"

lemma rule_priority_witness:
  "find_rule 3 (Some 10) [general_rule, special_rule] None = Inr (Some special_rule)
    \<and> find_rule 3 (Some 4) [general_rule, special_rule] None = Inr (Some general_rule)"
proof -
  have k: "rule_key general_rule = Inr (3, None)" "rule_key special_rule = Inr (3, Some 10)"
    by (simp_all add: general_rule_def special_rule_def rule_key_def getd_def as_dict_def pget_def norm_afn_def
        opt_fn_def rule_fn_def int_and_masks)
  have "\<forall>r \<in> set [general_rule, special_rule]. \<exists>x. rule_key r = Inr x" by (simp add: k)
  from rule_priority [OF this, of 3 "Some 10"] rule_priority [OF this, of 3 "Some 4"]
  show ?thesis by (simp add: k)
qed

section \<open>The reply that is expected\<close>

lemma default_expect_shape:
  assumes "default_expect doc afn fn = Inr (Some (e, rule))"
  obtains xa xf where "pget e ''afn'' = PInt xa" "pget e ''fn'' = PInt xf" "pget e ''format'' = PNone"
    "pget e ''fields'' = PNone" "pget e ''nested'' = PNone" "pget e ''nested_fields'' = PNone"
  using assms by (auto simp: default_expect_def andThen_Inr pget_def Let_def split: option.splits)

text \<open>C30. The expectation made up for a message accepts exactly the frames with the AFN and
Fn it names that go in the direction it names, whatever else they carry; the comparison never raises.\<close>

theorem expected_reply_matches:
  assumes "default_expect doc afn fn = Inr (Some (e, rule))"
  shows "(match_decoded to_float e fr = Inr Matched \<longleftrightarrow>
      (\<exists>fd. sc_fields fr = Some fd \<and> pget e ''afn'' = PInt (int (fd_afn fd)) \<and> pget e ''fn'' = PInt (int (fd_fn fd))
        \<and> pget e ''dir'' \<in> {PNone, PStr (frame_dir fr)}))
    \<and> (\<exists>r. match_decoded to_float e fr = Inr r)"
proof -
  obtain xa xf where e: "pget e ''afn'' = PInt xa" "pget e ''fn'' = PInt xf" "pget e ''format'' = PNone"
    "pget e ''fields'' = PNone" "pget e ''nested'' = PNone" "pget e ''nested_fields'' = PNone"
    using default_expect_shape [OF assms] .
  have "match_decoded to_float e fr = go_on (afn_step e fr) (go_on (fn_step e fr) (Inr (dir_step e fr)))"
    by (auto simp: match_decoded_def format_known_def e go_on_def as_dict_def get_list_def andThen_def split: sum.splits)
  then show ?thesis
    by (cases "sc_fields fr")
      (auto simp: afn_step_def fn_step_def dir_step_def e go_on_def py_eq_def)
qed

section \<open>The built-in answers\<close>

lemma builtin_choice:
  assumes "sc_fields fr = Some fd"
  shows "first_match BUILTIN_RULES fr = Inr
    (let a = fd_afn fd; f = fd_fn fd in
     if a = 0 then Some (BUILTIN_RULES ! 0) else if a = 3 \<and> f = 10 then Some (BUILTIN_RULES ! 1)
     else if a = 6 \<and> f = 3 then Some (BUILTIN_RULES ! 2) else if a = 6 \<and> f = 230 then Some (BUILTIN_RULES ! 3)
     else if a = 1 then Some (BUILTIN_RULES ! 5) else if a = 3 then Some (BUILTIN_RULES ! 6)
     else if a = 0x10 then Some (BUILTIN_RULES ! 7) else if a = 2 then Some (BUILTIN_RULES ! 8)
     else if a = 0x14 \<and> f = 2 then Some (BUILTIN_RULES ! 9) else None)"
proof -
  have m: "rule_matches (reply_rule_of i [(''afn'', PInt n)] r) fr = Inr (int (fd_afn fd) = n)"
    "rule_matches (reply_rule_of i [(''afn'', PInt n), (''fn'', PInt k)] r) fr
      = Inr (int (fd_afn fd) = n \<and> int (fd_fn fd) = k)" for i n k r
    by (auto simp: rule_matches_def reply_rule_of_def afn_fits_def fn_fits_def answer_afn_def pget_def assms)
  show ?thesis unfolding BUILTIN_RULES_def by (simp add: m Let_def)
qed

text \<open>The acknowledgment, 00H-F1 with running number 1.\<close>

definition ACK_FRAME :: bytes where
  "ACK_FRAME = [0x68, 0x0F, 0, 0x43, 0, 0, 0, 0, 0, 1, 0, 1, 0, 0x45, 0x16]"

lemma local_ack: "local_reply LOCAL_ACK = Inr ACK_FRAME"
proof -
  have "build_local_frame 0 1 [] 0x43 (replicate 6 0) 1 = Some ACK_FRAME" by code_simp
  then show ?thesis by (simp add: local_reply_def LOCAL_ACK_def getd_def answer_afn_def local_frame_of_def Let_def)
qed

lemma build_local_ack: "build_reply now LOCAL_ACK fr ov = Inr ACK_FRAME"
  using local_ack by (simp add: build_reply_def LOCAL_ACK_def getd_def)

lemma ack_decoded:
  "\<exists>fr. decode_frame cands shw ACK_FRAME = Some fr \<and>
     map_option (\<lambda>fd. (fd_afn fd, fd_fn fd, fd_info fd ! 5)) (sc_fields fr) = Some (0, 1, 1)"
proof -
  obtain d where d: "decode_10376 ACK_FRAME = Some d"
    "map_option (\<lambda>u. (au_afn u, au_fn u, au_data u)) (dl_unit d) = Some (0, 1, [])"
  proof -
    have "map_option (\<lambda>d. map_option (\<lambda>u. (au_afn u, au_fn u, au_data u)) (dl_unit d)) (decode_10376 ACK_FRAME)
        = Some (Some (0, 1, []))"
      by code_simp
    then show ?thesis using that by auto
  qed
  have i: "py_slice (py_slice ACK_FRAME 4 (length ACK_FRAME - 2)) 0 6 ! 5 = 1" by code_simp
  obtain u where "dl_unit d = Some u" "au_afn u = 0" "au_fn u = 1" "au_data u = []"
    using d(2) by auto
  then show ?thesis using d(1) i by (simp add: decode_frame_def decode_items_def Let_def)
qed

text \<open>C31. Every readable confirmation or refusal (AFN 00H) is answered, and always with the same
frame: the running number of the answer is 1 whatever the frame's own number and whatever number the
caller asks for. The answer is itself a confirmation, so that two such stations answer each other
for ever.\<close>

theorem ack_constant:
  assumes "decode_frame cands shw raw = Some fr" "sc_fields fr = Some fd" "fd_afn fd = 0"
  shows "reply_for (decode_frame cands shw) now (responder [] True) raw ov = Inr (Some ACK_FRAME)
    \<and> reply_for (decode_frame cands shw) now (responder [] True) ACK_FRAME ov = Inr (Some ACK_FRAME)
    \<and> (\<exists>fr' fd'. decode_frame cands shw ACK_FRAME = Some fr' \<and> sc_fields fr' = Some fd' \<and> fd_afn fd' = 0 \<and> fd_info fd' ! 5 = 1)"
proof -
  have r: "reply_for (decode_frame cands shw) now (responder [] True) raw' ov = Inr (Some ACK_FRAME)"
    if "decode_frame cands shw raw' = Some x" "sc_fields x = Some y" "fd_afn y = 0" for raw' x y
    using that builtin_choice [OF that(2)] build_local_ack [of now x ov]
    by (simp add: reply_for_def responder_def BUILTIN_RULES_def reply_rule_of_def)
  obtain fr' where a: "decode_frame cands shw ACK_FRAME = Some fr'"
    "map_option (\<lambda>fd. (fd_afn fd, fd_fn fd, fd_info fd ! 5)) (sc_fields fr') = Some (0, 1, 1)"
    using ack_decoded by blast
  then obtain fd' where fd: "sc_fields fr' = Some fd'" "fd_afn fd' = 0" "fd_info fd' ! 5 = 1" by auto
  show ?thesis using r [OF assms] r [OF a(1) fd(1,2)] a(1) fd by blast
qed

lemma ack_constant_witness:
  "reply_for (decode_frame ([] :: string adapter list) (\<lambda>x. ([], [])))
     \<lparr>ck_year = 26, ck_month = 9, ck_day = 5, ck_hour = 1, ck_minute = 2, ck_second = 3\<rparr> (responder [] True) ACK_FRAME (Some 77)
   = Inr (Some ACK_FRAME)"
proof -
  obtain fr where "decode_frame ([] :: string adapter list) (\<lambda>x. ([], [])) ACK_FRAME = Some fr"
    "map_option (\<lambda>fd. (fd_afn fd, fd_fn fd, fd_info fd ! 5)) (sc_fields fr) = Some (0, 1, 1)"
    using ack_decoded by blast
  then show ?thesis using ack_constant [of "[] :: string adapter list" _ ACK_FRAME fr] by auto
qed

text \<open>The rule for confirmations that answers in the standard form stands behind the local one.\<close>

lemma standard_ack_unused: "first_match BUILTIN_RULES fr \<noteq> Inr (Some (BUILTIN_RULES ! 4))"
proof (cases "sc_fields fr")
  case None
  then show ?thesis
    by (simp add: BUILTIN_RULES_def rule_matches_def reply_rule_of_def afn_fits_def answer_afn_def pget_def)
next
  case (Some fd)
  have d: "distinct (map rr_id BUILTIN_RULES)" by code_simp
  have n: "length BUILTIN_RULES = 10" by (simp add: BUILTIN_RULES_def)
  have "i = 4" if "BUILTIN_RULES ! i = BUILTIN_RULES ! 4" "i < 10" for i
  proof -
    have "map rr_id BUILTIN_RULES ! i = map rr_id BUILTIN_RULES ! 4" using that n by simp
    then show ?thesis using nth_eq_iff_index_eq [OF d, of i 4] that(2) n by simp
  qed
  from this [of 0] this [of 1] this [of 2] this [of 3] this [of 5] this [of 6] this [of 7] this [of 8] this [of 9]
  show ?thesis unfolding builtin_choice [OF Some] by (auto simp: Let_def)
qed

section \<open>Answers in the standard form\<close>

lemma lower_hex_digits: "map lower_char (hex_upper (a @ b)) = map lower_char (hex_upper a) @ map lower_char (hex_upper b)"
  by (simp add: hex_upper_def)

lemma hex_upper_length: "length (hex_upper bs) = 2 * length bs"
  by (induction bs) simp_all

text \<open>The answer to a frame that came over relays is addressed wrongly: its
destination is the first relay of the frame, and the frame's own destination appears nowhere.\<close>

lemma reply_relay_as_destination:
  assumes "length src = 6" "length relay = 6"
  shows "reply_address (src @ relay @ further) =
    \<lparr>ad_src = map lower_char (hex_upper src), ad_relay = [], ad_dst = map lower_char (hex_upper relay)\<rparr>"
proof -
  have "length (map lower_char (hex_upper src)) = 12" "length (map lower_char (hex_upper relay)) = 12"
    using assms by (simp_all add: hex_upper_length)
  then show ?thesis by (simp add: reply_address_def Let_def lower_hex_digits)
qed

definition addressed :: "bytes \<Rightarrow> bool" where
  "addressed a \<longleftrightarrow> a = [] \<or> (12 \<le> length a \<and> bcd12 (map lower_char (hex_upper (take 6 a)))
     \<and> bcd12 (map lower_char (hex_upper (take 6 (drop 6 a)))))"

lemma reply_address_parts:
  assumes "12 \<le> length a"
  shows "reply_address a = \<lparr>ad_src = map lower_char (hex_upper (take 6 a)), ad_relay = [],
    ad_dst = map lower_char (hex_upper (take 6 (drop 6 a)))\<rparr>"
proof -
  have "a = take 6 a @ take 6 (drop 6 a) @ drop 6 (drop 6 a)" by (simp only: append_take_drop_id)
  then show ?thesis
    using reply_relay_as_destination [of "take 6 a" "take 6 (drop 6 a)" "drop 6 (drop 6 a)"] assms by simp
qed

lemma reply_address_ok:
  assumes "addressed a"
  shows "reply_address a = no_address \<or> full_address (reply_address a)" "ad_relay (reply_address a) = []"
proof -
  show "ad_relay (reply_address a) = []" by (simp add: reply_address_def Let_def no_address_def)
  show "reply_address a = no_address \<or> full_address (reply_address a)"
  proof (cases "a = []")
    case True
    then show ?thesis by (simp add: reply_address_def)
  next
    case False
    then have "12 \<le> length a" using assms by (simp add: addressed_def)
    then show ?thesis using assms False by (simp add: reply_address_parts addressed_def full_address_def)
  qed
qed

text \<open>An answer in the standard form is read back with the AFN and Fn of the rule, downward,
with the running number of the frame it answers (or the one asked for) and the addresses taken from
that frame; its application data are what the rule says.\<close>

theorem standard_reply_read:
  assumes "sc_fields fr = Some fd" "length (fd_info fd) = 6" "addressed (fd_address fd)"
    and "getd r ''format'' (PStr ''auto'') \<noteq> PStr ''local''"
    and "answer_afn (getd r ''afn'' (PInt 0)) = Inr (Some a)" "0 \<le> a" "a < 256"
    and "to_int (getd r ''fn'' (PInt 1)) = Inr k" "1 \<le> k" "k \<le> 255"
    and "reply_data now r fr = Inr ud" "length ud \<le> 65000"
  shows "\<exists>f d u. build_reply now r fr ov = Inr f \<and> decode_10376 f = Some d \<and> dl_unit d = Some u
    \<and> au_afn u = nat a \<and> au_fn u = nat k \<and> au_data u = ud \<and> au_cs_ok u
    \<and> ctl_direction (dl_control d) = Down \<and> dl_address d = reply_address (fd_address fd)
    \<and> dl_info d Seq = Some ((case ov of Some s \<Rightarrow> s | None \<Rightarrow> int (unat (fd_info fd ! 5))) mod 256)"
proof -
  let ?s = "case ov of Some s \<Rightarrow> s | None \<Rightarrow> int (unat (fd_info fd ! 5))"
  let ?a = "reply_address (fd_address fd)"
  have "addr_consistent [Seq \<mapsto> ?s] ?a" by (rule send_address [OF reply_address_ok [OF assms(3)]])
  from decode_built_frame [OF this assms(9,10,6,7,12), where dir = Down and cm = 3 and prm = None and fin = "0x16"]
  obtain f d u where "build_frame_10376 Down 3 None [Seq \<mapsto> ?s] ?a a k ud 0x16 = Some f"
    "decode_10376 f = Some d" "dl_unit d = Some u" "au_afn u = nat a" "au_fn u = nat k"
    "au_data u = ud" "au_cs_ok u" "ctl_direction (dl_control d) = Down" "dl_address d = ?a"
    "dl_info d Seq = Some (info_get (sent_info [Seq \<mapsto> ?s] ?a) Seq mod 256)"
    by (auto simp: control_parsed packed_seq)
  moreover have "info_get (sent_info [Seq \<mapsto> ?s] ?a) Seq = ?s" by (simp add: sent_info_def info_get_def)
  moreover have "fd_info fd \<noteq> []" using assms(2) by auto
  ultimately show ?thesis
    using assms by (auto simp: build_reply_def standard_reply_def build_13762_frame_def Let_def split: option.splits)
qed

definition query_read :: sc_frame where
  "query_read = \<lparr>sc_raw = query_frame, sc_fields = Some \<lparr>fd_length = 15, fd_control = 0x43,
     fd_info = [0, 0, 0, 0, 0, 1], fd_address = [], fd_afn = 3, fd_dt = (2, 1), fd_fn = 10, fd_cs = 0x4A\<rparr>,
     sc_items = [], sc_nested = []\<rparr>"

text \<open>The built-in answer to a query: its data are all of the query's user data, the information field first.\<close>

lemma standard_reply_read_witness:
  "\<exists>f d u. build_reply now [(''afn'', PInt 3), (''userdata_builder'', PStr ''echo'')] query_read None = Inr f
    \<and> decode_10376 f = Some d \<and> dl_unit d = Some u \<and> au_afn u = 3 \<and> au_fn u = 1
    \<and> au_data u = [0, 0, 0, 0, 0, 1, 3, 2, 1] \<and> dl_info d Seq = Some 1"
proof -
  let ?r = "[(''afn'', PInt 3), (''userdata_builder'', PStr ''echo'')]"
  have ud: "reply_data now ?r query_read = Inr [0, 0, 0, 0, 0, 1, 3, 2, 1]"
    by (simp add: reply_data_def getd_def query_read_def query_frame_def py_slice_def)
  have f: "sc_fields query_read = Some \<lparr>fd_length = 15, fd_control = 0x43, fd_info = [0, 0, 0, 0, 0, 1],
      fd_address = [], fd_afn = 3, fd_dt = (2, 1), fd_fn = 10, fd_cs = 0x4A\<rparr>"
    by (simp add: query_read_def)
  have c: "answer_afn (getd ?r ''afn'' (PInt 0)) = Inr (Some 3)" "to_int (getd ?r ''fn'' (PInt 1)) = Inr 1"
    "getd ?r ''format'' (PStr ''auto'') \<noteq> PStr ''local''"
    by (simp_all add: getd_def answer_afn_def)
  show ?thesis
    using standard_reply_read [OF f _ _ c(3,1) _ _ c(2) _ _ ud, of None] by (fastforce simp: addressed_def)
qed

text \<open>A set command and the confirmation that is expected of it.\<close>

definition set_rule :: pdict where
  "set_rule = [(''match'', PDict [(''afn'', PInt 5)]), (''expect'', PDict [(''afn'', PStr ''00''), (''fn'', PInt 1)])]"

definition confirm_read :: sc_frame where
  "confirm_read = \<lparr>sc_raw = [], sc_fields = Some \<lparr>fd_length = 15, fd_control = 0x83, fd_info = [0, 0, 0, 0, 0, 1],
     fd_address = [], fd_afn = 0, fd_dt = (1, 0), fd_fn = 1, fd_cs = 0x85\<rparr>, sc_items = [], sc_nested = []\<rparr>"

lemma expected_reply_matches_witness:
  "\<exists>e rule. default_expect [(''rules'', PList [PDict set_rule])] (PInt 5) (PInt 3) = Inr (Some (e, rule))
     \<and> match_decoded as_int e confirm_read = Inr Matched \<and> match_decoded as_int e query_read \<noteq> Inr Matched"
proof -
  have z: "py_hex_int ''00'' = Some 0" by code_simp
  have "default_expect [(''rules'', PList [PDict set_rule])] (PInt 5) (PInt 3)
    = Inr (Some ([(''dir'', PStr ''up''), (''afn'', PInt 0), (''fn'', PInt 1)], set_rule))"
    by (simp add: default_expect_def rule_for_def set_rule_def getd_def pget_def as_dict_def norm_afn_def opt_fn_def
        rule_fn_def int_and_masks to_str_def z Let_def)
  from expected_reply_matches [OF this, of as_int] this show ?thesis
    by (auto simp: confirm_read_def query_read_def pget_def frame_dir_def nat_drop_bits nat_and_masks)
qed

end
