(* ===== verification/Frame_Journal.thy ===== *)
theory Frame_Journal
  imports Sim_Rules
begin

text \<open>
  The journal of sent and received frames, \<open>libs/sim_concentrator/journal.py\<close>: entries with running
  numbers in a bounded memory, the marks of the run and the kind of sending that are in force,
  queries by page, and the table of the last sessions.

  Times, the file that each entry is appended to and the database are left out. What a frame is decoded to
  is an argument of the operation that records it, with the type of the decoder's result.
\<close>

unbundle bit_operations_syntax

section \<open>Codes as text\<close>

definition hex2 :: "int \<Rightarrow> string option" where
  "hex2 n = (if 0 \<le> n \<and> n \<le> 0xFF then Some (hex_upper [of_int n]) else None)"

definition normalize_afn :: "pv \<Rightarrow> string option" where
  "normalize_afn v =
     (case v of
        PNone \<Rightarrow> None
      | PBool _ \<Rightarrow> None
      | PInt n \<Rightarrow> hex2 n
      | _ \<Rightarrow>
          (let s = map lower_char (py_strip (to_str v));
               t = (if take 2 s = ''0x'' then drop 2 s else s)
           in case py_hex_int t of Some n \<Rightarrow> hex2 n | None \<Rightarrow> None))"

definition normalize_fn :: "pv \<Rightarrow> string option" where
  "normalize_fn v =
     (case v of
        PNone \<Rightarrow> None
      | PBool _ \<Rightarrow> None
      | _ \<Rightarrow>
          (let s = py_strip (to_str v);
               t = (if s \<noteq> [] \<and> upper_char (hd s) = CHR ''F'' \<and> tl s \<noteq> [] \<and> list_all is_digit (tl s) then tl s else s)
           in case py_int t of
                Some n \<Rightarrow> if 0 \<le> n \<and> n \<le> 0xFFFF then Some (CHR ''F'' # show_int n) else None
              | None \<Rightarrow> None))"

section \<open>Entries\<close>

record entry =
  en_seq :: nat
  en_tx :: bool
  en_kind :: "string option"
  en_run :: "string option"
  en_frame :: bytes
  en_afn :: "string option"
  en_fn :: "string option"
  en_updown :: "string option"

definition frame_summary :: "sc_frame option \<Rightarrow> string option \<times> string option \<times> string option" where
  "frame_summary parsed =
     (case Option.bind parsed sc_fields of
        None \<Rightarrow> (None, None, None)
      | Some fd \<Rightarrow>
          (normalize_afn (PInt (int (fd_afn fd))), normalize_fn (PInt (int (fd_fn fd))),
           Some (if drop_bit 7 (fd_control fd) AND 1 \<noteq> 0 then ''up'' else ''down'')))"

record journal =
  jr_entries :: "entry list"
  jr_seq :: nat
  jr_scopes :: "(string option \<times> string option) list"
  jr_limit :: nat

definition new_journal :: "int \<Rightarrow> journal" where
  "new_journal memory_limit = \<lparr>jr_entries = [], jr_seq = 0, jr_scopes = [], jr_limit = nat (max 1 memory_limit)\<rparr>"

text \<open>\<open>scope\<close>: entering appends a mark, leaving takes the last one off, whoever entered it.\<close>

definition enter_scope :: "string option \<times> string option \<Rightarrow> journal \<Rightarrow> journal" where
  "enter_scope m j = j\<lparr>jr_scopes := jr_scopes j @ [m]\<rparr>"

definition leave_scope :: "journal \<Rightarrow> journal" where
  "leave_scope j = j\<lparr>jr_scopes := butlast (jr_scopes j)\<rparr>"

fun scope_of :: "(string option \<times> string option) list \<Rightarrow> string option \<times> string option \<Rightarrow> string option \<times> string option" where
  "scope_of [] (run, kind) = (run, kind)"
| "scope_of ((s, k) # ms) (run, kind) = scope_of ms (if run = None \<and> s \<noteq> None \<and> s \<noteq> Some [] then s else run, k)"

definition current_scope :: "journal \<Rightarrow> string option \<times> string option" where
  "current_scope j = scope_of (jr_scopes j) (None, None)"

text \<open>\<open>append\<close> as the ports call it, without values of the caller's own.\<close>

definition push_bounded :: "nat \<Rightarrow> 'a list \<Rightarrow> 'a \<Rightarrow> 'a list" where
  "push_bounded n xs x = (let ys = xs @ [x] in drop (length ys - n) ys)"

definition append_entry :: "bool \<Rightarrow> bytes \<Rightarrow> sc_frame option \<Rightarrow> journal \<Rightarrow> journal" where
  "append_entry tx raw parsed j =
     (if raw = [] then j
      else
        let (run, kind) = current_scope j; (a, f, u) = frame_summary parsed;
            e = \<lparr>en_seq = jr_seq j + 1, en_tx = tx, en_kind = (if tx then kind else None), en_run = run,
                 en_frame = raw, en_afn = a, en_fn = f, en_updown = u\<rparr>
        in j\<lparr>jr_seq := jr_seq j + 1, jr_entries := push_bounded (jr_limit j) (jr_entries j) e\<rparr>)"

section \<open>Queries\<close>

record query =
  q_tx :: "bool option"
  q_updown :: "string option"
  q_afn :: "string option"
  q_fn :: "string option"
  q_kind :: "string option"
  q_run :: "string option"

text \<open>
  The filters of \<open>query\<close> from its arguments: codes are normalised, and one that cannot be read, like
  an empty one, does not filter at all.
\<close>

definition make_query :: "pv \<Rightarrow> pv \<Rightarrow> pv \<Rightarrow> pv \<Rightarrow> string option \<Rightarrow> string option \<Rightarrow> query" where
  "make_query direction updown afn fn kind run =
     \<lparr>q_tx = (if direction = PStr ''tx'' then Some True else if direction = PStr ''rx'' then Some False else None),
      q_updown = (if updown \<in> {PStr ''up'', PStr ''down''} then Some (text_of updown) else None),
      q_afn = normalize_afn afn, q_fn = normalize_fn fn,
      q_kind = (if kind = Some [] then None else kind), q_run = (if run = Some [] then None else run)\<rparr>"

definition fits :: "'a option \<Rightarrow> 'a option \<Rightarrow> bool" where
  "fits want got = (want = None \<or> got = want)"

definition selects :: "query \<Rightarrow> entry \<Rightarrow> bool" where
  "selects q e = (fits (q_tx q) (Some (en_tx e)) \<and> fits (q_updown q) (en_updown e) \<and> fits (q_afn q) (en_afn e)
     \<and> fits (q_fn q) (en_fn e) \<and> fits (q_kind q) (en_kind e) \<and> fits (q_run q) (en_run e))"

record page =
  pg_entries :: "entry list"
  pg_next :: nat
  pg_total :: nat
  pg_more :: bool
  pg_tx :: nat
  pg_rx :: nat
  pg_uplink :: nat

definition page_limit :: "int \<Rightarrow> nat" where
  "page_limit n = nat (max 1 (min (if n = 0 then 100 else n) 500))"

definition uplink :: "entry \<Rightarrow> bool" where
  "uplink e = (\<not> en_tx e \<and> en_updown e = Some ''up'')"

definition query_page :: "journal \<Rightarrow> query \<Rightarrow> int \<Rightarrow> int \<Rightarrow> page" where
  "query_page j q after_seq limit =
     (let after = nat (max 0 after_seq);
          matching = filter (\<lambda>e. after < en_seq e \<and> selects q e) (jr_entries j);
          selected = take (page_limit limit) matching
      in \<lparr>pg_entries = selected,
          pg_next = (if selected = [] then after else en_seq (last selected)),
          pg_total = length matching,
          pg_more = (length selected < length matching),
          pg_tx = length (filter en_tx (jr_entries j)),
          pg_rx = length (filter (\<lambda>e. \<not> en_tx e) (jr_entries j)),
          pg_uplink = length (filter uplink (jr_entries j))\<rparr>)"

section \<open>Sessions\<close>

text \<open>
  A session table: journals by identifier in the order of their insertion, the current one, and the
  files still open. A journal stands for itself as a number, since two may have one identifier.
\<close>

record sessions =
  ss_table :: "(string \<times> nat) list"
  ss_current :: "nat option"
  ss_open :: "nat list"
  ss_retain :: nat

fun trim :: "nat option \<Rightarrow> nat \<Rightarrow> (string \<times> nat) list \<times> nat list \<Rightarrow> (string \<times> nat) list \<times> nat list" where
  "trim cur retain ([], files) = ([], files)"
| "trim cur retain (s # ss, files) =
     (if length (s # ss) \<le> retain then (s # ss, files)
      else if cur = Some (snd s) then (s # ss, files)
      else trim cur retain (ss, filter (\<lambda>h. h \<noteq> snd s) files))"

definition open_session :: "string \<Rightarrow> nat \<Rightarrow> sessions \<Rightarrow> sessions" where
  "open_session sid h s =
     (let still = h # (case ss_current s of None \<Rightarrow> ss_open s | Some c \<Rightarrow> filter (\<lambda>x. x \<noteq> c) (ss_open s));
          (t, opened) = trim (Some h) (ss_retain s) (AList.update sid h (ss_table s), still)
      in s\<lparr>ss_table := t, ss_current := Some h, ss_open := opened\<rparr>)"

definition register_ephemeral :: "string \<Rightarrow> nat \<Rightarrow> sessions \<Rightarrow> sessions" where
  "register_ephemeral sid h s =
     (let (t, opened) = trim (ss_current s) (ss_retain s) (AList.update sid h (ss_table s), ss_open s)
      in s\<lparr>ss_table := t, ss_open := opened\<rparr>)"

definition resolve_session :: "string \<Rightarrow> sessions \<Rightarrow> nat option" where
  "resolve_session sid s =
     (if sid \<noteq> [] then map_of (ss_table s) sid
      else case ss_current s of
        Some h \<Rightarrow> Some h
      | None \<Rightarrow> if ss_table s = [] then None else Some (snd (last (ss_table s))))"

section \<open>Running numbers\<close>

text \<open>What is done to a journal.\<close>

datatype journal_op = Enter "string option \<times> string option" | Leave | Record bool bytes "sc_frame option"

fun journal_step :: "journal \<Rightarrow> journal_op \<Rightarrow> journal" where
  "journal_step j (Enter m) = enter_scope m j"
| "journal_step j Leave = leave_scope j"
| "journal_step j (Record tx raw parsed) = append_entry tx raw parsed j"

definition recorded :: "journal_op list \<Rightarrow> (bool \<times> bytes) list" where
  "recorded ops = concat (map (\<lambda>x. case x of Record tx raw _ \<Rightarrow> if raw = [] then [] else [(tx, raw)] | _ \<Rightarrow> []) ops)"

lemma recorded_simps [simp]:
  "recorded [] = []" "recorded (ops @ [Enter m]) = recorded ops" "recorded (ops @ [Leave]) = recorded ops"
  "recorded (ops @ [Record tx raw p]) = recorded ops @ (if raw = [] then [] else [(tx, raw)])"
  by (simp_all add: recorded_def)

definition last_part :: "nat \<Rightarrow> 'a list \<Rightarrow> 'a list" where
  "last_part n xs = drop (length xs - n) xs"

definition numbered_frames :: "'a list \<Rightarrow> (nat \<times> 'a) list" where
  "numbered_frames fs = zip (map Suc [0..<length fs]) fs"

lemma numbered_frames_simps [simp]:
  "numbered_frames [] = []" "numbered_frames (fs @ [x]) = numbered_frames fs @ [(length fs + 1, x)]"
  "map fst (numbered_frames fs) = map Suc [0..<length fs]" "map snd (numbered_frames fs) = fs"
  "length (numbered_frames fs) = length fs"
  by (simp_all add: numbered_frames_def map_Suc_upt del: map_Suc_upt)

lemma push_bounded_last: "push_bounded n (last_part n xs) x = last_part n (xs @ [x])"
proof -
  have "push_bounded n (last_part n xs) x = drop (length (last_part n xs) + 1 - n) (last_part n xs @ [x])"
    by (simp add: push_bounded_def Let_def)
  then show ?thesis by (cases "length xs \<le> n") (auto simp: last_part_def Suc_diff_le)
qed

lemma last_part_map: "map f (last_part n xs) = last_part n (map f xs)"
  by (simp add: last_part_def drop_map)

lemma push_bounded_map: "map f (push_bounded n xs x) = push_bounded n (map f xs) (f x)"
  by (simp add: push_bounded_def Let_def drop_map [symmetric] del: drop_append)

lemma append_entry_parts:
  assumes "raw \<noteq> []"
  shows "jr_seq (append_entry tx raw p j) = jr_seq j + 1" "jr_limit (append_entry tx raw p j) = jr_limit j"
    "map (\<lambda>e. (en_seq e, en_tx e, en_frame e)) (jr_entries (append_entry tx raw p j))
      = push_bounded (jr_limit j) (map (\<lambda>e. (en_seq e, en_tx e, en_frame e)) (jr_entries j)) (jr_seq j + 1, tx, raw)"
  using assms by (simp_all add: append_entry_def push_bounded_map Let_def split: prod.splits)

text \<open>
  The journal's content: the last of the numbered frames.
\<close>

lemma journal_content:
  "let j = foldl journal_step (new_journal limit) ops; fs = recorded ops in
     jr_limit j = nat (max 1 limit) \<and> jr_seq j = length fs
     \<and> map (\<lambda>e. (en_seq e, en_tx e, en_frame e)) (jr_entries j)
       = last_part (nat (max 1 limit)) (numbered_frames fs)"
proof (induction ops rule: rev_induct)
  case Nil
  then show ?case by (simp add: new_journal_def last_part_def)
next
  case (snoc x ops)
  then show ?case
  proof (cases x)
    case (Record tx raw p)
    then show ?thesis
      using snoc append_entry_parts [of raw tx p "foldl journal_step (new_journal limit) ops"]
      by (cases "raw = []") (simp_all add: Let_def push_bounded_last append_entry_def)
  qed (simp_all add: Let_def enter_scope_def leave_scope_def)
qed

text \<open>Whatever is entered, left and recorded, the journal holds the last frames recorded, as many
as its limit allows, in order and under their running numbers from 1 on without a gap; its last number
is the count of all frames recorded.\<close>

theorem journal_window:
  "let j = foldl journal_step (new_journal limit) ops; fs = recorded ops; k = min (length fs) (nat (max 1 limit)) in
     jr_seq j = length fs
     \<and> map en_seq (jr_entries j) = [length fs - k + 1..<length fs + 1]
     \<and> map (\<lambda>e. (en_tx e, en_frame e)) (jr_entries j) = drop (length fs - k) fs"
proof -
  let ?j = "foldl journal_step (new_journal limit) ops" and ?fs = "recorded ops"
  define L where "L = nat (max 1 limit)"
  let ?rows = "numbered_frames ?fs"
  have c: "jr_seq ?j = length ?fs"
    "map (\<lambda>e. (en_seq e, en_tx e, en_frame e)) (jr_entries ?j) = last_part L ?rows"
    using journal_content [of limit ops] by (simp_all add: Let_def L_def)
  have k: "length ?fs - min (length ?fs) L = length ?fs - L" by simp
  have "map en_seq (jr_entries ?j) = map fst (last_part L ?rows)"
    unfolding c(2) [symmetric] by simp
  also have "\<dots> = drop (length ?fs - L) (map Suc [0..<length ?fs])"
    by (simp only: last_part_map numbered_frames_simps) (simp add: last_part_def)
  also have "\<dots> = [length ?fs - L + 1..<length ?fs + 1]"
    by (simp only: drop_map drop_upt map_Suc_upt add_0 add_0_right Suc_eq_plus1 add.commute)
  finally have s: "map en_seq (jr_entries ?j) = [length ?fs - L + 1..<length ?fs + 1]" .
  have "map (\<lambda>e. (en_tx e, en_frame e)) (jr_entries ?j) = map snd (last_part L ?rows)"
    unfolding c(2) [symmetric] by simp
  also have "\<dots> = drop (length ?fs - L) ?fs"
    by (simp only: last_part_map numbered_frames_simps) (simp add: last_part_def)
  finally show ?thesis using c(1) s k by (simp only: Let_def L_def [symmetric])
qed

section \<open>Paging\<close>

text \<open>The entries a query has still to show after a running number.\<close>

definition still_to_show :: "journal \<Rightarrow> query \<Rightarrow> nat \<Rightarrow> entry list" where
  "still_to_show j q n = filter (\<lambda>e. n < en_seq e \<and> selects q e) (jr_entries j)"

lemma strictly_numbered: "sorted_wrt (<) (map en_seq (jr_entries (foldl journal_step (new_journal limit) ops)))"
proof -
  let ?j = "foldl journal_step (new_journal limit) ops"
  have "map en_seq (jr_entries ?j) = map fst (map (\<lambda>e. (en_seq e, en_tx e, en_frame e)) (jr_entries ?j))"
    by simp
  also have "\<dots> = last_part (nat (max 1 limit)) (map Suc [0..<length (recorded ops)])"
    using journal_content [of limit ops] by (simp only: Let_def last_part_map numbered_frames_simps)
  finally show ?thesis by (simp add: last_part_def drop_map map_Suc_upt del: upt_Suc)
qed

lemma filter_after_part:
  assumes "sorted_wrt (\<lambda>a b. f a < f b) xs" and "filter p xs = ys @ zs" and "ys \<noteq> []"
  shows "filter (\<lambda>x. f (last ys) < (f x :: nat) \<and> p x) xs = zs"
proof -
  have s: "sorted_wrt (\<lambda>a b. f a < f b) (ys @ zs)"
    using sorted_wrt_filter [OF assms(1), of p] assms(2) by simp
  have "filter (\<lambda>x. f (last ys) < f x \<and> p x) xs = filter (\<lambda>x. f (last ys) < f x) (filter p xs)"
    by (simp add: conj_commute)
  also have "\<dots> = filter (\<lambda>x. f (last ys) < f x) ys @ filter (\<lambda>x. f (last ys) < f x) zs"
    by (simp add: assms(2))
  also have "filter (\<lambda>x. f (last ys) < f x) ys = []"
  proof -
    obtain us u where u: "ys = us @ [u]" using assms(3) by (metis rev_exhaust)
    show ?thesis using s unfolding u by (auto simp: sorted_wrt_append filter_empty_conv)
  qed
  also have "filter (\<lambda>x. f (last ys) < f x) zs = zs"
    using s assms(3) by (auto simp: sorted_wrt_append filter_id_conv)
  finally show ?thesis by simp
qed

text \<open>C32. A page of a query and the queries after it show exactly what was to be shown, each entry once
and in order; the page says whether and how much is left, and it is not empty while something is.\<close>

theorem pages_tile:
  "let j = foldl journal_step (new_journal limit) ops; p = query_page j q after page_size; n = nat (max 0 after) in
     still_to_show j q n = pg_entries p @ still_to_show j q (pg_next p)
     \<and> (pg_more p \<longleftrightarrow> still_to_show j q (pg_next p) \<noteq> [])
     \<and> pg_total p = length (pg_entries p) + length (still_to_show j q (pg_next p))
     \<and> (still_to_show j q n \<noteq> [] \<longleftrightarrow> pg_entries p \<noteq> [])
     \<and> length (pg_entries p) \<le> 500"
proof -
  let ?j = "foldl journal_step (new_journal limit) ops"
  let ?p = "query_page ?j q after page_size" and ?n = "nat (max 0 after)"
  define k where "k = page_limit page_size"
  have k: "0 < k" "k \<le> 500" by (auto simp: k_def page_limit_def)
  have e: "pg_entries ?p = take k (still_to_show ?j q ?n)"
    by (simp add: query_page_def still_to_show_def k_def Let_def)
  have parts: "still_to_show ?j q ?n = pg_entries ?p @ drop k (still_to_show ?j q ?n)" by (simp add: e)
  have rest: "still_to_show ?j q (pg_next ?p) = drop k (still_to_show ?j q ?n)"
  proof (cases "pg_entries ?p = []")
    case True
    then have "still_to_show ?j q ?n = []" using k(1) by (simp add: e)
    moreover have "pg_next ?p = ?n" using True by (simp add: query_page_def Let_def)
    ultimately show ?thesis by simp
  next
    case False
    have nx: "pg_next ?p = en_seq (last (pg_entries ?p))" using False by (simp add: query_page_def Let_def)
    have above: "?n < en_seq (last (pg_entries ?p))"
      using last_in_set [OF False] by (auto simp: e still_to_show_def dest!: in_set_takeD)
    have s: "sorted_wrt (\<lambda>a b. en_seq a < en_seq b) (jr_entries ?j)"
      using strictly_numbered [of limit ops] by (simp add: sorted_wrt_map)
    have "still_to_show ?j q (pg_next ?p)
      = filter (\<lambda>e. en_seq (last (pg_entries ?p)) < en_seq e \<and> ?n < en_seq e \<and> selects q e) (jr_entries ?j)"
      using above unfolding still_to_show_def nx by (intro filter_cong) auto
    also have "\<dots> = drop k (still_to_show ?j q ?n)"
      using filter_after_part [OF s, of "\<lambda>e. ?n < en_seq e \<and> selects q e" "pg_entries ?p"
        "drop k (still_to_show ?j q ?n)"] parts False unfolding still_to_show_def by simp
    finally show ?thesis .
  qed
  have c: "pg_total ?p = length (still_to_show ?j q ?n)"
    "pg_more ?p = (length (pg_entries ?p) < length (still_to_show ?j q ?n))"
    by (simp_all add: query_page_def still_to_show_def Let_def)
  show ?thesis using k c e rest parts by (auto simp: Let_def)
qed

section \<open>Marks\<close>

text \<open>
  The outermost run is the one that counts, and of the kinds the innermost. Leaving takes the last
  mark off: when two runs of one journal overlap and the first one ends, its own mark stays in force
  and the other's is gone.
\<close>

lemma outermost_run:
  assumes "run \<noteq> None" and "run \<noteq> Some []"
  shows "fst (current_scope (foldl (\<lambda>j m. enter_scope m j) (enter_scope (run, kind) (new_journal limit)) ms)) = run"
proof -
  have "fst (scope_of ms (run, k)) = run" for ms k using assms(1) by (induction ms arbitrary: k) auto
  moreover have "jr_scopes (foldl (\<lambda>j m. enter_scope m j) j ms) = jr_scopes j @ ms" for j ms
    by (induction ms arbitrary: j) (simp_all add: enter_scope_def)
  ultimately show ?thesis
    using assms by (simp add: current_scope_def enter_scope_def new_journal_def)
qed

lemma overlapping_runs:
  "current_scope (leave_scope (enter_scope (Some ''run-b'', k2) (enter_scope (Some ''run-a'', k1) (new_journal n))))
    = (Some ''run-a'', k1)"
  by (simp add: current_scope_def enter_scope_def leave_scope_def new_journal_def)

section \<open>The table of sessions\<close>

lemma trim_length:
  assumes "xs \<noteq> [] \<longrightarrow> length xs \<le> retain + 1" and "length xs \<le> retain \<or> cur \<noteq> Some (snd (hd xs))"
  shows "length (fst (trim cur retain (xs, files))) \<le> retain"
  using assms by (cases xs) (auto split: if_splits, cases "tl xs", auto)

lemma update_length: "length (AList.update k v xs) = (if k \<in> fst ` set xs then length xs else length xs + 1)"
  by (induction xs) auto

definition new_sessions :: "int \<Rightarrow> sessions" where
  "new_sessions retain = \<lparr>ss_table = [], ss_current = None, ss_open = [], ss_retain = nat (max 1 retain)\<rparr>"

definition opened_all :: "(string \<times> nat) list \<Rightarrow> int \<Rightarrow> sessions" where
  "opened_all opens retain = foldl (\<lambda>s (i, h). open_session i h s) (new_sessions retain) opens"

definition table_ok :: "nat \<Rightarrow> nat set \<Rightarrow> sessions \<Rightarrow> bool" where
  "table_ok n hs s = (ss_retain s = n \<and> length (ss_table s) \<le> n \<and> distinct (map fst (ss_table s))
     \<and> snd ` set (ss_table s) \<subseteq> hs
     \<and> (case ss_current s of None \<Rightarrow> ss_open s = [] | Some c \<Rightarrow> ss_open s = [c] \<and> c \<in> hs))"

lemma trim_keeps:
  assumes "distinct (map fst xs)" and "map_of xs i = Some h" and "\<And>x. x \<in> set xs \<Longrightarrow> fst x \<noteq> i \<Longrightarrow> snd x \<noteq> h"
  shows "map_of (fst (trim (Some h) retain (xs, [h]))) i = Some h \<and> distinct (map fst (fst (trim (Some h) retain (xs, [h]))))
    \<and> set (fst (trim (Some h) retain (xs, [h]))) \<subseteq> set xs \<and> snd (trim (Some h) retain (xs, [h])) = [h]"
  using assms by (induction xs) (auto split: if_splits)

lemma update_others: "x \<in> set (AList.update i h xs) \<Longrightarrow> x = (i, h) \<or> x \<in> set xs"
  by (induction xs) (auto split: if_splits)

lemma update_head: "i \<notin> fst ` set xs \<Longrightarrow> xs \<noteq> [] \<Longrightarrow> hd (AList.update i h xs) = hd xs"
  by (cases xs) auto

lemma update_entry: "distinct (map fst xs) \<Longrightarrow> x \<in> set (AList.update i h xs) \<Longrightarrow> fst x = i \<Longrightarrow> snd x = h"
  by (metis distinct_update map_of_eq_Some_iff option.inject prod.collapse update_Some_unfold)

lemma open_session_step:
  assumes ok: "table_ok n hs s" and h: "h \<notin> hs" and n: "1 \<le> n"
  shows "table_ok n (insert h hs) (open_session i h s) \<and> ss_current (open_session i h s) = Some h
    \<and> map_of (ss_table (open_session i h s)) i = Some h \<and> ss_open (open_session i h s) = [h]"
proof -
  let ?xs = "AList.update i h (ss_table s)"
  have old: "ss_retain s = n" "length (ss_table s) \<le> n" "distinct (map fst (ss_table s))"
    "snd ` set (ss_table s) \<subseteq> hs" using ok by (simp_all add: table_ok_def)
  have d: "distinct (map fst ?xs)" using old(3) by (rule distinct_update)
  have m: "map_of ?xs i = Some h" by (simp add: update_conv)
  have other: "snd x \<noteq> h" if "x \<in> set ?xs" "fst x \<noteq> i" for x
    using update_others [OF that(1)] that(2) old(4) h by (cases x) auto
  note keep = trim_keeps [OF d m other, of n]
  have l: "length (fst (trim (Some h) n (?xs, [h]))) \<le> n"
  proof (rule trim_length)
    show "?xs \<noteq> [] \<longrightarrow> length ?xs \<le> n + 1" using old(2) by (simp add: update_length)
    show "length ?xs \<le> n \<or> Some h \<noteq> Some (snd (hd ?xs))"
    proof (cases "length ?xs \<le> n")
      case False
      then have new: "i \<notin> fst ` set (ss_table s)" "ss_table s \<noteq> []"
        using old(2) n by (auto simp: update_length split: if_splits)
      then have "hd ?xs \<in> set (ss_table s)" by (simp add: update_head)
      then show ?thesis using old(4) h by auto
    qed simp
  qed
  have step: "open_session i h s = s\<lparr>ss_table := fst (trim (Some h) n (?xs, [h])), ss_current := Some h, ss_open := [h]\<rparr>"
    using ok h keep by (auto simp: open_session_def table_ok_def Let_def split: option.splits prod.splits)
  have "snd ` set (fst (trim (Some h) n (?xs, [h]))) \<subseteq> insert h hs"
  proof
    fix g assume "g \<in> snd ` set (fst (trim (Some h) n (?xs, [h])))"
    then obtain x where "x \<in> set ?xs" "g = snd x" using keep by blast
    then show "g \<in> insert h hs" using update_others old(4) by fastforce
  qed
  then show ?thesis using keep l old(1) by (simp add: step table_ok_def)
qed

lemma opened_all_ok:
  "distinct (map snd os) \<Longrightarrow> table_ok (nat (max 1 retain)) (set (map snd os)) (opened_all os retain)"
proof (induction os rule: rev_induct)
  case Nil
  then show ?case by (simp add: opened_all_def new_sessions_def table_ok_def)
next
  case (snoc x os)
  obtain j g where x: "x = (j, g)" by (cases x)
  have "table_ok (nat (max 1 retain)) (insert g (set (map snd os))) (open_session j g (opened_all os retain))"
    using open_session_step [OF snoc.IH, of g j] snoc.prems by (simp add: x)
  then show ?case by (simp add: x opened_all_def)
qed

text \<open>However many sessions are opened, the table never holds more than the number to keep; the
last one opened is the current one, is found under its identifier and is the only one whose file is open.\<close>

theorem session_table:
  assumes "distinct (map snd (opens @ [(i, h)]))"
  shows "let s = opened_all (opens @ [(i, h)]) retain in
     length (ss_table s) \<le> nat (max 1 retain) \<and> ss_current s = Some h
     \<and> resolve_session i s = Some h \<and> resolve_session [] s = Some h \<and> ss_open s = [h]"
proof -
  have d: "distinct (map snd opens)" "h \<notin> set (map snd opens)" using assms by auto
  have n: "1 \<le> nat (max 1 retain)" by simp
  let ?s = "open_session i h (opened_all opens retain)"
  have s: "opened_all (opens @ [(i, h)]) retain = ?s" by (simp add: opened_all_def)
  note stepped = open_session_step [OF opened_all_ok [OF d(1), of retain] d(2) n, of i]
  then have "length (ss_table ?s) \<le> nat (max 1 retain)" by (simp only: table_ok_def)
  then show ?thesis using stepped unfolding s by (cases "i = []") (simp_all add: resolve_session_def Let_def)
qed

lemma session_table_witness:
  "length (ss_table (opened_all [(''a'', 0), (''b'', 1), (''a'', 2)] 2)) \<le> 2
    \<and> resolve_session ''a'' (opened_all [(''a'', 0), (''b'', 1), (''a'', 2)] 2) = Some 2"
  using session_table [of "[(''a'', 0), (''b'', 1)]" "''a''" 2 2] by (simp add: Let_def)

lemma ephemeral_grows:
  "length (ss_table (foldl (\<lambda>s (i, h). register_ephemeral i h s) (open_session ''a'' 0 (new_sessions 1))
     [(''b'', 1), (''c'', 2), (''d'', 3)])) = 4"
  by (simp add: register_ephemeral_def open_session_def new_sessions_def)

end
