(* ===== verification/Task_Runner.thy ===== *)
theory Task_Runner
  imports Frame_Journal
begin

text \<open>
  The simulated concentrator's port and the execution of verification steps:
  \<open>libs/sim_concentrator/serial_io.py\<close> (cutting what arrives into frames, the resident answers, the
  queue and the history) and \<open>runner.py\<close> (one step with all its branches, a task, a single step).

  Frames arrive only while a step waits, never between its other actions.

  What happens while a step waits is an argument of it: for each turn of its loop the reading of the
  clock, in milliseconds, and the pieces that arrive until the turn's waiting ends. A step whose
  arguments end before its waiting does has no result yet. The decoder, \<open>float()\<close> and the wall clock
  are parts of a record, for one run the same. Texts of reasons are the constructors of a type; time
  limits are whole seconds, as everywhere in the model. The driver of the port is left out but for its
  refusal when the port is closed.
\<close>

unbundle bit_operations_syntax

section \<open>Descriptions with bytes of the caller's own\<close>

text \<open>\<open>hex_to_bytes\<close>: the numbers between white space.\<close>

fun words_from :: "string \<Rightarrow> string \<Rightarrow> string list" where
  "words_from acc [] = (if acc = [] then [] else [rev acc])"
| "words_from acc (c # cs) =
     (if is_space c then (if acc = [] then [] else [rev acc]) @ words_from [] cs else words_from (c # acc) cs)"

fun blank_prefixes :: "string \<Rightarrow> string" where
  "blank_prefixes (c # d # cs) =
     (if c = CHR ''0'' \<and> d = CHR ''x'' then CHR '' '' # blank_prefixes cs else c # blank_prefixes (d # cs))"
| "blank_prefixes s = s"

definition byte_of_int :: "int \<Rightarrow> byte option" where
  "byte_of_int n = (if 0 \<le> n \<and> n \<le> 255 then Some (of_int n) else None)"

definition hex_to_bytes :: "string \<Rightarrow> bytes option" where
  "hex_to_bytes s =
     those (map (\<lambda>p. Option.bind (py_hex_int p) byte_of_int)
       (words_from [] (map (\<lambda>c. if c = CHR '','' then CHR '' '' else c) (blank_prefixes s))))"

text \<open>\<open>_to_int\<close>: other values stay what they are and are refused by the builder.\<close>

definition int_of :: "pv \<Rightarrow> (string \<Rightarrow> int option) \<Rightarrow> int res" where
  "int_of v read = (case as_int v of
     Some n \<Rightarrow> Inr n
   | None \<Rightarrow> (case v of PStr s \<Rightarrow> (case read s of Some n \<Rightarrow> Inr n | None \<Rightarrow> Inl ValueError) | _ \<Rightarrow> Inl TypeError))"

definition buff_of :: "pv \<Rightarrow> bytes res" where
  "buff_of v = (case v of
     PStr s \<Rightarrow> (case hex_to_bytes s of Some b \<Rightarrow> Inr b | None \<Rightarrow> Inl ValueError)
   | PList vs \<Rightarrow> octets vs
   | _ \<Rightarrow> if truthy v then bytes_of v else Inr [])"

definition info_of :: "pv option \<Rightarrow> bytes res" where
  "info_of v = (case v of None \<Rightarrow> Inr (replicate 6 0) | Some (PStr s) \<Rightarrow> Inl TypeError | Some w \<Rightarrow> bytes_of w)"

definition build_send_frame :: "pdict \<Rightarrow> pdict \<Rightarrow> int \<Rightarrow> bytes res" where
  "build_send_frame send profile seq =
     (if truthy (pget send ''raw'') then Inl ValueError
      else if pget send ''format'' = PStr ''local''
      then andThen (int_of (getd send ''afn'' (PInt 0)) py_hex_int) (\<lambda>afn.
           andThen (int_of (getd send ''fn'' (PInt 1)) py_int) (\<lambda>fn.
           andThen (buff_of (getd send ''buff'' (PStr ''''))) (\<lambda>buff.
           andThen (int_of (getd send ''ctrl'' (PInt 0x43)) py_hex_int) (\<lambda>ctrl.
           andThen (int_of (getd send ''seq'' (PInt 1)) py_int) (\<lambda>sq.
           andThen (info_of (map_of send ''info'')) (\<lambda>info.
             case build_local_frame afn fn buff (nat (ctrl AND 0xFF)) info sq of
               Some f \<Rightarrow> Inr f | None \<Rightarrow> Inl ValueError))))))
      else build_send send profile seq)"

section \<open>The port\<close>

record port =
  pt_open :: bool
  pt_buf :: bytes
  pt_queue :: "bytes list"
  pt_history :: "bytes list"
  pt_sent :: "bytes list"
  pt_journal :: "journal option"
  pt_resident :: "reply_rule list option"

record 'n surroundings =
  su_dec :: "bytes \<Rightarrow> sc_frame option"
  su_float :: "pv \<Rightarrow> 'n option"
  su_clock :: clock

definition send_frame :: "'n surroundings \<Rightarrow> bytes \<Rightarrow> port \<Rightarrow> port res" where
  "send_frame su raw p =
     (if \<not> pt_open p then Inl RuntimeError
      else Inr (p\<lparr>pt_sent := pt_sent p @ [raw],
                  pt_journal := map_option (append_entry True raw (su_dec su raw)) (pt_journal p)\<rparr>))"

definition in_scope :: "string option \<times> string option \<Rightarrow> (port \<Rightarrow> port res) \<Rightarrow> port \<Rightarrow> port res" where
  "in_scope m body p =
     andThen (body (p\<lparr>pt_journal := map_option (enter_scope m) (pt_journal p)\<rparr>)) (\<lambda>q.
       Inr (q\<lparr>pt_journal := map_option leave_scope (pt_journal q)\<rparr>))"

text \<open>
  One frame of the reading thread: history of the last thousand, journal, the resident answer, queue.
  An answer that fails is forgotten.
\<close>

definition resident_answer :: "'n surroundings \<Rightarrow> bytes \<Rightarrow> port \<Rightarrow> port" where
  "resident_answer su f p =
     (case pt_resident p of
        None \<Rightarrow> p
      | Some rules \<Rightarrow>
          (case reply_for (su_dec su) (su_clock su) rules f None of
             Inr (Some reply) \<Rightarrow>
               if reply = [] then p else (case send_frame su reply p of Inr q \<Rightarrow> q | Inl _ \<Rightarrow> p)
           | _ \<Rightarrow> p))"

definition arrive :: "'n surroundings \<Rightarrow> bytes \<Rightarrow> port \<Rightarrow> port" where
  "arrive su f p =
     (let q = resident_answer su f (p\<lparr>pt_history := push_bounded 1000 (pt_history p) f,
                pt_journal := map_option (append_entry False f (su_dec su f)) (pt_journal p)\<rparr>)
      in q\<lparr>pt_queue := pt_queue q @ [f]\<rparr>)"

lemma scan_from_consumes: "scan_from buf i = Some (f, n) \<Longrightarrow> 0 < n \<and> n \<le> length buf"
proof (induction buf i rule: scan_from.induct)
  case (1 buf i)
  show ?case
    using 1 by (subst (asm) scan_from.simps) (auto simp: Let_def split: if_splits)
qed

function cut_all :: "bytes \<Rightarrow> bytes list \<times> bytes" where
  "cut_all buf =
     (case scan_frame buf of
        None \<Rightarrow> ([], buf)
      | Some (f, n) \<Rightarrow> (let (fs, rest) = cut_all (drop n buf) in (f # fs, rest)))"
  by pat_completeness auto
termination
  by (relation "measure length") (auto simp: scan_frame_def dest!: scan_from_consumes)

declare cut_all.simps [simp del]

text \<open>
  \<open>_run\<close> on one piece of data: the frames in the buffer are dealt with one after the other; an empty
  read changes nothing.
\<close>

definition rx_data :: "'n surroundings \<Rightarrow> bytes \<Rightarrow> port \<Rightarrow> port" where
  "rx_data su data p =
     (if data = [] then p
      else let (fs, rest) = cut_all (pt_buf p @ data) in (fold (arrive su) fs p)\<lparr>pt_buf := rest\<rparr>)"

text \<open>\<open>recv_frame\<close> with what arrives while it waits.\<close>

definition recv_frame :: "'n surroundings \<Rightarrow> bytes list \<Rightarrow> port \<Rightarrow> bytes option \<times> port" where
  "recv_frame su pieces p =
     (let q = fold (rx_data su) pieces p in
      case pt_queue q of [] \<Rightarrow> (None, q) | f # fs \<Rightarrow> (Some f, q\<lparr>pt_queue := fs\<rparr>))"

section \<open>One step\<close>

datatype reading = Read_As sc_frame | Undecoded bytes | Empty_Reading

datatype reason =
  No_Reason | Build_Failed py_exc | Send_Failed py_exc | Silence_Kept | Silence_Broken | Wait_Over int | One_Frame
| Sent_Only | Seen_Before | Not_Seen int nat | Denied nat | Reply_Matched | Reply_Missing int nat

record step_result =
  st_index :: nat
  st_sent :: string
  st_matched :: "string option"
  st_parsed :: "reading option"
  st_pass :: bool
  st_reason :: reason
  st_deny :: "nat option"
  st_received :: "string list"
  st_bystanders :: "(string \<times> nat option \<times> nat option) list"

definition safe_decode :: "'n surroundings \<Rightarrow> bytes \<Rightarrow> reading" where
  "safe_decode su raw = (case su_dec su raw of Some fr \<Rightarrow> Read_As fr | None \<Rightarrow> Undecoded raw)"

definition reading_of :: "sc_frame option \<Rightarrow> reading" where
  "reading_of d = (case d of Some fr \<Rightarrow> Read_As fr | None \<Rightarrow> Empty_Reading)"

definition denied :: "reading \<Rightarrow> nat option" where
  "denied r = (case r of Read_As fr \<Rightarrow> deny_info fr | _ \<Rightarrow> None)"

definition auto_reply :: "'n surroundings \<Rightarrow> reply_rule list option \<Rightarrow> bytes \<Rightarrow> port \<Rightarrow> port" where
  "auto_reply su rules raw p =
     (case rules of
        None \<Rightarrow> p
      | Some rs \<Rightarrow>
          (case reply_for (su_dec su) (su_clock su) rs raw None of
             Inr (Some reply) \<Rightarrow>
               (case in_scope (None, Some ''auto_reply'') (send_frame su reply) p of Inr q \<Rightarrow> q | Inl _ \<Rightarrow> p)
           | _ \<Rightarrow> p))"

text \<open>A turn of a loop: the clock when its condition is checked, and what arrives in it.\<close>

type_synonym turn = "int \<times> bytes list"

text \<open>A step's outcome: still waiting, an exception, or its result with the port afterwards.\<close>

type_synonym step_outcome = "(step_result \<times> port) res option"

text \<open>\<open>match_frame\<close> with an expectation that may be no dict: it is looked at after the decoding.\<close>

definition match_value :: "'n surroundings \<Rightarrow> pv \<Rightarrow> bytes \<Rightarrow> (match_result \<times> sc_frame option) res" where
  "match_value su e f =
     (if su_dec su f = None \<or> e = PNone then match_frame (su_dec su) (su_float su) f None
      else andThen (as_dict e) (\<lambda>d. match_frame (su_dec su) (su_float su) f (Some d)))"

fun first_seen :: "'n surroundings \<Rightarrow> pv \<Rightarrow> bytes list \<Rightarrow> (bytes \<times> sc_frame option) option res" where
  "first_seen su e [] = Inr None"
| "first_seen su e (f # fs) =
     andThen (match_value su e f) (\<lambda>(m, d).
       if m = Matched then Inr (Some (f, d)) else first_seen su e fs)"

fun look_back :: "'n surroundings \<Rightarrow> reply_rule list option \<Rightarrow> pv \<Rightarrow> int \<Rightarrow> int \<Rightarrow> nat \<Rightarrow> turn list \<Rightarrow> step_result \<Rightarrow> port \<Rightarrow> step_outcome" where
  "look_back su rules e limit deadline seen [] r p = None"
| "look_back su rules e limit deadline seen ((now, pieces) # ts) r p =
     (if deadline \<le> now then Some (Inr (r\<lparr>st_reason := Not_Seen limit seen\<rparr>, p))
      else
        (case first_seen su e (pt_history p) of
           Inl x \<Rightarrow> Some (Inl x)
         | Inr (Some (f, d)) \<Rightarrow>
             Some (Inr (r\<lparr>st_matched := Some (frame_to_hex f), st_parsed := Some (reading_of d),
                          st_pass := True, st_reason := Seen_Before\<rparr>, auto_reply su rules f p))
         | Inr None \<Rightarrow>
             look_back su rules e limit deadline (length (pt_history p)) ts r (fold (rx_data su) pieces p)))"

definition bystander :: "bytes \<Rightarrow> sc_frame option \<Rightarrow> string \<times> nat option \<times> nat option" where
  "bystander f d = (let fd = Option.bind d sc_fields in (frame_to_hex f, map_option fd_afn fd, map_option fd_fn fd))"

text \<open>What becomes of one frame that arrives while a reply is expected: a verdict, or a bystander.\<close>

datatype judgement = Verdict step_result | Passed_By step_result "sc_frame option"

definition judge :: "'n surroundings \<Rightarrow> pv \<Rightarrow> bytes \<Rightarrow> step_result \<Rightarrow> judgement res" where
  "judge su e f r0 =
     (let got = safe_decode su f;
          r = r0\<lparr>st_matched := Some (frame_to_hex f), st_parsed := Some got\<rparr>;
          d = denied got in
      andThen (if d = None then Inr False else andThen (as_dict e) (\<lambda>x. Inr (py_eq (PInt 0) (pget x ''afn'')))) (\<lambda>special.
      if special then Inr (Verdict (r\<lparr>st_deny := d, st_pass := False, st_reason := Denied (the d)\<rparr>))
      else
        andThen (match_value su e f) (\<lambda>(m, dec).
          let r1 = r\<lparr>st_parsed := Some (reading_of dec)\<rparr> in
          if m = Matched
          then (case d of
              None \<Rightarrow> Inr (Verdict (r1\<lparr>st_pass := True, st_reason := Reply_Matched\<rparr>))
            | Some c \<Rightarrow> Inr (Verdict (r1\<lparr>st_deny := Some c, st_pass := False, st_reason := Denied c\<rparr>)))
          else Inr (Passed_By (r1\<lparr>st_received := st_received r1 @ [frame_to_hex f]\<rparr>) dec))))"

text \<open>The bystanders are part of the result only when the time runs out.\<close>

fun await ::
  "'n surroundings \<Rightarrow> reply_rule list option \<Rightarrow> pv \<Rightarrow> int \<Rightarrow> int \<Rightarrow> (string \<times> nat option \<times> nat option) list \<Rightarrow> turn list
    \<Rightarrow> step_result \<Rightarrow> port \<Rightarrow> step_outcome" where
  "await su rules e limit deadline others [] r p = None"
| "await su rules e limit deadline others ((now, pieces) # ts) r p =
     (if deadline \<le> now
      then Some (Inr (r\<lparr>st_reason := Reply_Missing limit (length (st_received r)), st_bystanders := others\<rparr>, p))
      else
        (case recv_frame su pieces p of
           (None, q) \<Rightarrow> await su rules e limit deadline others ts r q
         | (Some f, q) \<Rightarrow>
             (case judge su e f r of
                Inl x \<Rightarrow> Some (Inl x)
              | Inr (Verdict r') \<Rightarrow> Some (Inr (r', auto_reply su rules f q))
              | Inr (Passed_By r' dec) \<Rightarrow>
                  await su rules e limit deadline (others @ [bystander f dec]) ts r' (auto_reply su rules f q))))"

definition step_limit :: "pdict \<Rightarrow> int" where
  "step_limit step = (case getd step ''expect_timeout'' (PInt 5) of PInt n \<Rightarrow> if n \<le> 0 then 5 else n | _ \<Rightarrow> 5)"

definition fresh_result :: "nat \<Rightarrow> step_result" where
  "fresh_result idx = \<lparr>st_index = idx, st_sent = [], st_matched = None, st_parsed = None, st_pass = False,
     st_reason = No_Reason, st_deny = None, st_received = [], st_bystanders = []\<rparr>"

definition send_of :: "pdict \<Rightarrow> pdict res" where
  "send_of step = (let s = getd step ''send'' (PDict []) in if truthy s then as_dict s else Inr [])"

text \<open>Building and sending: the result so far, or the final one of a step that fails here.\<close>

definition send_step ::
  "'n surroundings \<Rightarrow> pdict \<Rightarrow> pdict \<Rightarrow> int \<Rightarrow> step_result \<Rightarrow> port \<Rightarrow> (step_result + step_result \<times> port)" where
  "send_step su step profile seq r p =
     (if truthy (pget step ''recv_only'') \<or> (truthy (pget step ''expect_history'') \<and> \<not> truthy (pget step ''send''))
      then Inr (r, p)
      else
        (case andThen (send_of step) (\<lambda>send. build_send_frame send profile seq) of
           Inl x \<Rightarrow> Inl (r\<lparr>st_reason := Build_Failed x\<rparr>)
         | Inr raw \<Rightarrow>
             (let r1 = r\<lparr>st_sent := frame_to_hex raw\<rparr> in
              case send_frame su raw p of
                Inl x \<Rightarrow> Inl (r1\<lparr>st_reason := Send_Failed x\<rparr>)
              | Inr q \<Rightarrow> Inr (r1, q))))"

text \<open>One wait for any frame. The clock plays no part in it.\<close>

fun wait_one :: "'n surroundings \<Rightarrow> turn list \<Rightarrow> port \<Rightarrow> (bytes option \<times> port) option" where
  "wait_one su [] p = None"
| "wait_one su ((now, pieces) # ts) p = Some (recv_frame su pieces p)"

text \<open>
  \<open>run_step\<close>. \<open>started\<close> is the clock when the waiting begins.
\<close>

definition run_step ::
  "'n surroundings \<Rightarrow> reply_rule list option \<Rightarrow> pdict \<Rightarrow> nat \<Rightarrow> pdict \<Rightarrow> int option \<Rightarrow> int \<Rightarrow> turn list \<Rightarrow> port \<Rightarrow> step_outcome" where
  "run_step su rules step idx profile seq started ts p =
     (let limit = step_limit step; e = pget step ''expect''; deadline = started + 1000 * limit in
      case send_step su step profile (case seq of Some n \<Rightarrow> n | None \<Rightarrow> int idx + 1) (fresh_result idx) p of
        Inl r \<Rightarrow> Some (Inr (r, p))
      | Inr (r, q) \<Rightarrow>
          if truthy (pget step ''expect_no_reply'')
          then (case wait_one su ts q of
              None \<Rightarrow> None
            | Some (None, q') \<Rightarrow> Some (Inr (r\<lparr>st_pass := True, st_reason := Silence_Kept\<rparr>, q'))
            | Some (Some f, q') \<Rightarrow>
                Some (Inr (r\<lparr>st_matched := Some (frame_to_hex f), st_parsed := Some (safe_decode su f), st_reason := Silence_Broken\<rparr>, q')))
          else if e = PNone \<and> \<not> truthy (pget step ''expect_history'')
          then
            if truthy (pget step ''recv_only'')
            then (case wait_one su ts q of
                None \<Rightarrow> None
              | Some (None, q') \<Rightarrow> Some (Inr (r\<lparr>st_reason := Wait_Over limit\<rparr>, q'))
              | Some (Some f, q') \<Rightarrow>
                  Some (Inr (r\<lparr>st_matched := Some (frame_to_hex f), st_parsed := Some (safe_decode su f),
                               st_pass := True, st_reason := One_Frame\<rparr>, auto_reply su rules f q')))
            else Some (Inr (r\<lparr>st_pass := True, st_reason := Sent_Only\<rparr>, q))
          else if truthy (pget step ''expect_history'')
          then look_back su rules e limit deadline 0 ts r q
          else await su rules e limit deadline [] ts r q)"

section \<open>Tasks\<close>

text \<open>A rule of the task's own; a rule whose parts are no dicts is refused here, not when it is tried.\<close>

definition reply_rule_from :: "pdict \<Rightarrow> reply_rule res" where
  "reply_rule_from d =
     andThen (as_dict (getd d ''match'' (PDict []))) (\<lambda>m.
     andThen (as_dict (getd d ''reply'' (PDict []))) (\<lambda>r.
       Inr \<lparr>rr_id = text_of (getd d ''id'' (PStr ''reply.custom'')), rr_match = m, rr_reply = r\<rparr>))"

fun reply_rules_from :: "pdict list \<Rightarrow> reply_rule list res" where
  "reply_rules_from [] = Inr []"
| "reply_rules_from (d # ds) = andThen (reply_rule_from d) (\<lambda>r. andThen (reply_rules_from ds) (\<lambda>rs. Inr (r # rs)))"

definition own_rules :: "pv \<Rightarrow> reply_rule list res" where
  "own_rules v = andThen (elements (if truthy v then v else PList [])) (\<lambda>vs.
     andThen (all_dicts vs) reply_rules_from)"

definition step_rules :: "reply_rule list option \<Rightarrow> pdict \<Rightarrow> reply_rule list option res" where
  "step_rules task_rules step =
     (if truthy (pget step ''responders'')
      then andThen (own_rules (pget step ''responders'')) (\<lambda>rs. Inr (Some (responder rs True)))
      else Inr task_rules)"

text \<open>A local message without a running number of its own takes the next one of the task.\<close>

definition numbered_step :: "int \<Rightarrow> pdict \<Rightarrow> (pdict \<times> int) res" where
  "numbered_step k step =
     (if \<not> truthy (pget step ''send'') then Inr (step, k)
      else andThen (as_dict (pget step ''send'')) (\<lambda>send.
        if pget send ''format'' = PStr ''local'' \<and> map_of send ''seq'' = None
        then Inr (AList.update ''send'' (PDict (AList.update ''seq'' (PInt (k + 1)) send)) step, k + 1)
        else Inr (step, k)))"

fun run_steps ::
  "'n surroundings \<Rightarrow> reply_rule list option \<Rightarrow> pdict \<Rightarrow> bool \<Rightarrow> (nat \<Rightarrow> int \<times> turn list) \<Rightarrow> nat \<Rightarrow> int \<Rightarrow> pv list \<Rightarrow> step_result list \<Rightarrow> port
    \<Rightarrow> (step_result list \<times> port) res option" where
  "run_steps su rules profile fail_fast events idx k [] done p = Some (Inr (done, p))"
| "run_steps su rules profile fail_fast events idx k (v # ss) done p =
     (case andThen (as_dict v) (\<lambda>s. andThen (step_rules rules s) (\<lambda>rs.
             andThen (numbered_step k s) (\<lambda>(s', k'). Inr (rs, s', k')))) of
        Inl x \<Rightarrow> Some (Inl x)
      | Inr (rs, s', k') \<Rightarrow>
          (case run_step su rs s' idx profile None (fst (events idx)) (snd (events idx)) p of
             None \<Rightarrow> None
           | Some (Inl x) \<Rightarrow> Some (Inl x)
           | Some (Inr (r, q)) \<Rightarrow>
               if \<not> st_pass r \<and> fail_fast then Some (Inr (done @ [r], q))
               else run_steps su rules profile fail_fast events (idx + 1) k' ss (done @ [r]) q))"

record task_report =
  tr_steps :: "step_result list"
  tr_total :: nat
  tr_pass :: nat
  tr_fail :: nat
  tr_verdict :: bool
  tr_frames :: "(nat \<times> nat) option"

definition frames_between :: "journal option \<Rightarrow> journal option \<Rightarrow> (nat \<times> nat) option" where
  "frames_between before after =
     (case (before, after) of
        (Some b, Some a) \<Rightarrow> if jr_seq b < jr_seq a then Some (jr_seq b + 1, jr_seq a) else None
      | _ \<Rightarrow> None)"

definition merged :: "pdict \<Rightarrow> pdict \<Rightarrow> pdict" where
  "merged d ov = fold (\<lambda>(k, v) m. AList.update k v m) ov d"

definition task_profile :: "pdict \<Rightarrow> pdict \<Rightarrow> pdict res" where
  "task_profile task profile =
     (if profile \<noteq> [] \<and> truthy (pget task ''profile_overrides'')
      then andThen (as_dict (pget task ''profile_overrides'')) (\<lambda>ov. Inr (merged profile ov)) else Inr profile)"

text \<open>
  \<open>execute_task\<close> on a port that is open already: the run's mark is set for its duration. The profile
  is what \<open>load_profile\<close> reads.
\<close>

definition execute_task ::
  "'n surroundings \<Rightarrow> pdict \<Rightarrow> pdict \<Rightarrow> string \<Rightarrow> (nat \<Rightarrow> int \<times> turn list) \<Rightarrow> port \<Rightarrow> (task_report \<times> port) res option" where
  "execute_task su task profile run_id events p =
     (case andThen (if truthy (getd task ''enable_responder'' (PBool True))
                    then andThen (own_rules (getd task ''responders'' (PList []))) (\<lambda>rs. Inr (Some (responder rs True)))
                    else Inr None) (\<lambda>rules.
           andThen (task_profile task profile) (\<lambda>prof.
           andThen (elements (getd task ''steps'' (PList []))) (\<lambda>steps. Inr (rules, prof, steps)))) of
        Inl x \<Rightarrow> Some (Inl x)
      | Inr (rules, prof, steps) \<Rightarrow>
          map_option (\<lambda>out. andThen out (\<lambda>(rs, q).
              let after = q\<lparr>pt_journal := map_option leave_scope (pt_journal q)\<rparr>;
                  failed = length (filter (\<lambda>r. \<not> st_pass r) rs)
              in Inr (\<lparr>tr_steps = rs, tr_total = length rs, tr_pass = length (filter st_pass rs), tr_fail = failed,
                       tr_verdict = (failed = 0 \<and> rs \<noteq> []),
                       tr_frames = frames_between (pt_journal p) (pt_journal after)\<rparr>, after)))
            (run_steps su rules prof (truthy (getd task ''fail_fast'' (PBool True))) events 0 0 steps []
               (p\<lparr>pt_journal := map_option (enter_scope (Some run_id, Some ''step_send'')) (pt_journal p)\<rparr>)))"

section \<open>A single step\<close>

datatype pairing = No_Pairing | Auto_Expect pdict pdict pv | No_Expectation

text \<open>
  \<open>run_single_step\<close>: the expectation and time limit it settles on. The limit that a rule's tier names is
  whole seconds; \<open>PNone\<close> is an argument that is not given.
\<close>

definition settle :: "pdict \<Rightarrow> pdict \<Rightarrow> pv \<Rightarrow> pv \<Rightarrow> bool \<Rightarrow> bool \<Rightarrow> bool \<Rightarrow> (pv \<times> pv \<times> pairing) res" where
  "settle doc send expect limit expect_no_reply recv_only auto_expect =
     (let dflt = (\<lambda>t. if t = PNone then PInt 5 else t) in
      if auto_expect \<and> send \<noteq> [] \<and> expect = PNone \<and> \<not> recv_only \<and> \<not> expect_no_reply
      then
        andThen (default_expect doc (pget send ''afn'') (pget send ''fn'')) (\<lambda>found.
          case found of
            Some (e, rule) \<Rightarrow>
              andThen (timeout_for doc (pget send ''afn'') (pget send ''fn'')) (\<lambda>(tier, secs).
                Inr (PDict e, (if limit = PNone then secs else limit), Auto_Expect rule e secs))
          | None \<Rightarrow>
              andThen (is_report_afn doc (pget send ''afn'')) (\<lambda>report.
                Inr (PNone, dflt limit, if report then No_Expectation else No_Pairing)))
      else Inr (expect, dflt limit, No_Pairing))"

definition run_single_step ::
  "'n surroundings \<Rightarrow> pdict \<Rightarrow> pdict \<Rightarrow> pdict \<Rightarrow> pv \<Rightarrow> pv \<Rightarrow> bool \<Rightarrow> bool \<Rightarrow> bool \<Rightarrow> bool \<Rightarrow> int option \<Rightarrow> string \<Rightarrow> int \<Rightarrow> turn list \<Rightarrow> port
    \<Rightarrow> (step_result \<times> pairing \<times> (nat \<times> nat) option \<times> port) res option" where
  "run_single_step su doc send profile expect limit expect_no_reply recv_only enable_responder auto_expect seq run_id started ts p =
     (if send = [] \<and> \<not> recv_only \<or> send \<noteq> [] \<and> recv_only \<or> truthy (pget send ''raw'') then Some (Inl ValueError)
      else
        (case settle doc send expect limit expect_no_reply recv_only auto_expect of
           Inl x \<Rightarrow> Some (Inl x)
         | Inr (e, t, pairing) \<Rightarrow>
             let step = [(''send'', PDict send), (''expect'', e), (''expect_timeout'', t),
                         (''expect_no_reply'', PBool expect_no_reply), (''recv_only'', PBool recv_only)] in
             map_option (\<lambda>out. andThen out (\<lambda>(r, q).
                 let after = q\<lparr>pt_journal := map_option leave_scope (pt_journal q)\<rparr>
                 in Inr (r, pairing, frames_between (pt_journal p) (pt_journal after), after)))
               (run_step su (if enable_responder then Some (responder [] True) else None) step 0 profile seq started ts
                  (p\<lparr>pt_journal := map_option (enter_scope (Some run_id, Some ''manual_send'')) (pt_journal p)\<rparr>))))"

section \<open>Pieces\<close>

lemma scan_from_append: "scan_from buf i = Some r \<Longrightarrow> scan_from (buf @ d) i = Some r"
proof (induction buf i rule: scan_from.induct)
  case (1 buf i)
  have i: "i < length buf" using "1.prems" by (subst (asm) scan_from.simps) (auto simp: Let_def split: if_splits)
  then have at: "(buf @ d) ! i = buf ! i" by (simp add: nth_append)
  show ?case
  proof (cases "buf ! i = 0x68")
    case False
    then show ?thesis using 1 i at by (subst scan_from.simps, subst (asm) scan_from.simps) (simp add: Let_def)
  next
    case True
    have n: "i + 4 \<le> length buf" using "1.prems" True i by (subst (asm) scan_from.simps) (auto simp: Let_def split: if_splits)
    then have at2: "(buf @ d) ! (i + 1) = buf ! (i + 1)" "(buf @ d) ! (i + 2) = buf ! (i + 2)"
      by (simp_all add: nth_append)
    define k where "k = pair16 (buf ! (i + 1)) (buf ! (i + 2))"
    show ?thesis
    proof (cases "k < 10")
      case small: True
      then show ?thesis
        using "1.IH"(2) "1.prems" True i n at at2
        by (subst scan_from.simps, subst (asm) scan_from.simps) (simp add: Let_def k_def)
    next
      case False
      have f: "i + k \<le> length buf" using "1.prems" True i n False
        by (subst (asm) scan_from.simps) (auto simp: Let_def k_def split: if_splits)
      define c where "c = py_slice buf i (i + k)"
      define ok where "ok \<longleftrightarrow> c ! 3 \<noteq> 0x68 \<and> last c = 0x16
        \<and> byte_sum (py_slice c 3 (k - 2)) mod 256 = unat (c ! (k - 2))"
      have cut: "py_slice (buf @ d) i (i + k) = c" using f by (simp add: c_def py_slice_def)
      have nl: "\<not> length buf \<le> i" "\<not> length buf < i + 4" "\<not> length buf < i + k"
        "\<not> length (buf @ d) \<le> i" "\<not> length (buf @ d) < i + 4" "\<not> length (buf @ d) < i + k"
        using i n f by simp_all
      have one: "scan_from buf i = (if ok then Some (c, i + k) else scan_from buf (i + 1))"
        by (subst scan_from.simps)
          (simp only: Let_def True nl False k_def [symmetric] c_def [symmetric] ok_def [symmetric] if_False simp_thms)
      have two: "scan_from (buf @ d) i = (if ok then Some (c, i + k) else scan_from (buf @ d) (i + 1))"
        by (subst scan_from.simps)
          (simp only: Let_def at at2 True nl False k_def [symmetric] cut ok_def [symmetric] if_False simp_thms)
      have "scan_from (buf @ d) (i + 1) = Some r" if "\<not> ok" "scan_from buf (i + 1) = Some r"
        using "1.IH"(3) [OF refl, of k c] that True False nl unfolding ok_def c_def k_def by blast
      then show ?thesis using "1.prems" unfolding one two by (cases ok) simp_all
    qed
  qed
qed

lemma cut_all_append:
  "cut_all (buf @ d) = (let (fs, rest) = cut_all buf; (gs, rest') = cut_all (rest @ d) in (fs @ gs, rest'))"
proof (induction buf rule: cut_all.induct)
  case (1 buf)
  show ?case
  proof (cases "scan_frame buf")
    case None
    then have "cut_all buf = ([], buf)" by (subst cut_all.simps) simp
    then show ?thesis by simp
  next
    case (Some x)
    obtain f n where x: "x = (f, n)" by (cases x)
    have n: "n \<le> length buf" using scan_from_consumes Some x by (simp add: scan_frame_def)
    have longer: "scan_frame (buf @ d) = Some (f, n)"
      using scan_from_append Some x by (simp add: scan_frame_def)
    have a: "cut_all (buf @ d) = (let (fs, rest) = cut_all (drop n buf @ d) in (f # fs, rest))"
      using n by (subst cut_all.simps) (simp add: longer)
    have b: "cut_all buf = (let (fs, rest) = cut_all (drop n buf) in (f # fs, rest))"
      by (subst cut_all.simps) (simp add: Some x)
    show ?thesis using 1 [OF Some x [symmetric]] unfolding a b by (simp add: Let_def split: prod.splits)
  qed
qed

lemma cut_all_done: "cut_all buf = (fs, rest) \<Longrightarrow> scan_frame rest = None"
proof (induction buf arbitrary: fs rule: cut_all.induct)
  case (1 buf)
  show ?case
  proof (cases "scan_frame buf")
    case None
    then show ?thesis using "1.prems" by (subst (asm) cut_all.simps) auto
  next
    case (Some x)
    obtain f n where x: "x = (f, n)" by (cases x)
    have "cut_all buf = (let (gs, rest) = cut_all (drop n buf) in (f # gs, rest))"
      by (subst cut_all.simps) (simp add: Some x)
    then show ?thesis using "1.prems" 1(1) [OF Some x [symmetric]] by (auto split: prod.splits)
  qed
qed

text \<open>What a frame's arrival does not look at.\<close>

lemma send_frame_buf: "send_frame su raw (p\<lparr>pt_buf := b\<rparr>) = map_sum id (\<lambda>q. q\<lparr>pt_buf := b\<rparr>) (send_frame su raw p)"
  by (simp add: send_frame_def)

lemma arrive_buf: "arrive su f (p\<lparr>pt_buf := b\<rparr>) = (arrive su f p)\<lparr>pt_buf := b\<rparr>"
  by (auto simp: arrive_def resident_answer_def send_frame_def Let_def split: option.splits sum.splits)

lemma arrive_all_buf: "fold (arrive su) fs (p\<lparr>pt_buf := b\<rparr>) = (fold (arrive su) fs p)\<lparr>pt_buf := b\<rparr>"
  by (induction fs arbitrary: p) (simp_all add: arrive_buf)

definition drained :: "port \<Rightarrow> bool" where
  "drained p = (scan_frame (pt_buf p) = None)"

lemma rx_data_drained: "drained p \<Longrightarrow> drained (rx_data su d p)"
  by (auto simp: rx_data_def drained_def Let_def dest: cut_all_done split: prod.splits)

lemma cut_all_none: "scan_frame buf = None \<Longrightarrow> cut_all buf = ([], buf)"
  by (subst cut_all.simps) simp

lemma rx_data_append:
  assumes "drained p"
  shows "rx_data su (a @ b) p = rx_data su b (rx_data su a p)"
proof -
  obtain fs rest where c: "cut_all (pt_buf p @ a) = (fs, rest)" by (cases "cut_all (pt_buf p @ a)")
  obtain gs rest' where e: "cut_all (rest @ b) = (gs, rest')" by (cases "cut_all (rest @ b)")
  have j: "cut_all (pt_buf p @ a @ b) = (fs @ gs, rest')"
    using cut_all_append [of "pt_buf p @ a" b] c e by simp
  have u: "p\<lparr>pt_buf := pt_buf p\<rparr> = p" by simp
  show ?thesis
  proof (cases "a = [] \<or> b = []")
    case True
    then show ?thesis by (auto simp: rx_data_def)
  next
    case False
    then show ?thesis using c e j by (simp add: rx_data_def arrive_all_buf)
  qed
qed

text \<open>C34. However the driver splits the bytes into pieces, the port ends in the same state as if
they had come at once: the same frames in the queue, the history and the journal, the same answers
sent, the same bytes left in the buffer.\<close>

theorem pieces_irrelevant:
  assumes "drained p"
  shows "fold (rx_data su) pieces p = rx_data su (concat pieces) p"
  using assms
proof (induction pieces arbitrary: p)
  case Nil
  then show ?case by (simp add: rx_data_def)
next
  case (Cons a pieces)
  then show ?case by (simp add: rx_data_append rx_data_drained)
qed

definition quiet_port :: port where
  "quiet_port = \<lparr>pt_open = True, pt_buf = [], pt_queue = [], pt_history = [], pt_sent = [],
     pt_journal = Some (new_journal 5000), pt_resident = None\<rparr>"

definition plain_surroundings :: "int surroundings" where
  "plain_surroundings = \<lparr>su_dec = decode_frame ([] :: string adapter list) (\<lambda>x. ([], [])), su_float = as_int,
     su_clock = \<lparr>ck_year = 26, ck_month = 9, ck_day = 5, ck_hour = 1, ck_minute = 2, ck_second = 3\<rparr>\<rparr>"

lemma quiet_drained: "drained quiet_port"
  by (simp add: drained_def quiet_port_def scan_frame_def scan_from.simps)

lemma pieces_irrelevant_witness:
  "fold (rx_data plain_surroundings) [[0xFF, 0x68], take 3 (drop 1 query_frame), [], drop 4 query_frame] quiet_port
    = rx_data plain_surroundings (0xFF # query_frame) quiet_port"
  using pieces_irrelevant [OF quiet_drained, of plain_surroundings "[[0xFF, 0x68], take 3 (drop 1 query_frame), [], drop 4 query_frame]"]
  by (simp add: query_frame_def)

section \<open>Waiting for a reply\<close>

text \<open>
  The frames that the waiting takes out of the queue until a deadline, from what is queued, what is
  left in the buffer, and the turns.
\<close>

fun heard :: "int \<Rightarrow> turn list \<Rightarrow> bytes list \<Rightarrow> bytes \<Rightarrow> bytes list" where
  "heard deadline [] queued buf = []"
| "heard deadline ((now, pieces) # ts) queued buf =
     (if deadline \<le> now then []
      else let (fs, rest) = cut_all (buf @ concat pieces) in
        (case queued @ fs of [] \<Rightarrow> heard deadline ts [] rest | f # gs \<Rightarrow> f # heard deadline ts gs rest))"

definition refusal_of :: "'n surroundings \<Rightarrow> bytes \<Rightarrow> nat option" where
  "refusal_of su f = Option.bind (su_dec su f) deny_info"

definition confirmation_expected :: "pv \<Rightarrow> bool" where
  "confirmation_expected e = (case e of PDict d \<Rightarrow> py_eq (PInt 0) (pget d ''afn'') | _ \<Rightarrow> False)"

definition accepts :: "'n surroundings \<Rightarrow> pv \<Rightarrow> bytes \<Rightarrow> bool" where
  "accepts su e f = (case match_value su e f of Inr (m, d) \<Rightarrow> m = Matched | Inl _ \<Rightarrow> False)"

text \<open>The frames that end the waiting, and those of them that make the step pass.\<close>

definition decides :: "'n surroundings \<Rightarrow> pv \<Rightarrow> bytes \<Rightarrow> bool" where
  "decides su e f = (accepts su e f \<or> (refusal_of su f \<noteq> None \<and> confirmation_expected e))"

definition satisfies :: "'n surroundings \<Rightarrow> pv \<Rightarrow> bytes \<Rightarrow> bool" where
  "satisfies su e f = (accepts su e f \<and> refusal_of su f = None)"

lemma denied_safe_decode: "denied (safe_decode su f) = refusal_of su f"
  by (simp add: denied_def safe_decode_def refusal_of_def split: option.splits)

lemma judge_verdict:
  "judge su e f r = Inr (Verdict r') \<Longrightarrow>
     decides su e f \<and> (st_pass r' \<longleftrightarrow> satisfies su e f) \<and> st_matched r' = Some (frame_to_hex f)
     \<and> st_received r' = st_received r \<and> st_sent r' = st_sent r
     \<and> (\<forall>x. st_reason r' \<noteq> Build_Failed x \<and> st_reason r' \<noteq> Send_Failed x)"
  by (auto simp: judge_def Let_def andThen_def denied_safe_decode decides_def satisfies_def accepts_def as_dict_def
      confirmation_expected_def split: sum.splits option.splits pv.splits if_splits)

lemma judge_passed_by:
  "judge su e f r = Inr (Passed_By r' dec) \<Longrightarrow>
     \<not> decides su e f \<and> st_pass r' = st_pass r \<and> st_received r' = st_received r @ [frame_to_hex f]
     \<and> st_sent r' = st_sent r \<and> st_reason r' = st_reason r"
  by (auto simp: judge_def Let_def andThen_def denied_safe_decode decides_def accepts_def as_dict_def
      confirmation_expected_def split: sum.splits option.splits pv.splits if_splits)

lemma send_frame_keeps:
  "send_frame su raw p = Inr q \<Longrightarrow> pt_queue q = pt_queue p \<and> pt_buf q = pt_buf p"
  by (auto simp: send_frame_def split: if_splits)

lemma auto_reply_keeps: "pt_queue (auto_reply su rules f p) = pt_queue p \<and> pt_buf (auto_reply su rules f p) = pt_buf p"
  by (auto simp: auto_reply_def in_scope_def andThen_def split: option.splits sum.splits dest: send_frame_keeps)

lemma resident_answer_keeps: "pt_queue (resident_answer su f p) = pt_queue p"
  by (auto simp: resident_answer_def split: option.splits sum.splits dest: send_frame_keeps)

lemma arrive_queue: "pt_queue (fold (arrive su) fs p) = pt_queue p @ fs"
  by (induction fs arbitrary: p) (simp_all add: arrive_def Let_def resident_answer_keeps)

lemma rx_data_parts:
  assumes "drained p" and c: "cut_all (pt_buf p @ d) = (fs, rest)"
  shows "pt_queue (rx_data su d p) = pt_queue p @ fs \<and> pt_buf (rx_data su d p) = rest"
proof (cases "d = []")
  case True
  then show ?thesis using assms cut_all_none [of "pt_buf p"] by (auto simp: rx_data_def drained_def)
next
  case False
  then show ?thesis by (simp add: rx_data_def c arrive_queue)
qed

lemma recv_frame_parts:
  assumes "drained p" and "cut_all (pt_buf p @ concat pieces) = (fs, rest)"
  obtains q where "pt_buf q = rest" "drained q"
    "pt_queue p @ fs = [] \<Longrightarrow> recv_frame su pieces p = (None, q) \<and> pt_queue q = []"
    "\<And>f gs. pt_queue p @ fs = f # gs \<Longrightarrow> recv_frame su pieces p = (Some f, q) \<and> pt_queue q = gs"
proof -
  let ?q = "fold (rx_data su) pieces p"
  have q: "?q = rx_data su (concat pieces) p"
  proof -
    have "drained p \<Longrightarrow> fold (rx_data su) pieces p = rx_data su (concat pieces) p" for p
    proof (induction pieces arbitrary: p)
      case (Cons a pieces)
      then show ?case by (simp add: rx_data_append rx_data_drained)
    qed (simp add: rx_data_def)
    then show ?thesis using assms(1) .
  qed
  have d: "drained ?q" using rx_data_drained assms(1) q by metis
  have parts: "pt_queue ?q = pt_queue p @ fs" "pt_buf ?q = rest"
    using rx_data_parts [OF assms, of su] unfolding q by blast+
  show ?thesis
  proof (cases "pt_queue p @ fs")
    case Nil
    then have "recv_frame su pieces p = (None, ?q)" "pt_queue ?q = []"
      using parts(1) by (simp_all add: recv_frame_def)
    then show ?thesis using that [of ?q] parts(2) d Nil by simp
  next
    case (Cons f gs)
    have "pt_queue ?q = f # gs" using parts(1) Cons by metis
    then have "recv_frame su pieces p = (Some f, ?q\<lparr>pt_queue := gs\<rparr>)" by (simp add: recv_frame_def)
    moreover have "drained (?q\<lparr>pt_queue := gs\<rparr>)" using d by (simp add: drained_def)
    ultimately show ?thesis using that [of "?q\<lparr>pt_queue := gs\<rparr>"] parts(2) Cons by simp
  qed
qed

lemma await_verdict:
  assumes "drained p" and "await su rules e limit deadline others ts r p = Some (Inr (r', q))" and "\<not> st_pass r"
    and "\<forall>x. st_reason r \<noteq> Build_Failed x \<and> st_reason r \<noteq> Send_Failed x"
  shows "let fs = heard deadline ts (pt_queue p) (pt_buf p) in
     (st_pass r' \<longleftrightarrow> (case List.find (decides su e) fs of Some f \<Rightarrow> satisfies su e f | None \<Rightarrow> False))
     \<and> st_received r' = st_received r @ map frame_to_hex (takeWhile (\<lambda>f. \<not> decides su e f) fs)
     \<and> (st_pass r' \<longrightarrow> st_matched r' = map_option frame_to_hex (List.find (decides su e) fs))
     \<and> (\<forall>x. st_reason r' \<noteq> Build_Failed x \<and> st_reason r' \<noteq> Send_Failed x)"
  using assms
proof (induction ts arbitrary: p r others)
  case (Cons t ts)
  obtain now pieces where t: "t = (now, pieces)" by (cases t)
  show ?case
  proof (cases "deadline \<le> now")
    case True
    then show ?thesis using Cons.prems by (auto simp: t)
  next
    case False
    obtain fs rest where c: "cut_all (pt_buf p @ concat pieces) = (fs, rest)" by (cases "cut_all (pt_buf p @ concat pieces)")
    obtain w where w: "pt_buf w = rest" "drained w"
      "pt_queue p @ fs = [] \<Longrightarrow> recv_frame su pieces p = (None, w) \<and> pt_queue w = []"
      "\<And>f gs. pt_queue p @ fs = f # gs \<Longrightarrow> recv_frame su pieces p = (Some f, w) \<and> pt_queue w = gs"
      using recv_frame_parts [OF Cons.prems(1) c] by metis
    show ?thesis
    proof (cases "pt_queue p @ fs")
      case Nil
      then show ?thesis using Cons.IH [OF w(2), of others r] Cons.prems False c w by (simp add: t)
    next
      case (Cons f gs)
      note got = w(4) [OF Cons]
      have h: "heard deadline (t # ts) (pt_queue p) (pt_buf p) = f # heard deadline ts gs rest"
        using False c Cons by (simp add: t)
      have n: "drained (auto_reply su rules f w)" "pt_queue (auto_reply su rules f w) = gs" "pt_buf (auto_reply su rules f w) = rest"
        using auto_reply_keeps [of su rules f w] got w by (simp_all add: drained_def)
      consider (verdict) r1 where "judge su e f r = Inr (Verdict r1)" "r1 = r'"
        | (passed) r1 dec where "judge su e f r = Inr (Passed_By r1 dec)"
            "await su rules e limit deadline (others @ [bystander f dec]) ts r1 (auto_reply su rules f w) = Some (Inr (r', q))"
        using Cons.prems(2) False got by (auto simp: t split: sum.splits judgement.splits)
      then show ?thesis
      proof cases
        case verdict
        then show ?thesis using judge_verdict [of su e f r r1] unfolding h by (simp add: Let_def)
      next
        case passed
        note j = judge_passed_by [OF passed(1)]
        then have "\<not> st_pass r1" "\<forall>x. st_reason r1 \<noteq> Build_Failed x \<and> st_reason r1 \<noteq> Send_Failed x"
          using Cons.prems(3,4) by simp_all
        from Cons.IH [OF n(1) passed(2) this] show ?thesis using j n unfolding h by (simp add: Let_def)
      qed
    qed
  qed
qed simp

lemma send_step_parts:
  assumes "send_step su step profile n (fresh_result idx) p = x"
  shows "case x of
      Inl r \<Rightarrow> \<not> st_pass r \<and> (\<exists>y. st_reason r = Build_Failed y \<or> st_reason r = Send_Failed y)
    | Inr (r, q) \<Rightarrow> \<not> st_pass r \<and> st_reason r = No_Reason \<and> st_received r = [] \<and> pt_queue q = pt_queue p \<and> pt_buf q = pt_buf p"
  using assms
  by (auto simp: send_step_def fresh_result_def Let_def dest: send_frame_keeps split: if_splits sum.splits)

text \<open>C33. A step that expects a reply passes exactly if it could send and the first frame that decides
within the time limit satisfies: a frame decides if it fits the expectation or is a refusal where a
confirmation is expected, and satisfies if it fits and is no refusal. The frames before it are set
aside, in order; of a step that passes the matched frame is the deciding one.\<close>

theorem reply_verdict:
  assumes "drained p" and "pget step ''expect'' = PDict d"
    and "\<not> truthy (pget step ''expect_history'')" and "\<not> truthy (pget step ''expect_no_reply'')"
    and "run_step su rules step idx profile seq started ts p = Some (Inr (r, q))"
  shows "let fs = heard (started + 1000 * step_limit step) ts (pt_queue p) (pt_buf p);
             sent = (\<forall>x. st_reason r \<noteq> Build_Failed x \<and> st_reason r \<noteq> Send_Failed x);
             first = List.find (decides su (PDict d)) fs in
     (st_pass r \<longleftrightarrow> sent \<and> (case first of Some f \<Rightarrow> satisfies su (PDict d) f | None \<Rightarrow> False))
     \<and> (sent \<longrightarrow> st_received r = map frame_to_hex (takeWhile (\<lambda>f. \<not> decides su (PDict d) f) fs))
     \<and> (st_pass r \<longrightarrow> st_matched r = map_option frame_to_hex first)"
proof -
  define n where "n = (case seq of Some n \<Rightarrow> n | None \<Rightarrow> int idx + 1)"
  obtain x where x: "send_step su step profile n (fresh_result idx) p = x" by blast
  note parts = send_step_parts [OF x]
  show ?thesis
  proof (cases x)
    case (Inl r0)
    then have "r0 = r" using assms(5) x by (simp add: run_step_def n_def)
    then show ?thesis using parts Inl by (auto simp: Let_def)
  next
    case (Inr y)
    obtain r0 p0 where y: "y = (r0, p0)" by (cases y)
    have p0: "\<not> st_pass r0" "st_reason r0 = No_Reason" "st_received r0 = []" "pt_queue p0 = pt_queue p" "pt_buf p0 = pt_buf p"
      using parts by (simp_all add: Inr y)
    have "await su rules (PDict d) (step_limit step) (started + 1000 * step_limit step) [] ts r0 p0 = Some (Inr (r, q))"
      using assms x by (simp add: run_step_def n_def Inr y Let_def)
    from await_verdict [OF _ this] show ?thesis
      using p0 assms(1) by (simp add: drained_def Let_def)
  qed
qed

section \<open>Every step ends\<close>

lemma await_returns:
  "(now, pieces) \<in> set ts \<Longrightarrow> deadline \<le> now \<Longrightarrow> await su rules e limit deadline others ts r p \<noteq> None"
proof (induction ts arbitrary: r p others)
  case (Cons t ts)
  then show ?case by (cases t) (auto split: prod.splits option.splits sum.splits judgement.splits)
qed simp

lemma look_back_returns:
  "(now, pieces) \<in> set ts \<Longrightarrow> deadline \<le> now \<Longrightarrow> look_back su rules e limit deadline seen ts r p \<noteq> None"
proof (induction ts arbitrary: p seen)
  case (Cons t ts)
  then show ?case by (cases t) (auto split: option.splits sum.splits)
qed simp

lemma wait_one_returns: "ts \<noteq> [] \<Longrightarrow> wait_one su ts p \<noteq> None"
  by (cases ts) (auto simp: split_paired_all)

lemma run_step_ends:
  assumes "(now, pieces) \<in> set ts" and "started + 1000 * step_limit step \<le> now"
  shows "run_step su rules step idx profile seq started ts p \<noteq> None"
proof -
  have n: "ts \<noteq> []" using assms(1) by auto
  show ?thesis
    unfolding run_step_def Let_def
    by (simp add: wait_one_returns [OF n] await_returns [OF assms] look_back_returns [OF assms]
        split: sum.split option.split del: not_None_eq)
qed

lemma numbered_limit: "numbered_step k s = Inr (s', k') \<Longrightarrow> step_limit s' = step_limit s"
  by (auto simp: numbered_step_def andThen_Inr step_limit_def getd_def update_conv split: if_splits)

lemma run_steps_ends:
  assumes "\<And>i s. i < length ss \<Longrightarrow> ss ! i = PDict s \<Longrightarrow>
      \<exists>(now, pieces) \<in> set (snd (events (idx + i))). fst (events (idx + i)) + 1000 * step_limit s \<le> now"
  shows "run_steps su rules profile ff events idx k ss done p \<noteq> None"
  using assms
proof (induction ss arbitrary: idx k "done" p)
  case (Cons v ss)
  show ?case
  proof (cases "andThen (as_dict v) (\<lambda>s. andThen (step_rules rules s) (\<lambda>rs.
             andThen (numbered_step k s) (\<lambda>(s', k'). Inr (rs, s', k'))))")
    case (Inr x)
    then obtain s rs s' k' where s: "v = PDict s" "x = (rs, s', k')" "numbered_step k s = Inr (s', k')"
      by (auto simp: andThen_Inr as_dict_def split: pv.splits)
    obtain now pieces where t: "(now, pieces) \<in> set (snd (events idx))" "fst (events idx) + 1000 * step_limit s \<le> now"
      using Cons.prems [of 0 s] s(1) by auto
    have one: "run_step su rs s' idx profile None (fst (events idx)) (snd (events idx)) p \<noteq> None"
      using run_step_ends [OF t(1), of "fst (events idx)" s'] t(2) numbered_limit [OF s(3)] by simp
    have "run_steps su rules profile ff events (idx + 1) k' ss (done @ [r]) q \<noteq> None" for r q
      using Cons.prems [of "Suc i" for i] by (intro Cons.IH) simp
    then show ?thesis using Inr one by (auto simp: s(2) split: option.splits sum.splits)
  qed simp
qed simp

definition nth_limit :: "pdict \<Rightarrow> nat \<Rightarrow> int" where
  "nth_limit task i = (case getd task ''steps'' (PList []) of
     PList vs \<Rightarrow> if i < length vs then (case vs ! i of PDict d \<Rightarrow> step_limit d | _ \<Rightarrow> 5) else 5 | _ \<Rightarrow> 5)"

text \<open>C35. A task always comes to an end: if during each of its steps the clock reaches the step's time
limit at some turn, the execution has a result, a report or an exception.\<close>

theorem task_ends:
  assumes "\<forall>i. \<exists>t \<in> set (snd (events i)). fst (events i) + 1000 * nth_limit task i \<le> fst t"
  shows "execute_task su task profile run_id events p \<noteq> None"
proof -
  have "run_steps su rules prof ff events 0 0 vs [] q \<noteq> None"
    if "elements (getd task ''steps'' (PList [])) = Inr vs" for rules prof ff vs q
  proof (rule run_steps_ends)
    fix i s assume i: "i < length vs" "vs ! i = PDict s"
    then have "getd task ''steps'' (PList []) = PList vs"
      using that by (cases "getd task ''steps'' (PList [])") (auto split: prod.splits)
    then have "nth_limit task i = step_limit s" using i by (simp add: nth_limit_def)
    moreover obtain t where "t \<in> set (snd (events i))" "fst (events i) + 1000 * nth_limit task i \<le> fst t"
      using assms by blast
    ultimately show "\<exists>(now, pieces) \<in> set (snd (events (0 + i))). fst (events (0 + i)) + 1000 * step_limit s \<le> now"
      by (intro bexI [of _ t]) (simp_all add: split_beta)
  qed
  then show ?thesis by (auto simp: execute_task_def andThen_Inr split: sum.splits)
qed

definition waiting_task :: pdict where
  "waiting_task = [(''steps'', PList [PDict [(''recv_only'', PBool True), (''expect'', PDict [(''afn'', PInt 3)]),
     (''expect_timeout'', PInt 2)]])]"

lemma task_ends_witness:
  "execute_task plain_surroundings waiting_task [] ''run-1'' (\<lambda>i. (0, [(0, [[0x68]]), (6000, [])])) quiet_port \<noteq> None"
proof -
  have "nth_limit waiting_task i \<le> 6" for i
    by (simp add: nth_limit_def waiting_task_def getd_def step_limit_def)
  then have "\<forall>i. \<exists>t \<in> set (snd ((\<lambda>i::nat. (0::int, [(0::int, [[0x68 :: byte]]), (6000, [])])) i)).
      fst ((\<lambda>i::nat. (0::int, [(0::int, [[0x68 :: byte]]), (6000, [])])) i) + 1000 * nth_limit waiting_task i \<le> fst t"
    by simp
  from task_ends [OF this] show ?thesis by simp
qed

section \<open>The report of a task\<close>

lemma run_step_index:
  "run_step su rules step idx profile seq started ts p = Some (Inr (r, q)) \<Longrightarrow> st_index r = idx"
proof -
  have a: "st_index r' = st_index r0" if "await su rules e l d others ts r0 p0 = Some (Inr (r', q'))" for e l d others r0 p0 r' q'
    using that
  proof (induction ts arbitrary: r0 p0 others)
    case (Cons t ts)
    have j: "judge su e f r2 = Inr (Verdict r1) \<Longrightarrow> st_index r1 = st_index r2"
      "judge su e f r2 = Inr (Passed_By r1 dec) \<Longrightarrow> st_index r1 = st_index r2" for f r1 r2 dec
      by (auto simp: judge_def Let_def andThen_Inr split: if_splits option.splits)
    show ?case using Cons.prems
      by (cases t) (auto split: if_splits prod.splits option.splits sum.splits judgement.splits dest!: j Cons.IH)
  qed simp
  have b: "st_index r' = st_index r0" if "look_back su rules e l d seen ts r0 p0 = Some (Inr (r', q'))" for e l d seen r0 p0 r' q'
    using that by (induction ts arbitrary: p0 seen) (auto split: if_splits option.splits sum.splits)
  have c: "case send_step su step profile n (fresh_result idx) p of Inl r' \<Rightarrow> st_index r' = idx | Inr (r', q') \<Rightarrow> st_index r' = idx" for n
    by (auto simp: send_step_def fresh_result_def Let_def split: sum.splits)
  assume "run_step su rules step idx profile seq started ts p = Some (Inr (r, q))"
  then show ?thesis
    using c [of "case seq of Some n \<Rightarrow> n | None \<Rightarrow> int idx + 1"]
    by (auto simp: run_step_def Let_def dest!: a b split: sum.splits if_splits option.splits)
qed

lemma run_steps_shape:
  "run_steps su rules profile ff events idx k ss done p = Some (Inr (rs, q)) \<Longrightarrow>
     \<exists>new. rs = done @ new \<and> length new \<le> length ss \<and> map st_index new = [idx..<idx + length new]
       \<and> (length new < length ss \<longrightarrow> ff \<and> new \<noteq> [] \<and> \<not> st_pass (last new))"
proof (induction ss arbitrary: idx k "done" p)
  case (Cons v ss)
  obtain rules' s' k' r p' where one: "run_step su rules' s' idx profile None (fst (events idx)) (snd (events idx)) p = Some (Inr (r, p'))"
    and rest: "(if \<not> st_pass r \<and> ff then Some (Inr (done @ [r], p'))
      else run_steps su rules profile ff events (idx + 1) k' ss (done @ [r]) p') = Some (Inr (rs, q))"
    using Cons.prems by (auto split: sum.splits option.splits)
  have i: "st_index r = idx" using run_step_index [OF one] .
  show ?case
  proof (cases "\<not> st_pass r \<and> ff")
    case True
    then show ?thesis using rest i by (intro exI [of _ "[r]"]) auto
  next
    case False
    then obtain new where n: "rs = (done @ [r]) @ new" "length new \<le> length ss"
      "map st_index new = [idx + 1..<idx + 1 + length new]"
      "length new < length ss \<longrightarrow> ff \<and> new \<noteq> [] \<and> \<not> st_pass (last new)"
      using Cons.IH [of "idx + 1" k' "done @ [r]" p'] rest by (metis (no_types, lifting))
    have "[idx..<idx + length (r # new)] = idx # [idx + 1..<idx + 1 + length new]"
      by (subst upt_conv_Cons) simp_all
    then show ?thesis using n i by (intro exI [of _ "r # new"]) simp
  qed
qed simp

lemma execute_task_steps:
  assumes "execute_task su task profile run_id events p = Some (Inr (rep, q))"
  obtains rules prof vs rs q0 where "elements (getd task ''steps'' (PList [])) = Inr vs"
    "run_steps su rules prof (truthy (getd task ''fail_fast'' (PBool True))) events 0 0 vs []
       (p\<lparr>pt_journal := map_option (enter_scope (Some run_id, Some ''step_send'')) (pt_journal p)\<rparr>) = Some (Inr (rs, q0))"
    "q = q0\<lparr>pt_journal := map_option leave_scope (pt_journal q0)\<rparr>"
    "rep = \<lparr>tr_steps = rs, tr_total = length rs, tr_pass = length (filter st_pass rs),
       tr_fail = length (filter (\<lambda>r. \<not> st_pass r) rs),
       tr_verdict = (length (filter (\<lambda>r. \<not> st_pass r) rs) = 0 \<and> rs \<noteq> []),
       tr_frames = frames_between (pt_journal p) (pt_journal q)\<rparr>"
  using assms by (auto simp: execute_task_def andThen_Inr Let_def split: sum.splits)

text \<open>C36. The report of a task covers its steps in order from the first one on; the counts add up. It is
a pass exactly if there was a step and every step executed passed, and then all steps of the task were
executed; steps are left out only after a failure of a task that stops at the first one.\<close>

theorem task_report_sound:
  assumes "execute_task su task profile run_id events p = Some (Inr (rep, q))"
    and "getd task ''steps'' (PList []) = PList vs"
  shows "map st_index (tr_steps rep) = [0..<tr_total rep] \<and> tr_pass rep + tr_fail rep = tr_total rep
    \<and> (tr_verdict rep \<longleftrightarrow> vs \<noteq> [] \<and> tr_total rep = length vs \<and> tr_pass rep = length vs)
    \<and> (tr_total rep < length vs \<longrightarrow> truthy (getd task ''fail_fast'' (PBool True)) \<and> \<not> st_pass (last (tr_steps rep)))
    \<and> tr_total rep \<le> length vs"
proof -
  obtain rules prof ws rs q0 where s: "elements (getd task ''steps'' (PList [])) = Inr ws"
    "run_steps su rules prof (truthy (getd task ''fail_fast'' (PBool True))) events 0 0 ws []
       (p\<lparr>pt_journal := map_option (enter_scope (Some run_id, Some ''step_send'')) (pt_journal p)\<rparr>) = Some (Inr (rs, q0))"
    and rep: "rep = \<lparr>tr_steps = rs, tr_total = length rs, tr_pass = length (filter st_pass rs),
       tr_fail = length (filter (\<lambda>r. \<not> st_pass r) rs),
       tr_verdict = (length (filter (\<lambda>r. \<not> st_pass r) rs) = 0 \<and> rs \<noteq> []),
       tr_frames = frames_between (pt_journal p) (pt_journal q)\<rparr>"
    using execute_task_steps [OF assms(1)] by metis
  have ws: "ws = vs" using s(1) assms(2) by simp
  have sh: "length rs \<le> length vs" "map st_index rs = [0..<length rs]"
    "length rs < length vs \<longrightarrow> truthy (getd task ''fail_fast'' (PBool True)) \<and> rs \<noteq> [] \<and> \<not> st_pass (last rs)"
    using run_steps_shape [OF s(2)] by (auto simp: ws)
  have c: "length (filter st_pass rs) + length (filter (\<lambda>r. \<not> st_pass r) rs) = length rs"
    by (rule sum_length_filter_compl)
  have all: "filter (\<lambda>r. \<not> st_pass r) rs = [] \<Longrightarrow> rs \<noteq> [] \<Longrightarrow> length rs = length vs"
    using sh(1,3) last_in_set [of rs] by (auto simp: filter_empty_conv)
  show ?thesis using sh c all by (auto simp: rep)
qed

text \<open>A task that only waits, on a port where nothing arrives.\<close>

definition silent_run :: "'n surroundings \<Rightarrow> (task_report \<times> port) res option" where
  "silent_run su = execute_task su waiting_task [] ''run-1'' (\<lambda>i. (0, [(0, []), (6000, [])])) quiet_port"

lemma silent_run_result:
  "\<exists>rep q. silent_run su = Some (Inr (rep, q)) \<and> tr_total rep = 1 \<and> tr_fail rep = 1 \<and> \<not> tr_verdict rep"
  by (simp add: silent_run_def execute_task_def waiting_task_def getd_def pget_def own_rules_def task_profile_def as_dict_def
      step_rules_def numbered_step_def run_step_def step_limit_def send_step_def fresh_result_def recv_frame_def
      quiet_port_def Let_def)

lemma task_report_witness:
  "\<exists>rep q. silent_run plain_surroundings = Some (Inr (rep, q)) \<and> tr_pass rep + tr_fail rep = tr_total rep \<and> \<not> tr_verdict rep"
proof -
  obtain rep q where r: "silent_run plain_surroundings = Some (Inr (rep, q))" "\<not> tr_verdict rep" using silent_run_result by blast
  have "getd waiting_task ''steps'' (PList []) = PList [PDict [(''recv_only'', PBool True), (''expect'', PDict [(''afn'', PInt 3)]),
     (''expect_timeout'', PInt 2)]]" by (simp add: waiting_task_def getd_def)
  from task_report_sound [OF r(1) [unfolded silent_run_def] this] r show ?thesis by blast
qed

section \<open>What every operation of a port keeps\<close>

text \<open>
  A property of the port that holds in a step's surroundings: sending and recording keep it, and so
  does an answer, which is sent under a mark of its own; buffer, queue and history do not matter to it.
\<close>

locale port_invariant =
  fixes su :: "'n surroundings" and I :: "port \<Rightarrow> bool"
  assumes send_keeps: "I p \<Longrightarrow> send_frame su raw p = Inr q \<Longrightarrow> I q"
    and answer_keeps: "I p \<Longrightarrow> in_scope (None, Some ''auto_reply'') (send_frame su raw) p = Inr q \<Longrightarrow> I q"
    and record_keeps: "I p \<Longrightarrow> I (p\<lparr>pt_journal := map_option (append_entry False raw (su_dec su raw)) (pt_journal p)\<rparr>)"
    and buf_irrelevant: "I (p\<lparr>pt_buf := b\<rparr>) = I p"
    and queue_irrelevant: "I (p\<lparr>pt_queue := fs\<rparr>) = I p"
    and history_irrelevant: "I (p\<lparr>pt_history := fs\<rparr>) = I p"
begin

lemma inv_auto_reply: "I p \<Longrightarrow> I (auto_reply su rules f p)"
  by (auto simp: auto_reply_def split: option.splits sum.splits dest: answer_keeps)

lemma inv_resident: "I p \<Longrightarrow> I (resident_answer su f p)"
  by (auto simp: resident_answer_def split: option.splits sum.splits dest: send_keeps)

lemma inv_arrive: "I p \<Longrightarrow> I (arrive su f p)"
proof -
  assume "I p"
  then have "I (p\<lparr>pt_history := push_bounded 1000 (pt_history p) f,
      pt_journal := map_option (append_entry False f (su_dec su f)) (pt_journal p)\<rparr>)"
    using record_keeps [of "p\<lparr>pt_history := push_bounded 1000 (pt_history p) f\<rparr>" f] by (simp add: history_irrelevant)
  then show ?thesis by (simp add: arrive_def Let_def queue_irrelevant inv_resident)
qed

lemma inv_rx_data: "I p \<Longrightarrow> I (rx_data su d p)"
proof -
  assume p: "I p"
  have "I (fold (arrive su) fs p)" for fs using p by (induction fs arbitrary: p) (simp_all add: inv_arrive)
  then show ?thesis using p by (simp add: rx_data_def buf_irrelevant Let_def split: prod.splits)
qed

lemma inv_pieces: "I p \<Longrightarrow> I (fold (rx_data su) pieces p)"
  by (induction pieces arbitrary: p) (simp_all add: inv_rx_data)

lemma inv_recv: "I p \<Longrightarrow> recv_frame su pieces p = (got, q) \<Longrightarrow> I q"
  using inv_pieces [of p pieces] by (auto simp: recv_frame_def Let_def queue_irrelevant split: list.splits)

lemma inv_await: "I p \<Longrightarrow> await su rules e l d others ts r p = Some (Inr (r', q)) \<Longrightarrow> I q"
proof (induction ts arbitrary: r p others)
  case (Cons t ts)
  then show ?case
    by (cases t) (auto split: if_splits prod.splits option.splits sum.splits judgement.splits
        intro: Cons.IH [OF inv_auto_reply [OF inv_recv]] Cons.IH [OF inv_recv] inv_auto_reply [OF inv_recv])
qed simp

lemma inv_look_back: "I p \<Longrightarrow> look_back su rules e l d seen ts r p = Some (Inr (r', q)) \<Longrightarrow> I q"
proof (induction ts arbitrary: p seen)
  case (Cons t ts)
  then show ?case
    by (cases t) (auto split: if_splits option.splits sum.splits dest: inv_auto_reply inv_pieces)
qed simp

lemma inv_wait_one: "I p \<Longrightarrow> wait_one su ts p = Some (got, q) \<Longrightarrow> I q"
  by (cases ts) (auto simp: split_paired_all dest: inv_recv)

lemma inv_send_step: "I p \<Longrightarrow> send_step su step profile n r p = Inr (r', q) \<Longrightarrow> I q"
  by (auto simp: send_step_def Let_def split: if_splits sum.splits dest: send_keeps)

lemma inv_run_step:
  assumes "I p" and "run_step su rules step idx profile seq started ts p = Some (Inr (r, q))"
  shows "I q"
proof -
  define n where "n = (case seq of Some n \<Rightarrow> n | None \<Rightarrow> int idx + 1)"
  show ?thesis
  proof (cases "send_step su step profile n (fresh_result idx) p")
    case (Inl r0)
    then show ?thesis using assms by (simp add: run_step_def n_def Let_def)
  next
    case (Inr x)
    obtain r0 p0 where x: "x = (r0, p0)" by (cases x)
    have p0: "I p0" using inv_send_step [OF assms(1)] Inr x by simp
    show ?thesis
      using assms(2) Inr x p0
      by (auto simp: run_step_def n_def [symmetric] Let_def split: if_splits option.splits
          intro: inv_wait_one [OF p0] inv_await [OF p0] inv_look_back [OF p0] inv_auto_reply [OF inv_wait_one [OF p0]])
  qed
qed

lemma inv_run_steps:
  "I p \<Longrightarrow> run_steps su rules profile ff events idx k ss done p = Some (Inr (rs, q)) \<Longrightarrow> I q"
proof (induction ss arbitrary: idx k "done" p)
  case (Cons v ss)
  obtain rules' s' k' r p' where one: "run_step su rules' s' idx profile None (fst (events idx)) (snd (events idx)) p = Some (Inr (r, p'))"
    and rest: "(if \<not> st_pass r \<and> ff then Some (Inr (done @ [r], p'))
      else run_steps su rules profile ff events (idx + 1) k' ss (done @ [r]) p') = Some (Inr (rs, q))"
    using Cons.prems by (auto split: sum.splits option.splits)
  have "I p'" by (rule inv_run_step [OF Cons.prems(1) one])
  then show ?case using rest by (auto split: if_splits intro: Cons.IH)
qed simp

end

text \<open>
  All frames after number \<open>n\<close> bear the run's mark, and the sent ones its kind or that of an answer.
  What is kept: the run's mark is the only one in force.
\<close>

definition run_entry :: "string \<Rightarrow> string \<Rightarrow> entry \<Rightarrow> bool" where
  "run_entry run kind e = (en_run e = Some run
     \<and> (if en_tx e then en_kind e = Some kind \<or> en_kind e = Some ''auto_reply'' else en_kind e = None))"

definition marked :: "string \<Rightarrow> string \<Rightarrow> nat \<Rightarrow> entry list \<Rightarrow> bool" where
  "marked run kind n es = (\<forall>e \<in> set es. n < en_seq e \<longrightarrow> run_entry run kind e)"

definition run_in_force :: "string \<Rightarrow> string \<Rightarrow> nat \<Rightarrow> port \<Rightarrow> bool" where
  "run_in_force run kind n p = (run \<noteq> [] \<and> (\<exists>j. pt_journal p = Some j \<and> jr_scopes j = [(Some run, Some kind)] \<and> n \<le> jr_seq j
     \<and> marked run kind n (jr_entries j)))"

lemma push_bounded_set: "set (push_bounded n xs x) \<subseteq> insert x (set xs)"
  by (auto simp: push_bounded_def Let_def dest: in_set_dropD)

lemma marked_push:
  "marked run kind n es \<Longrightarrow> run_entry run kind e \<Longrightarrow> marked run kind n (push_bounded m es e)"
  using push_bounded_set [of m es e] unfolding marked_def by blast

lemma append_entry_marked:
  assumes "marked run kind n (jr_entries j)" and "run \<noteq> []"
    and "jr_scopes j = [(Some run, Some kind)] \<or> jr_scopes j = [(Some run, Some kind), (None, Some ''auto_reply'')]"
  shows "marked run kind n (jr_entries (append_entry tx raw d j))"
proof (cases "raw = []")
  case True
  then show ?thesis using assms(1) by (simp add: append_entry_def)
next
  case False
  obtain k where k: "current_scope j = (Some run, Some k)" "k = kind \<or> k = ''auto_reply''"
    using assms(2,3) by (auto simp: current_scope_def)
  obtain a f u where s: "frame_summary d = (a, f, u)" by (cases "frame_summary d") auto
  define e where "e = \<lparr>en_seq = jr_seq j + 1, en_tx = tx, en_kind = (if tx then Some k else None), en_run = Some run,
    en_frame = raw, en_afn = a, en_fn = f, en_updown = u\<rparr>"
  have "jr_entries (append_entry tx raw d j) = push_bounded (jr_limit j) (jr_entries j) e"
    using False k(1) by (simp add: append_entry_def s e_def)
  moreover have "run_entry run kind e" using k(2) by (auto simp: run_entry_def e_def)
  ultimately show ?thesis using marked_push [OF assms(1)] by simp
qed

lemma append_entry_frame:
  "jr_scopes (append_entry tx raw d j) = jr_scopes j" "jr_seq j \<le> jr_seq (append_entry tx raw d j)"
  by (simp_all add: append_entry_def split: prod.splits)

lemma run_in_force_append:
  assumes "run_in_force run kind n p"
  shows "run_in_force run kind n (p\<lparr>pt_journal := map_option (append_entry tx raw d) (pt_journal p)\<rparr>)"
proof -
  obtain j where r: "run \<noteq> []" and j: "pt_journal p = Some j" "jr_scopes j = [(Some run, Some kind)]" "n \<le> jr_seq j"
    "marked run kind n (jr_entries j)"
    using assms by (auto simp: run_in_force_def)
  have "n \<le> jr_seq (append_entry tx raw d j)" using append_entry_frame(2) j(3) le_trans by blast
  moreover have "marked run kind n (jr_entries (append_entry tx raw d j))"
    using append_entry_marked [OF j(4) r] j(2) by blast
  ultimately show ?thesis using r j(1,2) by (simp add: run_in_force_def append_entry_frame)
qed

lemma run_in_force_answer:
  assumes "run_in_force run kind n p"
  shows "run_in_force run kind n (p\<lparr>pt_journal := map_option (leave_scope \<circ> append_entry tx raw d
    \<circ> enter_scope (None, Some ''auto_reply'')) (pt_journal p)\<rparr>)"
proof -
  obtain j where r: "run \<noteq> []" and j: "pt_journal p = Some j" "jr_scopes j = [(Some run, Some kind)]" "n \<le> jr_seq j"
    "marked run kind n (jr_entries j)"
    using assms by (auto simp: run_in_force_def)
  let ?j = "enter_scope (None, Some ''auto_reply'') j"
  have e: "jr_scopes ?j = [(Some run, Some kind), (None, Some ''auto_reply'')]" "jr_seq ?j = jr_seq j" "jr_entries ?j = jr_entries j"
    using j by (simp_all add: enter_scope_def)
  have "n \<le> jr_seq (append_entry tx raw d ?j)"
    using append_entry_frame(2) [of ?j tx raw d] e(2) j(3) by linarith
  moreover have "marked run kind n (jr_entries (append_entry tx raw d ?j))"
    by (rule append_entry_marked) (simp_all only: e j(4) r simp_thms not_False_eq_True)
  ultimately show ?thesis using r j(1) e(1) by (simp add: run_in_force_def append_entry_frame leave_scope_def)
qed

lemma run_in_force_irrelevant:
  "run_in_force run kind n (p\<lparr>pt_buf := b\<rparr>) = run_in_force run kind n p"
  "run_in_force run kind n (p\<lparr>pt_queue := fs\<rparr>) = run_in_force run kind n p"
  "run_in_force run kind n (p\<lparr>pt_history := fs\<rparr>) = run_in_force run kind n p"
  "run_in_force run kind n (p\<lparr>pt_sent := fs, pt_journal := j\<rparr>) = run_in_force run kind n (p\<lparr>pt_journal := j\<rparr>)"
  by (simp_all add: run_in_force_def)

interpretation marks: port_invariant su "run_in_force run kind n" for su run kind n
proof unfold_locales
  fix p q raw assume p: "run_in_force run kind n p"
  show "run_in_force run kind n (p\<lparr>pt_journal := map_option (append_entry False raw (su_dec su raw)) (pt_journal p)\<rparr>)"
    using run_in_force_append [OF p] .
  show "send_frame su raw p = Inr q \<Longrightarrow> run_in_force run kind n q"
    using run_in_force_append [OF p, of True raw "su_dec su raw"]
    by (auto simp: send_frame_def run_in_force_irrelevant split: if_splits)
  assume a: "in_scope (None, Some ''auto_reply'') (send_frame su raw) p = Inr q"
  have "q = p\<lparr>pt_sent := pt_sent p @ [raw], pt_journal := map_option (leave_scope \<circ> append_entry True raw (su_dec su raw)
      \<circ> enter_scope (None, Some ''auto_reply'')) (pt_journal p)\<rparr>"
    using a by (cases "pt_open p") (auto simp: in_scope_def send_frame_def option.map_comp comp_assoc)
  then show "run_in_force run kind n q"
    using run_in_force_answer [OF p, of True raw "su_dec su raw"] by (simp add: run_in_force_irrelevant)
qed (simp_all add: run_in_force_irrelevant)



section \<open>Two answers to one report\<close>

text \<open>The resident responder of an open session (\<open>api.py\<close>, \<open>_auto_ack_responder\<close>).\<close>

definition AUTO_ACK_RULES :: "reply_rule list" where
  "AUTO_ACK_RULES = responder
     [reply_rule_of ''autoack.06f230'' [(''afn'', PInt 6), (''fn'', PInt 230)] LOCAL_ACK,
      reply_rule_of ''autoack.06f3'' [(''afn'', PInt 6), (''fn'', PInt 3)] LOCAL_ACK,
      reply_rule_of ''autoack.03f10'' [(''afn'', PInt 3), (''fn'', PInt 10)] LOCAL_ACK] False"

definition is_report :: "sc_frame \<Rightarrow> bool" where
  "is_report fr = (case sc_fields fr of
     Some fd \<Rightarrow> (fd_afn fd, fd_fn fd) \<in> {(6, 230), (6, 3), (3, 10)} | None \<Rightarrow> False)"

lemma report_reply:
  assumes "is_report fr" and "dec raw = Some fr"
  shows "reply_for dec now AUTO_ACK_RULES raw ov = Inr (Some ACK_FRAME)"
    and "reply_for dec now (responder [] True) raw ov = Inr (Some ACK_FRAME)"
proof -
  obtain fd where fd: "sc_fields fr = Some fd" "(fd_afn fd, fd_fn fd) \<in> {(6, 230), (6, 3), (3, 10)}"
    using assms(1) by (auto simp: is_report_def split: option.splits)
  have m: "rule_matches (reply_rule_of i [(''afn'', PInt n), (''fn'', PInt k)] r) fr
      = Inr (int (fd_afn fd) = n \<and> int (fd_fn fd) = k)" for i n k r
    by (auto simp: rule_matches_def reply_rule_of_def afn_fits_def fn_fits_def answer_afn_def pget_def fd(1))
  show "reply_for dec now AUTO_ACK_RULES raw ov = Inr (Some ACK_FRAME)"
    using fd(2) build_local_ack [of now fr ov]
    by (auto simp: reply_for_def assms(2) AUTO_ACK_RULES_def responder_def m) (simp_all add: reply_rule_of_def)
  show "reply_for dec now (responder [] True) raw ov = Inr (Some ACK_FRAME)"
    using fd(2) build_local_ack [of now fr ov] builtin_choice [OF fd(1)]
    by (auto simp: reply_for_def assms(2) responder_def Let_def BUILTIN_RULES_def reply_rule_of_def)
qed

lemma cut_all_one:
  assumes "whole_frame raw"
  shows "cut_all raw = ([raw], [])"
proof -
  have "scan_frame raw = Some (raw, length raw)"
    using scan_at_frame [OF assms, of "[]" "[]"] by (simp add: scan_frame_def)
  moreover have "cut_all [] = ([], [])" by (rule cut_all_none) (simp add: scan_frame_def scan_from.simps)
  ultimately show ?thesis by (subst cut_all.simps) simp
qed


definition wired :: "reply_rule list option \<Rightarrow> port" where
  "wired rules = quiet_port\<lparr>pt_resident := rules\<rparr>"

lemma query_decoded:
  "\<exists>fr fd. su_dec plain_surroundings query_frame = Some fr \<and> sc_fields fr = Some fd \<and> fd_afn fd = 3 \<and> fd_fn fd = 10"
proof -
  have "map_option (\<lambda>d. map_option (\<lambda>u. (au_afn u, au_fn u, au_data u)) (dl_unit d)) (decode_10376 query_frame)
      = Some (Some (3, 10, []))"
    by code_simp
  then obtain d u where "decode_10376 query_frame = Some d" "dl_unit d = Some u" "au_afn u = 3" "au_fn u = 10" "au_data u = []"
    by auto
  then show ?thesis by (simp add: plain_surroundings_def decode_frame_def decode_items_def Let_def)
qed

lemma query_whole: "whole_frame query_frame"
  by (simp add: query_frame_def whole_frame_def py_slice_def codec_simps)


lemma reply_verdict_witness:
  "\<exists>r q. run_step plain_surroundings None [(''recv_only'', PBool True), (''expect'', PDict [(''afn'', PInt 3)])] 0 [] None 0
       [(0, [query_frame])] (wired None) = Some (Inr (r, q)) \<and> st_pass r \<and> st_matched r = Some (frame_to_hex query_frame)"
proof -
  let ?step = "[(''recv_only'', PBool True), (''expect'', PDict [(''afn'', PInt 3)])]"
  let ?e = "PDict [(''afn'', PInt 3)]"
  obtain fr fd where d: "su_dec plain_surroundings query_frame = Some fr" "sc_fields fr = Some fd" "fd_afn fd = 3" "fd_fn fd = 10"
    using query_decoded by blast
  have m: "match_value plain_surroundings ?e query_frame = Inr (Matched, Some fr)"
    using d by (simp add: match_value_def match_frame_def as_dict_def match_decoded_def format_known_def go_on_def afn_step_def
        fn_step_def dir_step_def pget_def py_eq_def get_list_def)
  have no: "refusal_of plain_surroundings query_frame = None"
    using d by (simp add: refusal_of_def deny_info_def)
  obtain w where w: "recv_frame plain_surroundings [query_frame] (wired None) = (Some query_frame, w)"
    using cut_all_one [OF query_whole]
    by (simp add: recv_frame_def rx_data_def arrive_def resident_answer_def wired_def quiet_port_def query_frame_def Let_def)
  have "\<exists>r q. run_step plain_surroundings None ?step 0 [] None 0 [(0, [query_frame])] (wired None) = Some (Inr (r, q))"
    using w m no d by (simp add: run_step_def pget_def getd_def send_step_def step_limit_def fresh_result_def judge_def
        denied_safe_decode Let_def)
  then obtain r q where r: "run_step plain_surroundings None ?step 0 [] None 0 [(0, [query_frame])] (wired None) = Some (Inr (r, q))"
    by blast
  have dr: "drained (wired None)" using quiet_drained by (simp add: drained_def wired_def)
  have e: "pget ?step ''expect'' = ?e" "\<not> truthy (pget ?step ''expect_history'')" "\<not> truthy (pget ?step ''expect_no_reply'')"
    by (simp_all add: pget_def)
  have h: "heard (0 + 1000 * step_limit ?step) [(0, [query_frame])] (pt_queue (wired None)) (pt_buf (wired None)) = [query_frame]"
    using cut_all_one [OF query_whole] by (simp add: wired_def quiet_port_def step_limit_def getd_def)
  have s: "\<forall>x. st_reason r \<noteq> Build_Failed x \<and> st_reason r \<noteq> Send_Failed x"
    using r w m no d by (auto simp: run_step_def pget_def getd_def send_step_def step_limit_def fresh_result_def judge_def
        denied_safe_decode Let_def)
  from reply_verdict [OF dr e r] m no s show ?thesis
    using r unfolding h by (simp add: decides_def satisfies_def accepts_def Let_def)
qed

end
