(* ===== verification/Batch_Read.thy ===== *)
theory Batch_Read
  imports Task_Runner "HOL-Library.Multiset"
begin

text \<open>
  Concurrent reading of meters, \<open>libs/sim_concentrator/batch.py\<close>: a main thread keeps a number of
  readings in flight, and one thread per meter sends its message and watches the port's history for
  the answer. The threads are a relation on the shared state, one step per access that another thread may
  come between: the increment of the running number is a read, a write, and the read of the builder.

  The clock advances and frames arrive by steps of the surroundings. The texts that a decoded frame
  shows of the addresses and items of its nested frames depend on the data-item dictionary and are an
  argument, as in \<open>Sim_Frames\<close>. Row texts other than meter and outcome are left out.
\<close>

unbundle bit_operations_syntax

section \<open>Messages and answers\<close>

definition meter_digits :: "string \<Rightarrow> bytes option" where
  "meter_digits addr =
     (let a = py_strip addr in if length a = 12 \<and> list_all is_digit a then from_hex a else None)"

definition meter_read_645 :: "string \<Rightarrow> bytes option" where
  "meter_read_645 addr =
     Option.bind (meter_digits addr) (\<lambda>b. build_frame (rev b) 0x91 (replicate 4 0x33))"

text \<open>\<open>_addr_hexes\<close>: both orders; \<open>None\<close> is a pair of empty texts.\<close>

definition addr_hexes :: "string \<Rightarrow> (string \<times> string) option" where
  "addr_hexes addr = map_option (\<lambda>b. (hex_upper (rev b), hex_upper b)) (meter_digits addr)"

fun replace_first :: "string \<Rightarrow> string \<Rightarrow> string" where
  "replace_first p [] = []"
| "replace_first p (c # cs) = (if prefix p (c # cs) then drop (length p) (c # cs) else c # replace_first p cs)"

definition without_info :: "sc_frame \<Rightarrow> string" where
  "without_info fr =
     (let h = hex_upper (sc_raw fr);
          i = (case sc_fields fr of Some fd \<Rightarrow> hex_upper (fd_info fd) | None \<Rightarrow> [])
      in if i \<noteq> [] then replace_first i h else h)"

definition decoded_match_addr :: "(sc_frame \<Rightarrow> string list) \<Rightarrow> sc_frame \<Rightarrow> string \<Rightarrow> bool" where
  "decoded_match_addr texts fr addr =
     (case addr_hexes addr of
        None \<Rightarrow> False
      | Some (le, be) \<Rightarrow>
          (let hit = (\<lambda>h. infix_of le (map upper_char h) \<or> infix_of be (map upper_char h)) in
           (\<exists>t \<in> set (texts fr). hit t)
           \<or> (case sc_fields fr of Some fd \<Rightarrow> hit (hex_upper (fd_address fd)) | None \<Rightarrow> False)
           \<or> infix_of le (without_info fr) \<or> infix_of be (without_info fr)))"

record batch_config =
  bc_meters :: "string list"
  bc_max :: nat
  bc_single :: bool
  bc_protocol :: int
  bc_timeout :: nat
  bc_cco :: string
  bc_dec :: "bytes \<Rightarrow> sc_frame option"
  bc_texts :: "sc_frame \<Rightarrow> string list"

definition new_config ::
  "string list \<Rightarrow> int \<Rightarrow> string \<Rightarrow> int \<Rightarrow> nat \<Rightarrow> string \<Rightarrow> (bytes \<Rightarrow> sc_frame option) \<Rightarrow> (sc_frame \<Rightarrow> string list) \<Rightarrow> batch_config" where
  "new_config meters max_concurrent mode protocol_type timeout cco dec texts =
     \<lparr>bc_meters = filter (\<lambda>m. m \<noteq> []) (map py_strip meters), bc_max = nat (max 1 max_concurrent),
      bc_single = (mode \<noteq> ''batch''), bc_protocol = protocol_type, bc_timeout = timeout, bc_cco = cco,
      bc_dec = dec, bc_texts = texts\<rparr>"

definition batch_afn :: "batch_config \<Rightarrow> int" where
  "batch_afn c = (if bc_single c then 2 else 0xF1)"

text \<open>The message for a meter; \<open>None\<close> is any exception while it is built.\<close>

definition batch_request :: "batch_config \<Rightarrow> string \<Rightarrow> int \<Rightarrow> bytes option" where
  "batch_request c m n =
     (case meter_read_645 m of
        None \<Rightarrow> None
      | Some app \<Rightarrow>
          if 0 \<le> bc_protocol c \<and> bc_protocol c \<le> 255
          then build_13762_frame (batch_afn c) 1
                 ([of_int (bc_protocol c), 0, of_nat (length app mod 256), of_nat (length app div 256)] @ app)
                 Down 3 [Seq \<mapsto> n]
                 (if bc_cco c = [] then no_address else \<lparr>ad_src = bc_cco c, ad_relay = [], ad_dst = bc_cco c\<rparr>)
          else None)"

datatype attribution = Not_Mine | Refused_Mine nat | Refused_Anyone nat | Read_Ok

text \<open>What one new frame of the history is to the thread of a meter.\<close>

definition attribute_frame :: "batch_config \<Rightarrow> string \<Rightarrow> bytes \<Rightarrow> attribution" where
  "attribute_frame c m hf =
     (case bc_dec c hf of
        None \<Rightarrow> Not_Mine
      | Some fr \<Rightarrow>
          (case sc_fields fr of
             None \<Rightarrow> Not_Mine
           | Some fd \<Rightarrow>
               if drop_bit 7 (fd_control fd) AND 1 \<noteq> 1 then Not_Mine
               else if fd_afn fd = 0 \<and> fd_fn fd = 2
               then (case deny_info fr of
                   None \<Rightarrow> Not_Mine
                 | Some d \<Rightarrow>
                     if decoded_match_addr (bc_texts c) fr m then Refused_Mine d
                     else if \<exists>m' \<in> set (bc_meters c). m' \<noteq> m \<and> decoded_match_addr (bc_texts c) fr m' then Not_Mine
                     else Refused_Anyone d)
               else if int (fd_afn fd) = batch_afn c \<and> fd_fn fd = 1 \<and> decoded_match_addr (bc_texts c) fr m
               then Read_Ok else Not_Mine))"

datatype outcome = Success | Deny nat | Timed_Out | Failed_To_Send

text \<open>The loop over the new frames. A refusal without an address goes to the first thread that claims its bytes.\<close>

fun watch_frames :: "batch_config \<Rightarrow> string \<Rightarrow> bytes list \<Rightarrow> bytes list \<Rightarrow> outcome option \<times> bytes list" where
  "watch_frames c m claimed [] = (None, claimed)"
| "watch_frames c m claimed (f # fs) =
     (case attribute_frame c m f of
        Not_Mine \<Rightarrow> watch_frames c m claimed fs
      | Refused_Mine d \<Rightarrow> (Some (Deny d), claimed)
      | Refused_Anyone d \<Rightarrow>
          if f \<in> set claimed then watch_frames c m claimed fs else (Some (Deny d), f # claimed)
      | Read_Ok \<Rightarrow> (Some Success, claimed))"

section \<open>The threads\<close>

datatype phase =
  Fresh | Adding int | Added | Waiting nat nat | Settled outcome | Gone

datatype main_phase = Checking | Filling nat | Joining | Finished

record batch =
  bt_queue :: "string list"
  bt_queued :: nat
  bt_in_flight :: nat
  bt_done :: nat
  bt_success :: nat
  bt_failed :: nat
  bt_breakdown :: "(outcome \<times> nat) list"
  bt_rows :: "(string \<times> outcome) list"
  bt_claimed :: "bytes list"
  bt_seq :: int
  bt_sent :: "(string \<times> int) list"
  bt_history :: "bytes list"
  bt_clock :: nat
  bt_stop :: bool
  bt_finished :: bool
  bt_main :: main_phase
  bt_workers :: "(string \<times> phase) list"

definition new_batch :: "batch_config \<Rightarrow> int \<Rightarrow> bytes list \<Rightarrow> nat \<Rightarrow> batch" where
  "new_batch c seq_start history clock =
     \<lparr>bt_queue = bc_meters c, bt_queued = length (bc_meters c), bt_in_flight = 0, bt_done = 0, bt_success = 0,
      bt_failed = 0, bt_breakdown = [], bt_rows = [], bt_claimed = [], bt_seq = seq_start, bt_sent = [],
      bt_history = history, bt_clock = clock, bt_stop = False, bt_finished = False, bt_main = Checking,
      bt_workers = []\<rparr>"

definition count_up :: "outcome \<Rightarrow> (outcome \<times> nat) list \<Rightarrow> (outcome \<times> nat) list" where
  "count_up k d = AList.update k ((case map_of d k of Some n \<Rightarrow> n | None \<Rightarrow> 0) + 1) d"

text \<open>\<open>_row\<close>, with the end of the thread that follows it.\<close>

definition row :: "nat \<Rightarrow> outcome \<Rightarrow> batch \<Rightarrow> batch" where
  "row i out s =
     (let m = fst (bt_workers s ! i) in
      s\<lparr>bt_rows := bt_rows s @ [(m, out)], bt_done := bt_done s + 1, bt_in_flight := bt_in_flight s - 1,
        bt_success := (if out = Success then bt_success s + 1 else bt_success s),
        bt_failed := (if out = Success then bt_failed s else bt_failed s + 1),
        bt_breakdown := (if out = Success then bt_breakdown s else count_up out (bt_breakdown s)),
        bt_workers := (bt_workers s)[i := (m, Settled out)]\<rparr>)"

definition to_phase :: "nat \<Rightarrow> phase \<Rightarrow> batch \<Rightarrow> batch" where
  "to_phase i ph s = s\<lparr>bt_workers := (bt_workers s)[i := (fst (bt_workers s ! i), ph)]\<rparr>"

definition at_phase :: "batch \<Rightarrow> nat \<Rightarrow> phase \<Rightarrow> bool" where
  "at_phase s i ph = (i < length (bt_workers s) \<and> snd (bt_workers s ! i) = ph)"

fun ended :: "phase \<Rightarrow> bool" where
  "ended (Settled out) = True"
| "ended Gone = True"
| "ended ph = False"

text \<open>
  The steps of the main thread, of a meter's thread and of the surroundings. The main thread takes
  the number of free slots once and then fills them, unless it is stopped.
\<close>

inductive batch_step :: "batch_config \<Rightarrow> batch \<Rightarrow> batch \<Rightarrow> bool" for c where
  look: "bt_main s = Checking \<Longrightarrow> bt_queue s \<noteq> [] \<Longrightarrow> \<not> bt_stop s \<Longrightarrow>
    batch_step c s (s\<lparr>bt_main := Filling (bc_max c - bt_in_flight s)\<rparr>)"
| start_one: "bt_main s = Filling (Suc n) \<Longrightarrow> bt_queue s = m # q \<Longrightarrow> \<not> bt_stop s \<Longrightarrow>
    batch_step c s (s\<lparr>bt_queue := q, bt_queued := length q, bt_in_flight := bt_in_flight s + 1,
      bt_workers := bt_workers s @ [(m, Fresh)], bt_main := Filling n\<rparr>)"
| filled: "bt_main s = Filling n \<Longrightarrow> n = 0 \<or> bt_queue s = [] \<or> bt_stop s \<Longrightarrow>
    batch_step c s (s\<lparr>bt_main := Checking\<rparr>)"
| all_sent: "bt_main s = Checking \<Longrightarrow> bt_queue s = [] \<or> bt_stop s \<Longrightarrow>
    batch_step c s (s\<lparr>bt_main := Joining\<rparr>)"
| joined: "bt_main s = Joining \<Longrightarrow> list_all (\<lambda>w. ended (snd w)) (bt_workers s) \<Longrightarrow>
    batch_step c s (s\<lparr>bt_main := Finished, bt_finished := True, bt_queued := 0\<rparr>)"
| bad_meter: "at_phase s i Fresh \<Longrightarrow> meter_read_645 (fst (bt_workers s ! i)) = None \<Longrightarrow>
    batch_step c s (row i Failed_To_Send s)"
| read_seq: "at_phase s i Fresh \<Longrightarrow> meter_read_645 (fst (bt_workers s ! i)) \<noteq> None \<Longrightarrow>
    batch_step c s (to_phase i (Adding (bt_seq s)) s)"
| write_seq: "at_phase s i (Adding n) \<Longrightarrow>
    batch_step c s (to_phase i Added (s\<lparr>bt_seq := n + 1\<rparr>))"
| send_one: "at_phase s i Added \<Longrightarrow> batch_request c (fst (bt_workers s ! i)) (bt_seq s) \<noteq> None \<Longrightarrow>
    batch_step c s (to_phase i (Waiting (length (bt_history s)) (bt_clock s + bc_timeout c))
      (s\<lparr>bt_sent := bt_sent s @ [(fst (bt_workers s ! i), bt_seq s)]\<rparr>))"
| send_fails: "at_phase s i Added \<Longrightarrow> batch_step c s (row i Failed_To_Send s)"
| watch_on: "at_phase s i (Waiting seen deadline) \<Longrightarrow> bt_clock s < deadline \<Longrightarrow> \<not> bt_stop s \<Longrightarrow>
    watch_frames c (fst (bt_workers s ! i)) (bt_claimed s) (drop seen (bt_history s)) = (None, claimed) \<Longrightarrow>
    batch_step c s (to_phase i (Waiting (length (bt_history s)) deadline) (s\<lparr>bt_claimed := claimed\<rparr>))"
| watch_hit: "at_phase s i (Waiting seen deadline) \<Longrightarrow> bt_clock s < deadline \<Longrightarrow> \<not> bt_stop s \<Longrightarrow>
    watch_frames c (fst (bt_workers s ! i)) (bt_claimed s) (drop seen (bt_history s)) = (Some out, claimed) \<Longrightarrow>
    batch_step c s (row i out (s\<lparr>bt_claimed := claimed\<rparr>))"
| time_out: "at_phase s i (Waiting seen deadline) \<Longrightarrow> deadline \<le> bt_clock s \<Longrightarrow> \<not> bt_stop s \<Longrightarrow>
    batch_step c s (row i Timed_Out s)"
| give_up: "at_phase s i (Waiting seen deadline) \<Longrightarrow> bt_stop s \<Longrightarrow> batch_step c s (to_phase i Gone s)"
| arrives: "batch_step c s (s\<lparr>bt_history := push_bounded 1000 (bt_history s) f\<rparr>)"
| ticks: "batch_step c s (s\<lparr>bt_clock := bt_clock s + 1\<rparr>)"
| stopped: "batch_step c s (s\<lparr>bt_stop := True\<rparr>)"

inductive batch_run :: "batch_config \<Rightarrow> batch \<Rightarrow> batch \<Rightarrow> bool" for c where
  run_start: "batch_run c s s"
| run_on: "batch_run c s t \<Longrightarrow> batch_step c t u \<Longrightarrow> batch_run c s u"

section \<open>The books of a reading job\<close>

fun has_row :: "phase \<Rightarrow> bool" where
  "has_row (Settled out) = True"
| "has_row ph = False"

definition row_of :: "string \<times> phase \<Rightarrow> (string \<times> outcome) list" where
  "row_of w = (case snd w of Settled out \<Rightarrow> [(fst w, out)] | _ \<Rightarrow> [])"

lemma row_of_simps [simp]: "row_of (m, Settled out) = [(m, out)]" "\<not> has_row ph \<Longrightarrow> row_of (m, ph) = []"
  by (simp add: row_of_def) (cases ph, simp_all add: row_of_def)

definition worker_rows :: "(string \<times> phase) list \<Rightarrow> (string \<times> outcome) list" where
  "worker_rows ws = concat (map row_of ws)"

lemma worker_rows_simps [simp]:
  "worker_rows [] = []" "worker_rows (us @ vs) = worker_rows us @ worker_rows vs" "worker_rows (w # ws) = row_of w @ worker_rows ws"
  by (simp_all add: worker_rows_def)

definition unsettled :: "(string \<times> phase) list \<Rightarrow> nat" where
  "unsettled ws = length (filter (\<lambda>w. \<not> has_row (snd w)) ws)"

definition books_ok :: "batch \<Rightarrow> bool" where
  "books_ok s = (bt_in_flight s = unsettled (bt_workers s) \<and> bt_done s = length (bt_rows s)
     \<and> mset (bt_rows s) = mset (worker_rows (bt_workers s)) \<and> bt_success s + bt_failed s = bt_done s
     \<and> bt_success s = length (filter (\<lambda>r. snd r = Success) (bt_rows s))
     \<and> sum_list (map snd (bt_breakdown s)) = bt_failed s)"

definition window_ok :: "batch_config \<Rightarrow> batch \<Rightarrow> bool" where
  "window_ok c s = (map fst (bt_workers s) @ bt_queue s = bc_meters c \<and> bt_in_flight s \<le> bc_max c
     \<and> (\<forall>n. bt_main s = Filling n \<longrightarrow> bt_in_flight s + n \<le> bc_max c))"

definition end_ok :: "batch \<Rightarrow> bool" where
  "end_ok s = ((bt_finished s \<longleftrightarrow> bt_main s = Finished)
     \<and> (bt_main s \<in> {Joining, Finished} \<longrightarrow> bt_queue s = [] \<or> bt_stop s)
     \<and> (bt_main s = Finished \<longrightarrow> list_all (\<lambda>w. ended (snd w)) (bt_workers s))
     \<and> (Gone \<in> snd ` set (bt_workers s) \<longrightarrow> bt_stop s))"

definition batch_ok :: "batch_config \<Rightarrow> batch \<Rightarrow> bool" where
  "batch_ok c s = (books_ok s \<and> window_ok c s \<and> end_ok s)"

lemma count_up_sum: "sum_list (map snd (count_up k d)) = sum_list (map snd d) + 1"
proof -
  have "sum_list (map snd (AList.update k (x + 1) d)) = sum_list (map snd d) + 1" if "(case map_of d k of Some n \<Rightarrow> n | None \<Rightarrow> 0) = x" for x
    using that by (induction d) (auto split: if_splits)
  then show ?thesis by (simp add: count_up_def)
qed

lemma worker_split:
  assumes "at_phase s i ph"
  obtains us m vs where "bt_workers s = us @ (m, ph) # vs" "i = length us"
proof -
  have i: "i < length (bt_workers s)" "snd (bt_workers s ! i) = ph" using assms by (simp_all add: at_phase_def)
  have "bt_workers s = take i (bt_workers s) @ bt_workers s ! i # drop (Suc i) (bt_workers s)"
    by (rule id_take_nth_drop [OF i(1)])
  moreover have "bt_workers s ! i = (fst (bt_workers s ! i), ph)" using i(2) by (simp add: prod_eq_iff)
  ultimately show ?thesis using that [of "take i (bt_workers s)" "fst (bt_workers s ! i)" "drop (Suc i) (bt_workers s)"] i(1)
    by simp
qed

lemma row_ok:
  assumes "batch_ok c s" and "at_phase s i ph" and "\<not> ended ph"
  shows "batch_ok c (row i out s)"
proof -
  obtain us m vs where w: "bt_workers s = us @ (m, ph) # vs" "i = length us" using worker_split [OF assms(2)] .
  have ph: "\<not> has_row ph" "ph \<noteq> Gone" using assms(3) by (cases ph; simp)+
  have "books_ok (row i out s)"
    using assms(1) ph by (auto simp: batch_ok_def books_ok_def row_def Let_def w unsettled_def count_up_sum)
  moreover have "window_ok c (row i out s)"
    using assms(1) by (fastforce simp: batch_ok_def window_ok_def row_def Let_def w)
  moreover have "end_ok (row i out s)"
    using assms(1,3) by (auto simp: batch_ok_def end_ok_def row_def Let_def w)
  ultimately show ?thesis by (simp add: batch_ok_def)
qed

lemma to_phase_ok:
  assumes "batch_ok c s" and "at_phase s i ph" and "\<not> ended ph" and "\<not> has_row ph'" and "ph' = Gone \<longrightarrow> bt_stop s"
  shows "batch_ok c (to_phase i ph' s)"
proof -
  obtain us m vs where w: "bt_workers s = us @ (m, ph) # vs" "i = length us" using worker_split [OF assms(2)] .
  have ph: "\<not> has_row ph" "ph \<noteq> Gone" using assms(3) by (cases ph; simp)+
  have "books_ok (to_phase i ph' s)"
    using assms(1,4) ph by (auto simp: batch_ok_def books_ok_def to_phase_def w unsettled_def)
  moreover have "window_ok c (to_phase i ph' s)"
    using assms(1) by (auto simp: batch_ok_def window_ok_def to_phase_def w)
  moreover have "end_ok (to_phase i ph' s)"
    using assms(1,3,5) by (auto simp: batch_ok_def end_ok_def to_phase_def w)
  ultimately show ?thesis by (simp add: batch_ok_def)
qed

lemma batch_ok_irrelevant [simp]:
  "batch_ok c (s\<lparr>bt_seq := n\<rparr>) = batch_ok c s" "batch_ok c (s\<lparr>bt_sent := xs\<rparr>) = batch_ok c s"
  "batch_ok c (s\<lparr>bt_claimed := fs\<rparr>) = batch_ok c s" "batch_ok c (s\<lparr>bt_history := fs\<rparr>) = batch_ok c s"
  "batch_ok c (s\<lparr>bt_clock := k\<rparr>) = batch_ok c s"
  by (simp_all add: batch_ok_def books_ok_def window_ok_def end_ok_def)

lemma at_phase_irrelevant [simp]:
  "at_phase (s\<lparr>bt_seq := n\<rparr>) i ph = at_phase s i ph" "at_phase (s\<lparr>bt_sent := xs\<rparr>) i ph = at_phase s i ph"
  "at_phase (s\<lparr>bt_claimed := fs\<rparr>) i ph = at_phase s i ph"
  by (simp_all add: at_phase_def)

lemma batch_step_ok: "batch_step c s t \<Longrightarrow> batch_ok c s \<Longrightarrow> batch_ok c t"
proof (induction rule: batch_step.induct)
  case (look s)
  then show ?case by (auto simp: batch_ok_def books_ok_def window_ok_def end_ok_def)
next
  case (start_one s n m q)
  then show ?case by (auto simp: batch_ok_def books_ok_def window_ok_def end_ok_def unsettled_def)
next
  case (filled s n)
  then show ?case by (auto simp: batch_ok_def books_ok_def window_ok_def end_ok_def)
next
  case (all_sent s)
  then show ?case by (auto simp: batch_ok_def books_ok_def window_ok_def end_ok_def)
next
  case (joined s)
  then show ?case by (auto simp: batch_ok_def books_ok_def window_ok_def end_ok_def)
next
  case (stopped s)
  then show ?case by (auto simp: batch_ok_def books_ok_def window_ok_def end_ok_def)
qed (auto intro!: row_ok to_phase_ok)

lemma new_batch_ok: "batch_ok c (new_batch c n history clock)"
  by (simp add: batch_ok_def books_ok_def window_ok_def end_ok_def new_batch_def unsettled_def)

lemma batch_run_ok: "batch_run c s t \<Longrightarrow> batch_ok c s \<Longrightarrow> batch_ok c t"
  by (induction rule: batch_run.induct) (auto intro: batch_step_ok)

lemma unsettled_ended:
  "list_all (\<lambda>w. ended (snd w)) ws \<Longrightarrow> unsettled ws = length (filter (\<lambda>w. snd w = Gone) ws)"
proof (induction ws)
  case (Cons w ws)
  then show ?case by (cases "snd w") (simp_all add: unsettled_def)
qed (simp add: unsettled_def)

lemma worker_rows_all:
  "list_all (\<lambda>w. ended (snd w)) ws \<Longrightarrow> Gone \<notin> snd ` set ws \<Longrightarrow> map fst (worker_rows ws) = map fst ws"
proof (induction ws)
  case (Cons w ws)
  obtain m ph where w: "w = (m, ph)" by (cases w)
  show ?case using Cons by (cases ph) (auto simp: w)
qed simp

text \<open>C39. Whatever the threads' interleaving, the frames that arrive and the time of a stop: never
more than the allowed number of readings is in flight, every meter is queued, in flight or done, the rows
and the counters agree. A job that ends without having been stopped has exactly one row for every meter
and nothing in flight; one that was stopped still reports in flight the readings that were given up.\<close>

theorem batch_accounts:
  assumes "batch_run c (new_batch c n history clock) s"
  shows "bt_in_flight s \<le> bc_max c
    \<and> length (bc_meters c) = length (bt_queue s) + bt_in_flight s + bt_done s
    \<and> bt_done s = length (bt_rows s) \<and> bt_done s = bt_success s + bt_failed s
    \<and> sum_list (map snd (bt_breakdown s)) = bt_failed s
    \<and> (bt_finished s \<and> \<not> bt_stop s \<longrightarrow> bt_in_flight s = 0 \<and> mset (map fst (bt_rows s)) = mset (bc_meters c))
    \<and> (bt_finished s \<longrightarrow> bt_in_flight s = length (filter (\<lambda>w. snd w = Gone) (bt_workers s)))"
proof -
  have ok: "books_ok s" "window_ok c s" "end_ok s"
    using batch_run_ok [OF assms new_batch_ok] by (simp_all add: batch_ok_def)
  have split: "length ws = unsettled ws + length (worker_rows ws)" for ws :: "(string \<times> phase) list"
  proof (induction ws)
    case (Cons w ws)
    obtain m ph where w: "w = (m, ph)" by (cases w)
    show ?case using Cons by (cases ph) (simp_all add: w unsettled_def)
  qed (simp add: unsettled_def)
  have rows: "mset (bt_rows s) = mset (worker_rows (bt_workers s))" using ok(1) by (simp add: books_ok_def)
  then have len: "length (bt_rows s) = length (worker_rows (bt_workers s))" using mset_eq_length by blast
  have meters: "length (bc_meters c) = length (bt_workers s) + length (bt_queue s)"
    using ok(2) by (metis window_ok_def length_append length_map)
  have a: "length (bc_meters c) = length (bt_queue s) + bt_in_flight s + bt_done s"
    using ok(1) len meters split [of "bt_workers s"] by (simp add: books_ok_def)
  have fin: "list_all (\<lambda>w. ended (snd w)) (bt_workers s)" if "bt_finished s"
    using ok(3) that by (simp add: end_ok_def)
  have g: "bt_in_flight s = length (filter (\<lambda>w. snd w = Gone) (bt_workers s))" if "bt_finished s"
    using unsettled_ended [OF fin [OF that]] ok(1) by (simp add: books_ok_def)
  have whole: "bt_in_flight s = 0 \<and> mset (map fst (bt_rows s)) = mset (bc_meters c)" if "bt_finished s" "\<not> bt_stop s"
  proof -
    have no: "Gone \<notin> snd ` set (bt_workers s)" "bt_queue s = []" using ok(3) that by (auto simp: end_ok_def)
    have "mset (map fst (bt_rows s)) = mset (map fst (worker_rows (bt_workers s)))"
      using rows by (metis mset_map)
    also have "\<dots> = mset (bc_meters c)"
      using worker_rows_all [OF fin [OF that(1)] no(1)] ok(2) no(2) by (simp add: window_ok_def)
    finally show ?thesis using g [OF that(1)] no(1) by (auto simp: filter_empty_conv image_iff)
  qed
  show ?thesis using ok a g whole by (simp add: books_ok_def window_ok_def)
qed

section \<open>A full history\<close>


text \<open>One meter, whose job is stopped while the reading waits.\<close>

definition one_meter :: batch_config where
  "one_meter = new_config ['' 000000000001''] 5 ''single'' 2 59 [] (\<lambda>f. None) (\<lambda>fr. [])"

lemma one_meter_request: "bc_meters one_meter = [''000000000001'']" "bc_max one_meter = 5"
  "meter_read_645 ''000000000001'' \<noteq> None" "batch_request one_meter ''000000000001'' 1 \<noteq> None"
  by code_simp+

lemma stopped_job:
  "\<exists>s. batch_run one_meter (new_batch one_meter 0 [] 0) s \<and> bt_finished s \<and> bt_in_flight s = 1 \<and> bt_rows s = []"
proof -
  define s0 where "s0 = new_batch one_meter 0 [] 0"
  define s1 where "s1 = s0\<lparr>bt_main := Filling (bc_max one_meter - bt_in_flight s0)\<rparr>"
  define s2 where "s2 = s1\<lparr>bt_queue := [], bt_queued := length ([] :: string list), bt_in_flight := bt_in_flight s1 + 1,
    bt_workers := bt_workers s1 @ [(''000000000001'', Fresh)], bt_main := Filling 4\<rparr>"
  define s3 where "s3 = to_phase 0 (Adding (bt_seq s2)) s2"
  define s4 where "s4 = to_phase 0 Added (s3\<lparr>bt_seq := 0 + 1\<rparr>)"
  define s5 where "s5 = to_phase 0 (Waiting (length (bt_history s4)) (bt_clock s4 + bc_timeout one_meter))
    (s4\<lparr>bt_sent := bt_sent s4 @ [(fst (bt_workers s4 ! 0), bt_seq s4)]\<rparr>)"
  define s6 where "s6 = s5\<lparr>bt_stop := True\<rparr>"
  define s7 where "s7 = to_phase 0 Gone s6"
  define s8 where "s8 = s7\<lparr>bt_main := Checking\<rparr>"
  define s9 where "s9 = s8\<lparr>bt_main := Joining\<rparr>"
  define t where "t = s9\<lparr>bt_main := Finished, bt_finished := True, bt_queued := 0\<rparr>"
  note defs = s1_def s2_def s3_def s4_def s5_def s6_def s7_def s8_def s9_def t_def s0_def new_batch_def
    to_phase_def at_phase_def one_meter_request
  have st1: "batch_step one_meter s0 s1" unfolding s1_def by (rule look) (simp_all add: defs)
  have st2: "batch_step one_meter s1 s2" unfolding s2_def by (rule start_one) (simp_all add: defs)
  have st3: "batch_step one_meter s2 s3" unfolding s3_def by (rule read_seq) (simp_all add: defs)
  have st4: "batch_step one_meter s3 s4" unfolding s4_def by (rule write_seq) (simp_all add: defs)
  have st5: "batch_step one_meter s4 s5" unfolding s5_def
    by (rule send_one) (simp_all add: defs del: not_None_eq)
  have st6: "batch_step one_meter s5 s6" unfolding s6_def by (rule stopped)
  have st7: "batch_step one_meter s6 s7" unfolding s7_def by (rule give_up) (simp_all add: defs)
  have st8: "batch_step one_meter s7 s8" unfolding s8_def by (rule filled [where n = 4]) (simp_all add: defs)
  have st9: "batch_step one_meter s8 s9" unfolding s9_def by (rule all_sent) (simp_all add: defs)
  have st10: "batch_step one_meter s9 t" unfolding t_def by (rule joined) (simp_all add: defs)
  have "batch_run one_meter s0 t" by (rule run_on [OF run_on [OF run_on [OF run_on [OF run_on [OF run_on [OF run_on [OF run_on [OF run_on [OF run_on [OF run_start st1] st2] st3] st4] st5] st6] st7] st8] st9] st10])
  moreover have "bt_finished t" "bt_in_flight t = 1" "bt_rows t = []" by (simp_all add: defs)
  ultimately show ?thesis unfolding s0_def by blast
qed

lemma batch_accounts_witness:
  "\<exists>s. batch_run one_meter (new_batch one_meter 0 [] 0) s \<and> bt_finished s
     \<and> length (filter (\<lambda>w. snd w = Gone) (bt_workers s)) = 1 \<and> bt_done s = 0"
proof -
  obtain s where s: "batch_run one_meter (new_batch one_meter 0 [] 0) s" "bt_finished s" "bt_in_flight s = 1" "bt_rows s = []"
    using stopped_job by blast
  from batch_accounts [OF s(1)] s show ?thesis by (metis list.size(3))
qed


text \<open>Two threads that increase the number one after the other before either builds its message send the same one.\<close>

definition two_meters :: batch_config where
  "two_meters = new_config [''000000000001'', ''000000000002''] 5 ''single'' 2 59 [] (\<lambda>f. None) (\<lambda>fr. [])"

lemma two_meters_request: "bc_meters two_meters = [''000000000001'', ''000000000002'']" "bc_max two_meters = 5"
  "meter_read_645 ''000000000001'' \<noteq> None" "meter_read_645 ''000000000002'' \<noteq> None"
  "batch_request two_meters ''000000000001'' 2 \<noteq> None" "batch_request two_meters ''000000000002'' 2 \<noteq> None"
  by code_simp+

lemma same_number_twice:
  "\<exists>s. batch_run two_meters (new_batch two_meters 0 [] 0) s \<and> bt_sent s = [(''000000000001'', 2), (''000000000002'', 2)]"
proof -
  define s0 where "s0 = new_batch two_meters 0 [] 0"
  define s1 where "s1 = s0\<lparr>bt_main := Filling (bc_max two_meters - bt_in_flight s0)\<rparr>"
  define s2 where "s2 = s1\<lparr>bt_queue := [''000000000002''], bt_queued := length [''000000000002''], bt_in_flight := bt_in_flight s1 + 1,
    bt_workers := bt_workers s1 @ [(''000000000001'', Fresh)], bt_main := Filling 4\<rparr>"
  define s3 where "s3 = s2\<lparr>bt_queue := [], bt_queued := length ([] :: string list), bt_in_flight := bt_in_flight s2 + 1,
    bt_workers := bt_workers s2 @ [(''000000000002'', Fresh)], bt_main := Filling 3\<rparr>"
  define s4 where "s4 = to_phase 0 (Adding (bt_seq s3)) s3"
  define s5 where "s5 = to_phase 0 Added (s4\<lparr>bt_seq := 0 + 1\<rparr>)"
  define s6 where "s6 = to_phase 1 (Adding (bt_seq s5)) s5"
  define s7 where "s7 = to_phase 1 Added (s6\<lparr>bt_seq := 1 + 1\<rparr>)"
  define s8 where "s8 = to_phase 0 (Waiting (length (bt_history s7)) (bt_clock s7 + bc_timeout two_meters))
    (s7\<lparr>bt_sent := bt_sent s7 @ [(fst (bt_workers s7 ! 0), bt_seq s7)]\<rparr>)"
  define t where "t = to_phase 1 (Waiting (length (bt_history s8)) (bt_clock s8 + bc_timeout two_meters))
    (s8\<lparr>bt_sent := bt_sent s8 @ [(fst (bt_workers s8 ! 1), bt_seq s8)]\<rparr>)"
  note defs = s1_def s2_def s3_def s4_def s5_def s6_def s7_def s8_def t_def s0_def new_batch_def
    to_phase_def at_phase_def two_meters_request
  have st1: "batch_step two_meters s0 s1" unfolding s1_def by (rule look) (simp_all add: defs)
  have st2: "batch_step two_meters s1 s2" unfolding s2_def by (rule start_one) (simp_all add: defs)
  have st3: "batch_step two_meters s2 s3" unfolding s3_def by (rule start_one) (simp_all add: defs)
  have st4: "batch_step two_meters s3 s4" unfolding s4_def by (rule read_seq) (simp_all add: defs)
  have st5: "batch_step two_meters s4 s5" unfolding s5_def by (rule write_seq) (simp_all add: defs)
  have st6: "batch_step two_meters s5 s6" unfolding s6_def by (rule read_seq) (simp_all add: defs)
  have st7: "batch_step two_meters s6 s7" unfolding s7_def by (rule write_seq) (simp_all add: defs)
  have st8: "batch_step two_meters s7 s8" unfolding s8_def by (rule send_one) (simp_all add: defs del: not_None_eq)
  have st9: "batch_step two_meters s8 t" unfolding t_def by (rule send_one) (simp_all add: defs del: not_None_eq)
  have "batch_run two_meters s0 t" by (rule run_on [OF run_on [OF run_on [OF run_on [OF run_on [OF run_on [OF run_on [OF run_on [OF run_on [OF run_start st1] st2] st3] st4] st5] st6] st7] st8] st9])
  moreover have "bt_sent t = [(''000000000001'', 2), (''000000000002'', 2)]" by (simp add: defs)
  ultimately show ?thesis unfolding s0_def by blast
qed

end
