(* ===== verification/Spec2Isabelle.thy ===== *)
theory Spec2Isabelle
  imports App_Data Mac_Mgmt Axdr Resources Run_Status Flow_Compare Xmodem Log_Rules Log_Engine Period_Stats Batch_Read
begin

text \<open>
  Verification of the protocol and test tools for meter communication: frames of four protocols are
  cut out of byte streams and decoded (\<open>src/libs/parser_lib\<close>), log files are turned into events by
  rules (\<open>src/libs/loghooks\<close>), automated runs drive a simulated concentrator and compare the events
  with an expected flow (\<open>src/libs/test_automation\<close>, \<open>src/apps/workbench/orchestration\<close>,
  \<open>src/libs/sim_concentrator\<close>), and a module's firmware is written over its serial port
  (\<open>src/apps/module_log/xmodem_flash.py\<close>).

  \<^bold>\<open>Conventions.\<close> The program is Python. Bytes are \<open>8 word\<close>, buffers lists of them, integers that cannot
  be negative \<open>nat\<close> and the others \<open>int\<close>; registers that the source masks to 16 bits are \<open>16 word\<close>. A
  function that may raise returns \<open>py_exc + 'a\<close>, and \<open>'a option\<close> where only the IndexError of a read
  beyond the end can occur. Dicts whose order or whose keys are data are association lists with
  \<open>AList.update\<close>, which keeps a present key in its place and appends a new one, as Python does. A text
  has the characters up to 255; display texts in Chinese are left out or named in ASCII. State is passed
  and returned; what a raising operation has already changed is part of its result where a caller goes
  on with the state. \<open>Prelude\<close> holds slices, searches, masks, little-endian words, hexadecimal and
  integer texts; \<open>Py_Values\<close> the JSON values with \<open>int()\<close>, \<open>str()\<close>, \<open>repr\<close> and truth.

  \<^bold>\<open>The parser stack.\<close> \<open>core/splitter.py\<close>, \<open>router.py\<close> and \<open>envelope.py\<close> are \<open>Frame_Splitter\<close>: the buffer,
  the extraction loop with its realignment and the choice of a protocol, over adapters that are records
  of functions. The locale \<open>frame_extractor\<close> states what the splitter needs of an adapter, an
  extraction that consumes between one byte and the whole buffer, and \<open>lawful_adapters\<close> the same of a
  whole set of them. \<open>Adapter_645\<close>, \<open>Adapter_698\<close> (link layer),
  \<open>Adapter_10376\<close> and \<open>Adapter_Dualmode\<close> are the four adapters, each with its builder, extraction, score and
  decoder; \<open>Axdr\<close> is the data reader of 698.45; \<open>App_Items\<close> and \<open>App_Encode\<close> are the application data of
  1376.2 in both directions, function by function. \<open>Parser_Stack\<close> registers the adapters and interprets
  the locales on them; \<open>App_Data\<close> joins encoder, frame builder, decoder and reader. The lemmas show that
  built frames are extracted, scored and decoded into what they were built from, that the table-driven
  check sequence is the bitwise one and detects every change of two neighbouring bytes, that readers
  return or raise in exactly described cases, that the loops end, and where frames are lost.

  \<^bold>\<open>The dual-mode link layer\<close>, \<open>adapters/adapter_dualmac\<close>: \<open>Mac_Frame\<close> has the envelope of the listening
  station, the frame control header, the MAC header with its message and the check sequence, \<open>Mac_Beacon\<close>
  the entries of a beacon and its time slots, \<open>Mac_Mgmt\<close> the management messages, the events and the
  decoder of a whole frame. What a sender lays out is read back, a changed byte is found, a schedule is
  built exactly from complete slot entries, and the decoder returns but for one kind of message.

  \<^bold>\<open>Automated runs.\<close> \<open>Resources\<close> is the lease manager and the registry of serial ports with the exclusion
  they promise. \<open>Run_Status\<close> has the status machine, the evidence store and the run executor: the steps of
  the worker thread and of a cancelling caller are a relation, one step per access to the shared record,
  and reachability gives what every interleaving ends in. \<open>Flow_Compare\<close> compares events with expected
  steps, gives the verdict of a run and the advice of the feedback rules.

  \<^bold>\<open>Logs.\<close> \<open>Log_Sequence\<close> is the tracker of flows over several lines, refined by one state machine per bucket;
  \<open>Log_Rules\<close> the validation and loading of rule tables; \<open>Log_Engine\<close> the matching of lines, the engine
  and the watch of growing files. \<open>Period_Stats\<close> are the statistics of concurrent reading, whose sweep is
  shown to give the highest number of attempts in flight.

  \<^bold>\<open>The simulated concentrator\<close>, \<open>src/libs/sim_concentrator\<close>: \<open>Sim_Frames\<close> cuts and reads its frames and builds
  those that are described, \<open>Sim_Rules\<close> has the expected replies, the comparison of a frame with an
  expectation and the automatic answers, \<open>Frame_Journal\<close> the journal with its marks, queries and sessions,
  \<open>Task_Runner\<close> the port with its reading thread and the execution of steps and tasks. What arrives while a
  step waits is a list of turns, each a reading of the clock and the pieces that come until its end. The
  locale \<open>port_invariant\<close> proves once that what sending, recording and answering keep is kept by every step
  and task; it is interpreted for the mark of a run. The lemmas show that pieces do not matter, which frame
  decides a step, that a task ends and what its report says, that pages of a query tile, which answers
  are sent, and where they are sent twice. \<open>Batch_Read\<close> reads many meters at a time: the main thread, the
  threads of the meters and the arriving frames are a relation on the shared state, whose reachable states
  keep the limit and the books.

  \<^bold>\<open>Firmware.\<close> \<open>Xmodem\<close> is the sender with its dialogue: what it reports as sent has been delivered by every
  receiver that keeps to the protocol, and with fewer lost answers than tries it ends.

  \<^bold>\<open>Arguments of the model.\<close> What is not code of the repository is an argument: the data-item dictionaries
  (JSON files) of the decoders, the matching of a rule's regular expression, the serial port and the clock
  (functions on a state of any type, rounds of lines, lists of polls). No fuel is used: loops are structural
  recursions or have a measure, but for the nested scans, which are partial functions shown to return.

  \<^bold>\<open>Bounds.\<close> Recursion limits of the interpreter, memory and threads beyond the executor's two are left out;
  floating point times count as exact numbers.

  \<^bold>\<open>Not modelled.\<close> Display texts; reading of files, databases and configuration; HTTP routing; the 698.45
  service parsers and the minute-collection readers of the dual-mode adapter, whose results are display
  fields; the listener's log store with its assessments, which are SQL and file
  scans; the choice and the driver of serial ports; scripts. The components of the manifest
  name them one by one.
\<close>

end
